(* ===== verification/Prelude.thy ===== *)
theory Prelude
  imports Main "HOL-Library.Word" "HOL-Library.Multiset"
begin

text \<open>
  What the component theories share:
  \<^item> the machine types of the program (\<open>uint64_t\<close>, \<open>std::size_t\<close>, \<open>int\<close>) and the signed
    arithmetic of C++, in which leaving the range of \<open>int\<close> is undefined behaviour and so an
    error value here (\<open>checked\<close>);
  \<^item> the reachable states of a step relation, and the interface \<open>invariant_system\<close> through
    which every component turns ``each step keeps it'' into ``it holds in every reachable state'',
    with its extension \<open>refinement_mapping\<close> to systems that implement an abstract one;
  \<^item> the documented laws of the string functions of Abseil the program calls, as predicates on
    the functions the models take as arguments;
  \<^item> small facts on lists and multisets.
\<close>

named_theorems checked_simps \<open>rules that evaluate checked machine arithmetic\<close>

section \<open>Machine integers\<close>

type_synonym u64 = "64 word"

datatype ub =
    SignedOverflow
  | OutOfBounds
  | AssertFailed
  | BadFree
  | NullPointer
  | DanglingPointer
  | DeadQueue

type_synonym 'a checked = "ub + 'a"

definition bind_checked :: "'a checked \<Rightarrow> ('a \<Rightarrow> 'b checked) \<Rightarrow> 'b checked" where
  "bind_checked m f = (case m of Inl e \<Rightarrow> Inl e | Inr x \<Rightarrow> f x)"

definition INT_MIN :: int where
  "INT_MIN = - (2 ^ 31)"

definition INT_MAX :: int where
  "INT_MAX = 2 ^ 31 - 1"

definition in_int :: "int \<Rightarrow> bool" where
  "in_int x \<longleftrightarrow> INT_MIN \<le> x \<and> x \<le> INT_MAX"

definition to_int :: "int \<Rightarrow> int checked" where
  "to_int x = (if in_int x then Inr x else Inl SignedOverflow)"

definition int_add :: "int \<Rightarrow> int \<Rightarrow> int checked" where
  "int_add x y = to_int (x + y)"

definition int_sub :: "int \<Rightarrow> int \<Rightarrow> int checked" where
  "int_sub x y = to_int (x - y)"

definition int_mul :: "int \<Rightarrow> int \<Rightarrow> int checked" where
  "int_mul x y = to_int (x * y)"

section \<open>Reachable states and invariants\<close>

inductive reachable :: "('s \<Rightarrow> bool) \<Rightarrow> ('s \<Rightarrow> 's \<Rightarrow> bool) \<Rightarrow> 's \<Rightarrow> bool"
  for init :: "'s \<Rightarrow> bool" and step :: "'s \<Rightarrow> 's \<Rightarrow> bool" where
  reachable_init: "init s \<Longrightarrow> reachable init step s"
| reachable_step: "reachable init step s \<Longrightarrow> step s t \<Longrightarrow> reachable init step t"

section \<open>Laws of the string functions the program imports\<close>

text \<open>
  Abseil is not part of the repository, so its string functions are arguments of the models.
  \<open>StrCat\<close> concatenates its arguments; \<open>StrJoin\<close> puts a separator between the pieces;
  \<open>StrSplit\<close> by a one-character delimiter yields the pieces, none of which contains the
  delimiter and which joined by it give back the text.
\<close>

definition strcat_law :: "(string list \<Rightarrow> string) \<Rightarrow> bool" where
  "strcat_law StrCat \<longleftrightarrow> (\<forall>xs. StrCat xs = concat xs)"

fun joined :: "'a list \<Rightarrow> 'a list list \<Rightarrow> 'a list" where
  "joined sep [] = []"
| "joined sep [x] = x"
| "joined sep (x # y # ys) = x @ sep @ joined sep (y # ys)"

definition strsplit_law :: "(string \<Rightarrow> char \<Rightarrow> string list) \<Rightarrow> bool" where
  "strsplit_law StrSplit \<longleftrightarrow>
     (\<forall>text d. StrSplit text d \<noteq> [] \<and> joined [d] (StrSplit text d) = text \<and>
               (\<forall>p \<in> set (StrSplit text d). d \<notin> set p))"

section \<open>Facts on checked arithmetic\<close>

lemma bind_checked_simps [simp, checked_simps]:
  "bind_checked (Inl e) f = Inl e"
  "bind_checked (Inr x) f = f x"
  by (simp_all add: bind_checked_def)

lemma bind_checked_eq_Inr [simp]:
  "bind_checked m f = Inr y \<longleftrightarrow> (\<exists>x. m = Inr x \<and> f x = Inr y)"
  by (cases m) simp_all

lemma to_int_eq_Inr [simp]: "to_int x = Inr y \<longleftrightarrow> in_int x \<and> y = x"
  by (auto simp: to_int_def)

lemma to_int_eq_Inl [simp]: "to_int x = Inl e \<longleftrightarrow> \<not> in_int x \<and> e = SignedOverflow"
  by (auto simp: to_int_def)

lemma to_int_in [checked_simps]: "in_int x \<Longrightarrow> to_int x = Inr x"
  by simp

lemma to_int_out [checked_simps]: "\<not> in_int x \<Longrightarrow> to_int x = Inl SignedOverflow"
  by simp

lemmas int_range = in_int_def INT_MIN_def INT_MAX_def
lemmas int_ops = int_add_def int_sub_def int_mul_def

section \<open>The invariant interface\<close>

locale invariant_system =
  fixes init :: "'s \<Rightarrow> bool"
    and step :: "'s \<Rightarrow> 's \<Rightarrow> bool"
    and inv :: "'s \<Rightarrow> bool"
  assumes inv_init: "init s \<Longrightarrow> inv s"
    and inv_step: "inv s \<Longrightarrow> step s t \<Longrightarrow> inv t"
begin

lemma reachable_inv: "reachable init step s \<Longrightarrow> inv s"
  by (induction rule: reachable.induct) (auto intro: inv_init inv_step)

lemma reachable_inv_step:
  "reachable init step s \<Longrightarrow> step s t \<Longrightarrow> inv s \<and> inv t"
  by (blast dest: reachable_inv intro: inv_step)

end

section \<open>The refinement interface\<close>

text \<open>
  A system refines a specification when a function maps its states to those of the specification so that initial states
  are initial and every step is a step of the specification or changes nothing that it sees. Every reachable state of the
  system then shows a reachable state of the specification, and what is invariant there holds of it.
\<close>

locale refinement_mapping = invariant_system init step inv
  for init :: "'s \<Rightarrow> bool" and step :: "'s \<Rightarrow> 's \<Rightarrow> bool" and inv :: "'s \<Rightarrow> bool" +
  fixes spec_init :: "'a \<Rightarrow> bool"
    and spec_step :: "'a \<Rightarrow> 'a \<Rightarrow> bool"
    and view :: "'s \<Rightarrow> 'a"
  assumes view_init: "init s \<Longrightarrow> spec_init (view s)"
    and view_step: "inv s \<Longrightarrow> step s t \<Longrightarrow> spec_step (view s) (view t) \<or> view t = view s"
begin

lemma view_reachable: "reachable init step s \<Longrightarrow> reachable spec_init spec_step (view s)"
proof (induction rule: reachable.induct)
  case (reachable_init s)
  then show ?case by (intro reachable.reachable_init view_init)
next
  case (reachable_step s t)
  from view_step [OF reachable_inv [OF reachable_step.hyps(1)] reachable_step.hyps(2)] show ?case
    using reachable_step.IH reachable.reachable_step [of spec_init spec_step "view s" "view t"] by auto
qed

lemma view_square:
  "reachable init step s \<Longrightarrow> step s t \<Longrightarrow> spec_step (view s) (view t) \<or> view t = view s"
  by (rule view_step [OF reachable_inv])

end

section \<open>Facts on joining and splitting\<close>

lemma joined_Cons: "xs \<noteq> [] \<Longrightarrow> joined sep (x # xs) = x @ sep @ joined sep xs"
  by (cases xs) simp_all

lemma split_first_unique:
  assumes "x @ d # u = y @ d # v" "d \<notin> set x" "d \<notin> set y"
  shows "x = y \<and> u = v"
  using assms
proof (induction x arbitrary: y)
  case Nil
  then show ?case by (cases y) auto
next
  case (Cons a x)
  then show ?case by (cases y) auto
qed

lemma joined_unique:
  assumes "joined [d] xs = joined [d] ys" "xs \<noteq> []" "ys \<noteq> []"
    "\<forall>p \<in> set xs. d \<notin> set p" "\<forall>p \<in> set ys. d \<notin> set p"
  shows "xs = ys"
  using assms
proof (induction xs arbitrary: ys)
  case Nil
  then show ?case by simp
next
  case (Cons x xs)
  obtain y ys' where ys: "ys = y # ys'" using Cons.prems(3) by (cases ys) auto
  show ?case
  proof (cases "xs = [] \<or> ys' = []")
    case True
    then show ?thesis
      using Cons.prems ys by (cases xs; cases ys') (auto simp: joined_Cons)
  next
    case False
    then have "x @ d # joined [d] xs = y @ d # joined [d] ys'"
      using Cons.prems(1) ys by (simp add: joined_Cons)
    then have "x = y" "joined [d] xs = joined [d] ys'"
      using split_first_unique Cons.prems(4,5) ys by fastforce+
    then show ?thesis using Cons False ys by simp
  qed
qed

lemma strsplit_joined:
  assumes "strsplit_law StrSplit" "xs \<noteq> []" "\<forall>p \<in> set xs. d \<notin> set p"
  shows "StrSplit (joined [d] xs) d = xs"
proof (rule joined_unique [of d])
  show "joined [d] (StrSplit (joined [d] xs) d) = joined [d] xs"
    and "StrSplit (joined [d] xs) d \<noteq> []"
    and "\<forall>p \<in> set (StrSplit (joined [d] xs) d). d \<notin> set p"
    using assms(1) by (auto simp: strsplit_law_def)
qed (use assms in auto)

end
