(* ===== verification/Session_Tags.thy ===== *)
theory Session_Tags
  imports Prelude
begin

text \<open>
  The completion-queue tags of the asynchronous gRPC server
  (\<open>src/grpcdemo/server_async.cc\<close>, lines 20--39): a tag is a pointer-sized integer that packs a
  session id and a two-bit event. The interface \<open>tag_codec\<close> is what the server relies on.
\<close>

unbundle bit_operations_syntax

definition SESSION_EVENT_BIT_LENGTH :: nat where
  "SESSION_EVENT_BIT_LENGTH = 2"

definition SESSION_EVENT_MASK :: u64 where
  "SESSION_EVENT_MASK = push_bit SESSION_EVENT_BIT_LENGTH 1 - 1"

datatype SessionEvent =
    SessionEventConnected
  | SessionEventReadDone
  | SessionEventWriteDone
  | SessionEventFinished

fun event_code :: "SessionEvent \<Rightarrow> u64" where
  "event_code SessionEventConnected = 0"
| "event_code SessionEventReadDone = 1"
| "event_code SessionEventWriteDone = 2"
| "event_code SessionEventFinished = 3"

text \<open>The cast \<open>(SessionEvent)(value & SESSION_EVENT_MASK)\<close> sees only the values 0 to 3.\<close>

definition event_of_code :: "u64 \<Rightarrow> SessionEvent" where
  "event_of_code v =
     (if v = 0 then SessionEventConnected
      else if v = 1 then SessionEventReadDone
      else if v = 2 then SessionEventWriteDone
      else SessionEventFinished)"

definition tagify :: "u64 \<Rightarrow> SessionEvent \<Rightarrow> u64" where
  "tagify sid event = push_bit SESSION_EVENT_BIT_LENGTH sid OR event_code event"

definition detagify :: "u64 \<Rightarrow> u64 \<times> SessionEvent" where
  "detagify tag =
     (drop_bit SESSION_EVENT_BIT_LENGTH tag, event_of_code (tag AND SESSION_EVENT_MASK))"

text \<open>The session ids that survive the shift: those below \<open>2 ^ 62\<close>.\<close>

definition id_fits :: "u64 \<Rightarrow> bool" where
  "id_fits sid \<longleftrightarrow> unat sid < 2 ^ 62"

section \<open>The interface\<close>

locale tag_codec =
  fixes enc :: "'i \<Rightarrow> 'e \<Rightarrow> 't"
    and dec :: "'t \<Rightarrow> 'i \<times> 'e"
    and fits :: "'i \<Rightarrow> bool"
  assumes dec_enc: "fits i \<Longrightarrow> dec (enc i e) = (i, e)"
    and enc_dec: "enc (fst (dec t)) (snd (dec t)) = t"
begin

lemma enc_eq_iff: "fits i \<Longrightarrow> fits j \<Longrightarrow> enc i e = enc j f \<longleftrightarrow> i = j \<and> e = f"
  by (metis dec_enc prod.inject)

lemma dec_inj: "dec t = dec u \<Longrightarrow> t = u"
  by (metis enc_dec)

lemma dec_eq_iff: "fits i \<Longrightarrow> dec t = (i, e) \<longleftrightarrow> t = enc i e"
  by (metis dec_enc dec_inj)

end

section \<open>The codec of the server meets it\<close>

lemma masked_eq: "v AND SESSION_EVENT_MASK = take_bit 2 v"
  by (simp add: SESSION_EVENT_MASK_def SESSION_EVENT_BIT_LENGTH_def take_bit_eq_mask
      mask_eq_exp_minus_1)

lemma event_code_inverse [simp]: "event_of_code (event_code e) = e"
  by (cases e) (simp_all add: event_of_code_def)

lemma event_code_masked [simp]: "take_bit 2 (event_code e) = event_code e"
  by (cases e) simp_all

lemma event_code_shifted [simp]: "drop_bit 2 (event_code e) = 0"
  by (cases e) simp_all

lemma take_bit2_cases: "take_bit 2 (v :: u64) \<in> {0, 1, 2, 3}"
proof -
  have "uint (take_bit 2 v) = uint v mod 4"
    by (simp only: unsigned_take_bit_eq) (simp add: take_bit_eq_mod)
  moreover have "uint v mod 4 \<in> {0, 1, 2, 3}" by (simp add: insert_iff) presburger
  ultimately have "uint (take_bit 2 v) \<in> {0, 1, 2, 3}" by simp
  then show ?thesis by (auto simp: word_uint_eq_iff)
qed

lemma event_code_of_code [simp]: "event_code (event_of_code (take_bit 2 v)) = take_bit 2 v"
  using take_bit2_cases [of v] by (auto simp: event_of_code_def)

lemma tagify_event: "snd (detagify (tagify sid e)) = e"
  by (simp add: detagify_def tagify_def masked_eq SESSION_EVENT_BIT_LENGTH_def
      take_bit_push_bit)

lemma tagify_id: "fst (detagify (tagify sid e)) = take_bit 62 sid"
  by (simp add: detagify_def tagify_def SESSION_EVENT_BIT_LENGTH_def)
    (auto intro!: bit_word_eqI simp: bit_simps)

lemma id_fits_take_bit: "id_fits sid \<Longrightarrow> take_bit 62 sid = sid"
  by (simp add: id_fits_def word_unat_eq_iff unsigned_take_bit_eq take_bit_nat_eq_self)

lemma detagify_tagify: "id_fits sid \<Longrightarrow> detagify (tagify sid e) = (sid, e)"
  by (simp add: prod_eq_iff tagify_event tagify_id id_fits_take_bit)

lemma Suc_Suc_minus_2: "2 \<le> n \<Longrightarrow> Suc (Suc (n - 2)) = n"
  by simp

lemma tagify_detagify: "tagify (fst (detagify tag)) (snd (detagify tag)) = tag"
  by (simp add: detagify_def tagify_def masked_eq SESSION_EVENT_BIT_LENGTH_def)
    (auto intro!: bit_word_eqI simp: bit_simps Suc_Suc_minus_2)

lemma detagify_fits: "id_fits (fst (detagify tag))"
proof -
  have tag: "unat tag < 2 ^ 64" using unsigned_less [of tag] by simp
  moreover have "unat (drop_bit 2 tag) = unat tag div 4"
    using tag by (simp only: unsigned_drop_bit_eq)
      (simp add: drop_bit_eq_div take_bit_nat_eq_self)
  ultimately show ?thesis
    by (simp add: id_fits_def detagify_def SESSION_EVENT_BIT_LENGTH_def)
qed

interpretation tags: tag_codec tagify detagify id_fits
  by unfold_locales (simp_all add: detagify_tagify tagify_detagify)

lemma fits_unless_truncated: "take_bit 62 sid = sid \<Longrightarrow> id_fits sid"
  using detagify_fits [of "tagify sid SessionEventConnected"]
  by (simp add: tagify_id)

section \<open>Properties\<close>

text \<open>
  C23: \<open>detagify\<close> recovers the session id and the event that \<open>tagify\<close> packed exactly when the id
  fits in the 62 bits the shift leaves; a larger id loses its top bits but never its event.
\<close>
theorem detagify_tagify_iff:
  "(detagify (tagify sid e) = (sid, e) \<longleftrightarrow> unat sid < 2 ^ 62) \<and>
   snd (detagify (tagify sid e)) = e"
  using detagify_tagify [of sid e] fits_unless_truncated [of sid]
  by (auto simp: prod_eq_iff tagify_event tagify_id id_fits_def)

text \<open>
  Packing is a bijection between the pairs of a fitting session id and an event and the
  64-bit tags: no two pending operations of the server can share a tag, and the queue can
  deliver no tag that does not decode to such a pair.
\<close>
lemma tagify_bij:
  "bij_betw (\<lambda>(sid, e). tagify sid e) ({i. unat i < 2 ^ 62} \<times> UNIV) UNIV"
proof (rule bij_betw_byWitness [where f' = detagify])
  show "range detagify \<subseteq> {i. unat i < 2 ^ 62} \<times> UNIV"
    using detagify_fits by (simp add: image_subset_iff mem_Times_iff id_fits_def)
qed (auto simp: detagify_tagify id_fits_def tagify_detagify case_prod_unfold)

end
