(* ===== verification/Greeter_Proto.thy ===== *)
theory Greeter_Proto
  imports Prelude
begin

text \<open>
  The messages of \<open>src/grpcdemo/proto/common.proto\<close> and \<open>src/grpcdemo/proto/greeter.proto\<close>, as
  the accessors of the code that \<open>protoc\<close> generates present them. Every field of a proto3
  message has a default: the empty string, \<open>false\<close>, the default message.
\<close>

record Config =
  double_quote :: bool

record HelloRequest =
  req_name :: string
  req_config :: Config

record HelloResponse =
  resp_message :: string

definition default_Config :: Config where
  "default_Config = \<lparr>double_quote = False\<rparr>"

definition default_HelloRequest :: HelloRequest where
  "default_HelloRequest = \<lparr>req_name = '''', req_config = default_Config\<rparr>"

end
