(* ===== verification/Greeter_Session.thy ===== *)
theory Greeter_Session
  imports Session_Tags Greeter_Proto
begin

text \<open>
  One bidirectional stream of the asynchronous server: class \<open>GreeterSession\<close> of
  \<open>src/grpcdemo/server_async.cc\<close> (lines 41--171). The calls a method makes on
  \<open>async_service_\<close>, \<open>stream_\<close> and \<open>context_\<close> are its outputs, in the order the code makes them; the
  gRPC runtime answers each with a completion, which the server turns into an event.
  The interface \<open>write_serializer\<close> is the contract of the outgoing half of the stream, which
  gRPC imposes on every user of \<open>ServerAsyncReaderWriter\<close>: one \<open>Write\<close> at a time.
\<close>

section \<open>The session\<close>

datatype SessionStatus =
    SessionStatusWaitToConnect
  | SessionStatusReadyToWrite
  | SessionStatusWaitWriteDone

record GreeterSession =
  session_id :: u64
  status :: SessionStatus
  request :: HelloRequest
  message_queue :: "HelloResponse list"

datatype stream_op =
    RequestSayHello3 u64
  | Read u64
  | Write HelloResponse u64
  | TryCancel u64

definition new_GreeterSession :: "u64 \<Rightarrow> GreeterSession \<times> stream_op list" where
  "new_GreeterSession sid =
     (\<lparr>session_id = sid, status = SessionStatusWaitToConnect,
       request = default_HelloRequest, message_queue = []\<rparr>,
      [RequestSayHello3 (tagify sid SessionEventConnected)])"

definition SendResponse ::
  "GreeterSession \<Rightarrow> HelloResponse \<Rightarrow> GreeterSession \<times> stream_op list" where
  "SendResponse s response =
     (if status s \<noteq> SessionStatusReadyToWrite \<and> status s \<noteq> SessionStatusWaitWriteDone
      then (s, [])
      else if status s = SessionStatusReadyToWrite
      then (s\<lparr>status := SessionStatusWaitWriteDone\<rparr>,
            [Write response (tagify (session_id s) SessionEventWriteDone)])
      else (s\<lparr>message_queue := message_queue s @ [response]\<rparr>, []))"

definition greeting :: "HelloRequest \<Rightarrow> HelloResponse" where
  "greeting r = \<lparr>resp_message = ''hello '' @ req_name r\<rparr>"

fun ProcessEvent :: "GreeterSession \<Rightarrow> SessionEvent \<Rightarrow> GreeterSession \<times> stream_op list" where
  "ProcessEvent s SessionEventConnected =
     (s\<lparr>status := SessionStatusReadyToWrite\<rparr>,
      [Read (tagify (session_id s) SessionEventReadDone)])"
| "ProcessEvent s SessionEventReadDone =
     (let (s', ops) = SendResponse s (greeting (request s))
      in (s', ops @ [Read (tagify (session_id s') SessionEventReadDone)]))"
| "ProcessEvent s SessionEventWriteDone =
     (case message_queue s of
        m # q \<Rightarrow>
          (s\<lparr>status := SessionStatusWaitWriteDone, message_queue := q\<rparr>,
           [Write m (tagify (session_id s) SessionEventWriteDone)])
      | [] \<Rightarrow> (s\<lparr>status := SessionStatusReadyToWrite\<rparr>, []))"
| "ProcessEvent s SessionEventFinished = (s, [])"

text \<open>The messages handed to \<open>Write\<close>, in order.\<close>

fun writes_of :: "stream_op list \<Rightarrow> HelloResponse list" where
  "writes_of [] = []"
| "writes_of (Write m t # ops) = m # writes_of ops"
| "writes_of (_ # ops) = writes_of ops"

text \<open>
  What can happen to a session: a completion, with the request that gRPC has stored in
  \<open>request\<close> for a read, or a response offered by the broadcast thread.
\<close>

datatype session_input =
    OnConnected
  | OnReadDone HelloRequest
  | OnWriteDone
  | OnSend HelloResponse

fun session_step :: "GreeterSession \<Rightarrow> session_input \<Rightarrow> GreeterSession \<times> stream_op list" where
  "session_step s OnConnected = ProcessEvent s SessionEventConnected"
| "session_step s (OnReadDone r) = ProcessEvent (s\<lparr>request := r\<rparr>) SessionEventReadDone"
| "session_step s OnWriteDone = ProcessEvent s SessionEventWriteDone"
| "session_step s (OnSend m) = SendResponse s m"

fun session_run ::
  "GreeterSession \<Rightarrow> session_input list \<Rightarrow> GreeterSession \<times> stream_op list" where
  "session_run s [] = (s, [])"
| "session_run s (i # is) =
     (let (s', ops) = session_step s i; (s'', ops') = session_run s' is in (s'', ops @ ops'))"

text \<open>The responses an input asks the session to send.\<close>

fun responses_of :: "session_input \<Rightarrow> HelloResponse list" where
  "responses_of (OnReadDone r) = [greeting r]"
| "responses_of (OnSend m) = [m]"
| "responses_of _ = []"

text \<open>
  Completions of writes as gRPC produces them: one for each write issued and not yet completed,
  which \<open>pending\<close> counts. \<open>count_reads\<close> and \<open>count_done\<close> count the reads issued and the inputs of a
  kind.
\<close>

fun env_ok :: "nat \<Rightarrow> GreeterSession \<Rightarrow> session_input list \<Rightarrow> bool" where
  "env_ok pending s [] = True"
| "env_ok pending s (i # is) =
     (let (s', ops) = session_step s i
      in if i = OnWriteDone
         then 0 < pending \<and> env_ok (pending - 1 + length (writes_of ops)) s' is
         else env_ok (pending + length (writes_of ops)) s' is)"

fun is_Read :: "stream_op \<Rightarrow> bool" where
  "is_Read (Read t) = True"
| "is_Read _ = False"

fun is_ReadDone :: "session_input \<Rightarrow> bool" where
  "is_ReadDone (OnReadDone r) = True"
| "is_ReadDone _ = False"

fun is_Send :: "session_input \<Rightarrow> bool" where
  "is_Send (OnSend m) = True"
| "is_Send _ = False"

definition connected :: "GreeterSession \<Rightarrow> bool" where
  "connected s \<longleftrightarrow> status s \<noteq> SessionStatusWaitToConnect"

definition session_inv :: "GreeterSession \<Rightarrow> bool" where
  "session_inv s \<longleftrightarrow> (message_queue s \<noteq> [] \<longrightarrow> status s = SessionStatusWaitWriteDone)"

text \<open>The two calls that drive the outgoing half, reduced to the messages they write.\<close>

definition offer :: "GreeterSession \<Rightarrow> HelloResponse \<Rightarrow> GreeterSession \<times> HelloResponse list" where
  "offer s m = map_prod id writes_of (SendResponse s m)"

definition write_done :: "GreeterSession \<Rightarrow> GreeterSession \<times> HelloResponse list" where
  "write_done s = map_prod id writes_of (ProcessEvent s SessionEventWriteDone)"

definition write_pending :: "GreeterSession \<Rightarrow> bool" where
  "write_pending s \<longleftrightarrow> status s = SessionStatusWaitWriteDone"

text \<open>Iterated completions of the outgoing half.\<close>

fun acks :: "('s \<Rightarrow> 's \<times> 'm list) \<Rightarrow> nat \<Rightarrow> 's \<Rightarrow> 's \<times> 'm list" where
  "acks ack 0 s = (s, [])"
| "acks ack (Suc n) s = (let (s', w) = ack s; (s'', w') = acks ack n s' in (s'', w @ w'))"

section \<open>The interface of the outgoing half\<close>

locale write_serializer =
  fixes send :: "'s \<Rightarrow> 'm \<Rightarrow> 's \<times> 'm list"
    and ack :: "'s \<Rightarrow> 's \<times> 'm list"
    and live :: "'s \<Rightarrow> bool"
    and busy :: "'s \<Rightarrow> bool"
    and backlog :: "'s \<Rightarrow> 'm list"
  assumes send_idle: "live s \<Longrightarrow> \<not> busy s \<Longrightarrow> send s m = (s', w) \<Longrightarrow>
      live s' \<and> busy s' \<and> backlog s' = backlog s \<and> w = [m]"
    and send_busy: "live s \<Longrightarrow> busy s \<Longrightarrow> send s m = (s', w) \<Longrightarrow>
      live s' \<and> busy s' \<and> backlog s' = backlog s @ [m] \<and> w = []"
    and ack_empty: "live s \<Longrightarrow> backlog s = [] \<Longrightarrow> ack s = (s', w) \<Longrightarrow>
      live s' \<and> \<not> busy s' \<and> backlog s' = [] \<and> w = []"
    and ack_more: "live s \<Longrightarrow> backlog s = m # q \<Longrightarrow> ack s = (s', w) \<Longrightarrow>
      live s' \<and> busy s' \<and> backlog s' = q \<and> w = [m]"
begin

text \<open>A session with no write pending has nothing queued, and every call keeps it so.\<close>

definition quiet :: "'s \<Rightarrow> bool" where
  "quiet s \<longleftrightarrow> live s \<and> (\<not> busy s \<longrightarrow> backlog s = [])"

lemma send_quiet: "quiet s \<Longrightarrow> send s m = (s', w) \<Longrightarrow> quiet s' \<and> w @ backlog s' = backlog s @ [m]"
  using send_idle [of s m s' w] send_busy [of s m s' w]
  by (cases "busy s") (auto simp: quiet_def)

lemma ack_quiet: "quiet s \<Longrightarrow> ack s = (s', w) \<Longrightarrow> quiet s' \<and> w @ backlog s' = backlog s"
  using ack_empty [of s s' w] ack_more [of s _ _ s' w]
  by (cases "backlog s") (auto simp: quiet_def)

text \<open>Each call writes at most once, and only when no write is pending.\<close>

lemma send_serial: "quiet s \<Longrightarrow> send s m = (s', w) \<Longrightarrow> busy s' \<and> (w \<noteq> [] \<longleftrightarrow> \<not> busy s)"
  using send_idle [of s m s' w] send_busy [of s m s' w]
  by (cases "busy s") (auto simp: quiet_def)

lemma ack_serial: "quiet s \<Longrightarrow> ack s = (s', w) \<Longrightarrow> (busy s' \<longleftrightarrow> w \<noteq> []) \<and> length w \<le> 1"
  using ack_empty [of s s' w] ack_more [of s _ _ s' w]
  by (cases "backlog s") (auto simp: quiet_def)

text \<open>Enough completions drain the backlog, in order.\<close>

lemma acks_drain:
  "live s \<Longrightarrow> backlog s = q \<Longrightarrow> acks ack (Suc (length q)) s = (s', w) \<Longrightarrow>
     w = q \<and> live s' \<and> \<not> busy s' \<and> backlog s' = []"
proof (induction q arbitrary: s s' w)
  case Nil
  obtain t u where t: "ack s = (t, u)" by fastforce
  have "s' = t" "w = u" using Nil.prems(3) t by simp_all
  then show ?case using ack_empty [OF Nil.prems(1,2) t] by simp
next
  case (Cons m q)
  obtain t u where t: "ack s = (t, u)" by fastforce
  note next_state = ack_more [OF Cons.prems(1,2) t]
  obtain v w' where v: "acks ack (Suc (length q)) t = (v, w')" by fastforce
  have "s' = v" "w = u @ w'" using Cons.prems(3) t v by (simp_all add: Let_def)
  then show ?case using Cons.IH [OF _ _ v] next_state by simp
qed

end

section \<open>Facts on the operations\<close>

fun_cases ProcessEvent_elims: "ProcessEvent s e = (s', ops)"

lemma writes_of_append [simp]: "writes_of (xs @ ys) = writes_of xs @ writes_of ys"
  by (induction xs rule: writes_of.induct) simp_all

lemma SendResponse_cases:
  assumes "SendResponse s m = (s', ops)"
  obtains
    (unconnected) "status s = SessionStatusWaitToConnect" "s' = s" "ops = []"
  | (ready) "status s = SessionStatusReadyToWrite"
      "s' = s\<lparr>status := SessionStatusWaitWriteDone\<rparr>"
      "ops = [Write m (tagify (session_id s) SessionEventWriteDone)]"
  | (queued) "status s = SessionStatusWaitWriteDone"
      "s' = s\<lparr>message_queue := message_queue s @ [m]\<rparr>" "ops = []"
  using assms by (cases "status s") (auto simp: SendResponse_def)

lemma ReadDone_eq:
  "ProcessEvent s SessionEventReadDone =
     (fst (SendResponse s (greeting (request s))),
      snd (SendResponse s (greeting (request s))) @
        [Read (tagify (session_id s) SessionEventReadDone)])"
  by (simp add: SendResponse_def Let_def)

lemma session_id_SendResponse [simp]: "session_id (fst (SendResponse s m)) = session_id s"
  by (simp add: SendResponse_def)

lemma session_id_ProcessEvent [simp]: "session_id (fst (ProcessEvent s e)) = session_id s"
  by (cases e) (simp_all add: ReadDone_eq del: ProcessEvent.simps(2) split: list.split)

lemma status_rest:
  "x \<noteq> SessionStatusWaitToConnect \<Longrightarrow> x \<noteq> SessionStatusWaitWriteDone \<Longrightarrow>
     x = SessionStatusReadyToWrite"
  by (cases x) simp_all

lemmas outgoing_defs =
  offer_def write_done_def connected_def write_pending_def SendResponse_def

interpretation stream: write_serializer offer write_done connected write_pending message_queue
  by unfold_locales
    (auto simp: outgoing_defs split: list.splits if_splits dest: status_rest)

lemma stream_quiet_iff: "stream.quiet s \<longleftrightarrow> connected s \<and> session_inv s"
  by (auto simp: stream.quiet_def session_inv_def write_pending_def)

section \<open>Steps and runs\<close>

lemma session_step_offer:
  "fst (session_step s (OnSend m)) = fst (offer s m)"
  "writes_of (snd (session_step s (OnSend m))) = snd (offer s m)"
  by (simp_all add: offer_def)

lemma session_step_read:
  "fst (session_step s (OnReadDone r)) = fst (offer (s\<lparr>request := r\<rparr>) (greeting r))"
  "writes_of (snd (session_step s (OnReadDone r))) = snd (offer (s\<lparr>request := r\<rparr>) (greeting r))"
  by (simp_all add: offer_def ReadDone_eq del: ProcessEvent.simps(2))

lemma session_step_write_done:
  "fst (session_step s OnWriteDone) = fst (write_done s)"
  "writes_of (snd (session_step s OnWriteDone)) = snd (write_done s)"
  by (simp_all add: write_done_def)

lemmas session_step_outgoing = session_step_offer session_step_read session_step_write_done

lemma quiet_request [simp]:
  "stream.quiet (s\<lparr>request := r\<rparr>) = stream.quiet s"
  "write_pending (s\<lparr>request := r\<rparr>) = write_pending s"
  by (simp_all add: stream.quiet_def connected_def write_pending_def)

text \<open>One input of a connected session, through the interface of the outgoing half.\<close>

lemma session_step_quiet:
  assumes "stream.quiet s" "i \<noteq> OnConnected" "session_step s i = (s', ops)"
  shows "stream.quiet s' \<and> writes_of ops @ message_queue s' = message_queue s @ responses_of i"
proof -
  have s': "s' = fst (session_step s i)" "writes_of ops = writes_of (snd (session_step s i))"
    using assms(3) by simp_all
  show ?thesis
  proof (cases i)
    case (OnReadDone r)
    then show ?thesis
      using stream.send_quiet [of "s\<lparr>request := r\<rparr>" "greeting r"] assms(1) s'
      by (auto simp: session_step_outgoing prod_eq_iff simp del: session_step.simps)
  next
    case OnWriteDone
    then show ?thesis
      using stream.ack_quiet [of s] assms(1) s'
      by (auto simp: session_step_outgoing prod_eq_iff simp del: session_step.simps)
  next
    case (OnSend m)
    then show ?thesis
      using stream.send_quiet [of s m] assms(1) s'
      by (auto simp: session_step_outgoing prod_eq_iff simp del: session_step.simps)
  qed (use assms(2) in simp)
qed

lemma session_run_quiet:
  assumes "stream.quiet s" "OnConnected \<notin> set is" "session_run s is = (s', ops)"
  shows "stream.quiet s' \<and>
    writes_of ops @ message_queue s' = message_queue s @ concat (map responses_of is)"
  using assms
proof (induction "is" arbitrary: s ops)
  case Nil
  then show ?case by simp
next
  case (Cons i "is")
  obtain t u where t: "session_step s i = (t, u)" by fastforce
  obtain v where v: "session_run t is = (s', v)" "ops = u @ v"
    using Cons.prems(3) t by (auto simp: Let_def split: prod.splits)
  have step: "stream.quiet t" "writes_of u @ message_queue t = message_queue s @ responses_of i"
    using session_step_quiet [OF Cons.prems(1) _ t] Cons.prems(2) by auto
  moreover have "stream.quiet s'"
    "writes_of v @ message_queue s' = message_queue t @ concat (map responses_of is)"
    using Cons.IH [OF step(1) _ v(1)] Cons.prems(2) by auto
  ultimately show ?case using v(2) by simp
qed

lemma session_run_append:
  "session_run s (is @ js) =
     (let (s', ops) = session_run s is; (s'', ops') = session_run s' js in (s'', ops @ ops'))"
  by (induction "is" arbitrary: s) (simp_all add: Let_def split: prod.splits)

lemma session_run_unconnected:
  "status s = SessionStatusWaitToConnect \<Longrightarrow> \<forall>i \<in> set is. is_Send i \<Longrightarrow> session_run s is = (s, [])"
proof (induction "is")
  case (Cons i "is")
  then show ?case by (cases i) (simp_all add: SendResponse_def)
qed simp

lemma session_run_acks:
  "map_prod id writes_of (session_run s (replicate n OnWriteDone)) = acks write_done n s"
proof (induction n arbitrary: s)
  case (Suc n)
  show ?case
    using Suc.IH [of "fst (write_done s)"]
    by (auto simp: write_done_def Let_def split: prod.splits)
qed simp

text \<open>The number of writes issued and not completed, as the status records it.\<close>

abbreviation in_flight :: "GreeterSession \<Rightarrow> nat" where
  "in_flight s \<equiv> if write_pending s then 1 else 0"

lemma offer_in_flight:
  assumes "stream.quiet s"
  shows "in_flight s + length (snd (offer s m)) = in_flight (fst (offer s m))"
proof -
  obtain t w where t: "offer s m = (t, w)" by fastforce
  from stream.send_serial [OF assms t] stream.send_idle [OF _ _ t] stream.send_busy [OF _ _ t]
  show ?thesis using assms t by (cases "write_pending s") (auto simp: stream.quiet_def)
qed

lemma write_done_in_flight:
  assumes "stream.quiet s"
  shows "length (snd (write_done s)) = in_flight (fst (write_done s))"
proof -
  obtain t w where t: "write_done s = (t, w)" by fastforce
  with stream.ack_serial [OF assms t] show ?thesis by (cases w) auto
qed

lemma session_step_in_flight:
  assumes "stream.quiet s" "i \<noteq> OnConnected" "session_step s i = (s', ops)"
    "i = OnWriteDone \<Longrightarrow> write_pending s"
  shows "in_flight s + length (writes_of ops) = in_flight s' + (if i = OnWriteDone then 1 else 0)"
proof -
  have s': "s' = fst (session_step s i)" "writes_of ops = writes_of (snd (session_step s i))"
    using assms(3) by simp_all
  show ?thesis
  proof (cases i)
    case (OnReadDone r)
    then show ?thesis
      using offer_in_flight [of "s\<lparr>request := r\<rparr>" "greeting r"] assms(1) s'
      by (simp add: session_step_outgoing del: session_step.simps)
  next
    case OnWriteDone
    then show ?thesis
      using write_done_in_flight [of s] assms(1,4) s'
      by (simp add: session_step_outgoing del: session_step.simps)
  next
    case (OnSend m)
    then show ?thesis
      using offer_in_flight [of s m] assms(1) s'
      by (simp add: session_step_outgoing del: session_step.simps)
  qed (use assms(2) in simp)
qed

lemma session_run_in_flight:
  assumes "stream.quiet s" "OnConnected \<notin> set is" "session_run s is = (s', ops)"
    "env_ok (in_flight s) s is"
  shows "in_flight s + length (writes_of ops) = in_flight s' + count_list is OnWriteDone"
  using assms
proof (induction "is" arbitrary: s ops)
  case (Cons i "is")
  obtain t u where t: "session_step s i = (t, u)" by fastforce
  obtain v where v: "session_run t is = (s', v)" "ops = u @ v"
    using Cons.prems(3) t by (auto simp: Let_def split: prod.splits)
  have quiet: "stream.quiet t"
    using session_step_quiet [OF Cons.prems(1) _ t] Cons.prems(2) by auto
  have "i = OnWriteDone \<Longrightarrow> write_pending s"
    using Cons.prems(4) by (simp add: Let_def t split: if_splits)
  with session_step_in_flight [OF Cons.prems(1) _ t] Cons.prems(2)
  have flight: "in_flight s + length (writes_of u) =
      in_flight t + (if i = OnWriteDone then 1 else 0)"
    by (metis list.set_intros(1))
  then have "env_ok (in_flight t) t is"
    using Cons.prems(4) t by (auto simp: Let_def split: if_splits)
  with Cons.IH [OF quiet _ v(1)] Cons.prems(2) flight v(2) show ?case
    by (auto split: if_splits)
qed simp

lemma session_step_reads:
  assumes "session_step s i = (s', ops)" "i \<noteq> OnConnected"
  shows "length (filter is_Read ops) = (if is_ReadDone i then 1 else 0)"
  using assms
  by (cases i) (auto simp: SendResponse_def Let_def split: list.splits if_splits)

lemma session_run_reads:
  assumes "OnConnected \<notin> set is" "session_run s is = (s', ops)"
  shows "length (filter is_Read ops) = length (filter is_ReadDone is)"
  using assms
proof (induction "is" arbitrary: s ops)
  case (Cons i "is")
  obtain t u where t: "session_step s i = (t, u)" by fastforce
  obtain v where v: "session_run t is = (s', v)" "ops = u @ v"
    using Cons.prems(2) t by (auto simp: Let_def split: prod.splits)
  with Cons session_step_reads [OF t] show ?case by auto
qed simp

section \<open>Properties\<close>

abbreviation connected_run ::
  "u64 \<Rightarrow> session_input list \<Rightarrow> session_input list \<Rightarrow> GreeterSession \<times> stream_op list" where
  "connected_run sid before is \<equiv>
     session_run (fst (new_GreeterSession sid)) (before @ OnConnected # is)"

lemma connected_run_eq:
  assumes "\<forall>i \<in> set before. is_Send i"
  shows "connected_run sid before is =
    map_prod id ((#) (Read (tagify sid SessionEventReadDone)))
      (session_run (fst (new_GreeterSession sid)\<lparr>status := SessionStatusReadyToWrite\<rparr>) is)"
  using session_run_unconnected [of "fst (new_GreeterSession sid)" before] assms
  by (simp add: session_run_append new_GreeterSession_def Let_def map_prod_def split: prod.splits)

lemma connected_quiet:
  "stream.quiet (fst (new_GreeterSession sid)\<lparr>status := SessionStatusReadyToWrite\<rparr>)"
  by (simp add: stream_quiet_iff new_GreeterSession_def connected_def session_inv_def)

text \<open>
  C6: A session writes exactly the responses it was asked to send after it connected, in the
  order it was asked: what it has written, followed by what is still queued, is the list of the
  greetings of the requests read and of the broadcasts offered; a broadcast offered before the
  connection is dropped.
\<close>
theorem session_fifo:
  assumes "\<forall>i \<in> set before. is_Send i" and "OnConnected \<notin> set is"
    and "session_run (fst (new_GreeterSession sid)) (before @ OnConnected # is) = (s', ops)"
  shows "writes_of ops @ message_queue s' = concat (map responses_of is)"
  using session_run_quiet [OF connected_quiet assms(2)] assms(3) connected_run_eq [OF assms(1)]
  by (auto simp: new_GreeterSession_def map_prod_def split: prod.splits)

theorem session_fifo_witness:
  "writes_of (snd (session_run (fst (new_GreeterSession 7))
      ([OnSend \<lparr>resp_message = ''x''\<rparr>] @ OnConnected #
       [OnReadDone \<lparr>req_name = ''a'', req_config = default_Config\<rparr>,
        OnSend \<lparr>resp_message = ''b''\<rparr>, OnWriteDone]))) =
     [\<lparr>resp_message = ''hello a''\<rparr>, \<lparr>resp_message = ''b''\<rparr>]"
  using session_fifo [of "[OnSend \<lparr>resp_message = ''x''\<rparr>]"
      "[OnReadDone \<lparr>req_name = ''a'', req_config = default_Config\<rparr>,
        OnSend \<lparr>resp_message = ''b''\<rparr>, OnWriteDone]" 7]
  by (simp add: new_GreeterSession_def SendResponse_def greeting_def)

text \<open>
  C9: At any moment a connected session has at most one write in flight and exactly one read,
  as gRPC requires of a stream: if completions of writes arrive only for writes in flight, the
  writes issued are those completed, plus one if the status is
  \<open>SessionStatusWaitWriteDone\<close>, and the reads issued are one more than the reads completed.
\<close>
theorem session_one_write_in_flight:
  assumes "\<forall>i \<in> set before. is_Send i" and "OnConnected \<notin> set is"
    and "session_run (fst (new_GreeterSession sid)) (before @ OnConnected # is) = (s', ops)"
    and "env_ok 0 (fst (new_GreeterSession sid)\<lparr>status := SessionStatusReadyToWrite\<rparr>) is"
  shows "length (writes_of ops) =
      count_list is OnWriteDone + (if status s' = SessionStatusWaitWriteDone then 1 else 0) \<and>
    length (filter is_Read ops) = Suc (length (filter is_ReadDone is))"
proof -
  let ?s = "fst (new_GreeterSession sid)\<lparr>status := SessionStatusReadyToWrite\<rparr>"
  obtain ops' where run: "session_run ?s is = (s', ops')"
    and ops: "ops = Read (tagify sid SessionEventReadDone) # ops'"
    using assms(3) connected_run_eq [OF assms(1)] by (auto simp: map_prod_def split: prod.splits)
  have "\<not> write_pending ?s" by (simp add: write_pending_def)
  with session_run_in_flight [OF connected_quiet assms(2) run] assms(4)
    session_run_reads [OF assms(2) run] ops
  show ?thesis by (simp add: write_pending_def)
qed

theorem session_one_write_in_flight_witness:
  "length (writes_of (snd (session_run (fst (new_GreeterSession 7))
      ([] @ OnConnected # [OnSend \<lparr>resp_message = ''a''\<rparr>, OnSend \<lparr>resp_message = ''b''\<rparr>,
         OnWriteDone])))) = 2"
  using session_one_write_in_flight [of "[]"
      "[OnSend \<lparr>resp_message = ''a''\<rparr>, OnSend \<lparr>resp_message = ''b''\<rparr>, OnWriteDone]" 7]
  by (simp add: new_GreeterSession_def SendResponse_def)

text \<open>
  C10: The queue drains: from a session with a write in flight and \<open>n\<close> responses queued, \<open>n + 1\<close>
  completions of writes write all of them in order, and leave the session ready to write with
  an empty queue.
\<close>
theorem session_drains:
  assumes "status s = SessionStatusWaitWriteDone"
    and "session_run s (replicate (Suc (length (message_queue s))) OnWriteDone) = (s', ops)"
  shows "writes_of ops = message_queue s \<and> message_queue s' = [] \<and>
    status s' = SessionStatusReadyToWrite"
proof -
  have "acks write_done (Suc (length (message_queue s))) s = (s', writes_of ops)"
    using session_run_acks [of s "Suc (length (message_queue s))"] assms(2)
    by (metis id_apply map_prod_simp)
  from stream.acks_drain [OF _ refl this] assms(1) show ?thesis
    by (auto simp: connected_def write_pending_def dest: status_rest)
qed

theorem session_drains_witness:
  "writes_of (snd (session_run
      \<lparr>session_id = 1, status = SessionStatusWaitWriteDone, request = default_HelloRequest,
       message_queue = [\<lparr>resp_message = ''a''\<rparr>, \<lparr>resp_message = ''b''\<rparr>]\<rparr>
      (replicate 3 OnWriteDone))) = [\<lparr>resp_message = ''a''\<rparr>, \<lparr>resp_message = ''b''\<rparr>]"
  using session_drains [of "\<lparr>session_id = 1, status = SessionStatusWaitWriteDone,
      request = default_HelloRequest,
      message_queue = [\<lparr>resp_message = ''a''\<rparr>, \<lparr>resp_message = ''b''\<rparr>]\<rparr>"]
  by (simp add: numeral_3_eq_3)

end
