(* ===== verification/Greeter_Server.thy ===== *)
theory Greeter_Server
  imports Greeter_Session
begin

text \<open>
  The asynchronous gRPC server: class \<open>GreeterServer\<close> of \<open>src/grpcdemo/server_async.cc\<close> (lines
  48--89 and 173--354). Each thread's loop body is a function on the server; the interleaving of
  the accepter, worker and broadcast threads and of the signal handler is the step relation
  \<open>server_step\<close>, whose state also holds the operations gRPC still has to complete. gRPC is not
  part of the repository: what the steps say of it is its documented contract that each
  operation started on a queue yields one completion, with a flag \<open>ok\<close>, on that queue.
  A step is one loop body. That is coarser than the locks of the code: they make each call on a session and each change of the table
  atomic, but a round of broadcasts visits one session after the other, and an accept handles its event before it adds the next session. What is
  shown here concerns single sessions and single calls; \<open>Greeter_Hub\<close> takes these steps apart and shows that they contain the ones below.
\<close>

section \<open>The server\<close>

record GreeterServer =
  running :: bool
  session_id_allocator :: u64
  sessions :: "u64 \<rightharpoonup> GreeterSession"

definition initial_GreeterServer :: GreeterServer where
  "initial_GreeterServer =
     \<lparr>running = False, session_id_allocator = 0, sessions = Map.empty\<rparr>"

definition AddNewSession :: "GreeterServer \<Rightarrow> GreeterServer \<times> stream_op list" where
  "AddNewSession srv =
     (let new_session_id = session_id_allocator srv;
          (new_session, ops) = new_GreeterSession new_session_id
      in (srv\<lparr>session_id_allocator := session_id_allocator srv + 1,
              sessions := (sessions srv)(new_session_id \<mapsto> new_session)\<rparr>, ops))"

definition GetSession :: "GreeterServer \<Rightarrow> u64 \<Rightarrow> GreeterSession option" where
  "GetSession srv sid = sessions srv sid"

definition RemoveSession :: "GreeterServer \<Rightarrow> u64 \<Rightarrow> GreeterServer" where
  "RemoveSession srv sid = srv\<lparr>sessions := (sessions srv)(sid := None)\<rparr>"

text \<open>A method called through the shared pointer changes the session the table points to.\<close>

definition update_session :: "GreeterServer \<Rightarrow> u64 \<Rightarrow> GreeterSession \<Rightarrow> GreeterServer" where
  "update_session srv sid x = srv\<lparr>sessions := (sessions srv)(sid \<mapsto> x)\<rparr>"

text \<open>The body of the loop over \<open>cq_conn_->Next\<close>.\<close>

definition accepter_handle ::
  "GreeterServer \<Rightarrow> u64 \<Rightarrow> bool \<Rightarrow> (GreeterServer \<times> stream_op list) checked" where
  "accepter_handle srv tag ok =
     (let (sid, event) = detagify tag in
      case GetSession srv sid of
        None \<Rightarrow> Inr (srv, [])
      | Some session \<Rightarrow>
          if \<not> ok then Inr (RemoveSession srv sid, [])
          else if event \<noteq> SessionEventConnected then Inl AssertFailed
          else let (session', ops) = ProcessEvent session event;
                   (srv', ops') = AddNewSession (update_session srv sid session')
               in Inr (srv', ops @ ops'))"

text \<open>The body of the loop over \<open>cq_readwrite_->Next\<close>.\<close>

definition worker_handle ::
  "GreeterServer \<Rightarrow> u64 \<Rightarrow> bool \<Rightarrow> (GreeterServer \<times> stream_op list) checked" where
  "worker_handle srv tag ok =
     (let (sid, event) = detagify tag in
      case GetSession srv sid of
        None \<Rightarrow> Inr (srv, [])
      | Some session \<Rightarrow>
          if \<not> ok then Inr (RemoveSession srv sid, [])
          else if event \<noteq> SessionEventReadDone \<and> event \<noteq> SessionEventWriteDone
          then Inl AssertFailed
          else let (session', ops) = ProcessEvent session event
               in Inr (update_session srv sid session', ops))"

definition broadcast_message :: HelloResponse where
  "broadcast_message = \<lparr>resp_message = ''this is a broadcast message''\<rparr>"

text \<open>
  One round of the broadcast thread. The order in which an \<open>unordered_map\<close> is walked is not
  specified: it is the list \<open>order\<close> of the keys.
\<close>

fun broadcast_round :: "u64 list \<Rightarrow> GreeterServer \<Rightarrow> GreeterServer \<times> stream_op list" where
  "broadcast_round [] srv = (srv, [])"
| "broadcast_round (sid # order) srv =
     (case GetSession srv sid of
        None \<Rightarrow> broadcast_round order srv
      | Some session \<Rightarrow>
          let (session', ops) = SendResponse session broadcast_message;
              (srv', ops') = broadcast_round order (update_session srv sid session')
          in (srv', ops @ ops'))"

datatype server_op =
    StreamOp stream_op
  | ServerShutdown
  | ShutdownCqConn
  | ShutdownCqReadwrite

definition Stop :: "u64 list \<Rightarrow> GreeterServer \<Rightarrow> GreeterServer \<times> server_op list" where
  "Stop order srv =
     (if \<not> running srv then (srv, [])
      else (srv\<lparr>running := False\<rparr>,
            map (\<lambda>sid. StreamOp (TryCancel sid))
              (filter (\<lambda>sid. case GetSession srv sid of
                  None \<Rightarrow> False
                | Some session \<Rightarrow> status session \<noteq> SessionStatusWaitToConnect) order) @
            [ServerShutdown, ShutdownCqConn, ShutdownCqReadwrite]))"

text \<open>
  \<open>Start\<close> does nothing on a running server; otherwise it builds the server and starts the three
  threads. The accepter thread begins each pass of its outer loop with \<open>AddNewSession\<close>.
\<close>

datatype start_op =
    AddListeningPort string
  | RegisterService
  | AddCqConn
  | AddCqReadwrite
  | BuildAndStart
  | StartAccepterThread
  | StartWorkerThread
  | StartBroadcastThread

definition Start :: "string \<Rightarrow> GreeterServer \<Rightarrow> GreeterServer \<times> start_op list" where
  "Start addr srv =
     (if running srv then (srv, [])
      else (srv\<lparr>running := True\<rparr>,
            [AddListeningPort addr, RegisterService, AddCqConn, AddCqReadwrite, BuildAndStart,
             StartAccepterThread, StartWorkerThread, StartBroadcastThread]))"

definition accepter_pass_begin :: "GreeterServer \<Rightarrow> GreeterServer \<times> stream_op list" where
  "accepter_pass_begin srv = (if running srv then AddNewSession srv else (srv, []))"

section \<open>The server and the completion queues\<close>

text \<open>
  \<open>conn_pending\<close> and \<open>rw_pending\<close> hold the tags of the operations started and not completed on
  \<open>cq_conn_\<close> and \<open>cq_readwrite_\<close>; \<open>spawned\<close> counts the sessions created so far.
\<close>

record system =
  server :: GreeterServer
  conn_pending :: "u64 multiset"
  rw_pending :: "u64 multiset"
  spawned :: nat

fun issue_op :: "stream_op \<Rightarrow> system \<Rightarrow> system" where
  "issue_op (RequestSayHello3 t) s =
     s\<lparr>conn_pending := add_mset t (conn_pending s), spawned := Suc (spawned s)\<rparr>"
| "issue_op (Read t) s = s\<lparr>rw_pending := add_mset t (rw_pending s)\<rparr>"
| "issue_op (Write m t) s = s\<lparr>rw_pending := add_mset t (rw_pending s)\<rparr>"
| "issue_op (TryCancel sid) s = s"

definition issue :: "stream_op list \<Rightarrow> system \<Rightarrow> system" where
  "issue ops s = fold issue_op ops s"

text \<open>gRPC stores the message of a completed read in \<open>request_\<close> before it completes the tag.\<close>

definition store_request :: "GreeterServer \<Rightarrow> u64 \<Rightarrow> HelloRequest \<Rightarrow> GreeterServer" where
  "store_request srv sid r =
     srv\<lparr>sessions := (sessions srv)(sid := map_option (request_update (\<lambda>_. r)) (sessions srv sid))\<rparr>"

definition server_init :: "system \<Rightarrow> bool" where
  "server_init s \<longleftrightarrow>
     (let (srv, ops) = accepter_pass_begin (fst (Start ''127.0.0.1:50001'' initial_GreeterServer))
      in s = issue ops \<lparr>server = srv, conn_pending = {#}, rw_pending = {#}, spawned = 0\<rparr>)"

inductive server_step :: "system \<Rightarrow> system \<Rightarrow> bool" where
  accept: "tag \<in># conn_pending s \<Longrightarrow>
     accepter_handle (server s) tag ok = Inr (srv, ops) \<Longrightarrow>
     server_step s (issue ops (s\<lparr>server := srv, conn_pending := conn_pending s - {#tag#}\<rparr>))"
| work: "tag \<in># rw_pending s \<Longrightarrow>
     worker_handle (store_request (server s) (fst (detagify tag)) r) tag ok = Inr (srv, ops) \<Longrightarrow>
     server_step s (issue ops (s\<lparr>server := srv, rw_pending := rw_pending s - {#tag#}\<rparr>))"
| broadcast: "running (server s) \<Longrightarrow> distinct order \<Longrightarrow> set order = dom (sessions (server s)) \<Longrightarrow>
     broadcast_round order (server s) = (srv, ops) \<Longrightarrow>
     server_step s (issue ops (s\<lparr>server := srv\<rparr>))"
| stop: "server_step s (s\<lparr>server := fst (Stop order (server s))\<rparr>)"

abbreviation server_reachable :: "system \<Rightarrow> bool" where
  "server_reachable \<equiv> reachable server_init server_step"

section \<open>The interface of the session table\<close>

locale session_table =
  fixes get :: "'t \<Rightarrow> 'i \<Rightarrow> 'x option"
    and put :: "'t \<Rightarrow> 'i \<Rightarrow> 'x \<Rightarrow> 't"
    and del :: "'t \<Rightarrow> 'i \<Rightarrow> 't"
  assumes get_put: "get (put t i x) j = (if j = i then Some x else get t j)"
    and get_del: "get (del t i) j = (if j = i then None else get t j)"
begin

lemma put_same [simp]: "get (put t i x) i = Some x"
  by (simp add: get_put)

lemma del_same [simp]: "get (del t i) i = None"
  by (simp add: get_del)

lemma frame: "j \<noteq> i \<Longrightarrow> get (put t i x) j = get t j" "j \<noteq> i \<Longrightarrow> get (del t i) j = get t j"
  by (simp_all add: get_put get_del)

end

interpretation table: session_table GetSession update_session RemoveSession
  by unfold_locales (simp_all add: GetSession_def update_session_def RemoveSession_def)

section \<open>The invariant\<close>

text \<open>
  What the table and the two queues say of one session id: the session, and how many completions
  of each kind are outstanding for it. A session waits for its connection, or has one read in
  flight and a write in flight exactly in status \<open>SessionStatusWaitWriteDone\<close>; a session that was
  removed may leave one read and one write behind.
\<close>

fun slot_ok :: "GreeterSession option \<Rightarrow> nat \<Rightarrow> nat \<Rightarrow> nat \<Rightarrow> bool" where
  "slot_ok None c r w = (c = 0 \<and> r \<le> 1 \<and> w \<le> 1)"
| "slot_ok (Some x) c r w =
     (case status x of
        SessionStatusWaitToConnect \<Rightarrow> c = 1 \<and> r = 0 \<and> w = 0 \<and> message_queue x = []
      | SessionStatusReadyToWrite \<Rightarrow> c = 0 \<and> r = 1 \<and> w = 0 \<and> message_queue x = []
      | SessionStatusWaitWriteDone \<Rightarrow> c = 0 \<and> r = 1 \<and> w = 1)"

definition system_slot_ok :: "system \<Rightarrow> u64 \<Rightarrow> bool" where
  "system_slot_ok s sid \<longleftrightarrow>
     slot_ok (sessions (server s) sid)
       (count (conn_pending s) (tagify sid SessionEventConnected))
       (count (rw_pending s) (tagify sid SessionEventReadDone))
       (count (rw_pending s) (tagify sid SessionEventWriteDone))"

definition tags_ok :: "system \<Rightarrow> bool" where
  "tags_ok s \<longleftrightarrow>
     (\<forall>t \<in># conn_pending s. snd (detagify t) = SessionEventConnected \<and>
        unat (fst (detagify t)) < spawned s) \<and>
     (\<forall>t \<in># rw_pending s. snd (detagify t) \<in> {SessionEventReadDone, SessionEventWriteDone} \<and>
        unat (fst (detagify t)) < spawned s)"

definition ids_ok :: "system \<Rightarrow> bool" where
  "ids_ok s \<longleftrightarrow>
     session_id_allocator (server s) = of_nat (spawned s) \<and>
     (\<forall>sid x. sessions (server s) sid = Some x \<longrightarrow> session_id x = sid \<and> unat sid < spawned s)"

definition system_inv :: "system \<Rightarrow> bool" where
  "system_inv s \<longleftrightarrow> ids_ok s \<and> tags_ok s \<and> (\<forall>sid. id_fits sid \<longrightarrow> system_slot_ok s sid)"

text \<open>The invariant holds as long as no more than \<open>2 ^ 62\<close> sessions have been created.\<close>

definition bounded_inv :: "system \<Rightarrow> bool" where
  "bounded_inv s \<longleftrightarrow> (spawned s \<le> 2 ^ 62 \<longrightarrow> system_inv s)"

section \<open>Facts on issuing operations\<close>

lemma issue_simps [simp]:
  "issue [] s = s"
  "issue (op # ops) s = issue ops (issue_op op s)"
  "issue (ops @ ops') s = issue ops' (issue ops s)"
  by (simp_all add: issue_def)

lemma spawned_issue_op: "spawned s \<le> spawned (issue_op op s)"
  by (cases op) simp_all

lemma spawned_issue: "spawned s \<le> spawned (issue ops s)"
  by (induction ops arbitrary: s) (auto intro: order_trans [OF spawned_issue_op])

lemma server_issue [simp]: "server (issue ops s) = server s"
proof (induction ops arbitrary: s)
  case (Cons op ops)
  then show ?case by (cases op) simp_all
qed simp

lemma spawned_step: "server_step s t \<Longrightarrow> spawned s \<le> spawned t"
  by (induction rule: server_step.induct) (auto intro: order_trans [OF _ spawned_issue])

lemma tagify_eq_iff [simp]:
  "id_fits i \<Longrightarrow> id_fits j \<Longrightarrow> tagify i e = tagify j f \<longleftrightarrow> i = j \<and> e = f"
  by (rule tags.enc_eq_iff)

lemma detagify_tagify_fits [simp]:
  "id_fits i \<Longrightarrow> detagify (tagify i e) = (i, e)"
  by (rule tags.dec_enc)

lemma tag_cases:
  obtains i e where "id_fits i" "t = tagify i e" "detagify t = (i, e)"
  using detagify_fits [of t] tagify_detagify [of t] by (metis prod.collapse)

section \<open>Every step keeps the invariant\<close>

lemma system_invD:
  assumes "system_inv s"
  shows "session_id_allocator (server s) = of_nat (spawned s)"
    "sessions (server s) sid = Some x \<Longrightarrow> session_id x = sid \<and> unat sid < spawned s"
    "t \<in># conn_pending s \<Longrightarrow>
       snd (detagify t) = SessionEventConnected \<and> unat (fst (detagify t)) < spawned s"
    "t \<in># rw_pending s \<Longrightarrow>
       snd (detagify t) \<in> {SessionEventReadDone, SessionEventWriteDone} \<and>
       unat (fst (detagify t)) < spawned s"
    "id_fits sid \<Longrightarrow> system_slot_ok s sid"
  using assms by (auto simp: system_inv_def ids_ok_def tags_ok_def)

text \<open>A pending connection belongs to a session that waits for it.\<close>

lemma pending_connection:
  assumes "system_inv s" "tag \<in># conn_pending s"
  obtains sid x where "id_fits sid" "tag = tagify sid SessionEventConnected"
    "sessions (server s) sid = Some x" "status x = SessionStatusWaitToConnect"
    "message_queue x = []" "session_id x = sid" "unat sid < spawned s"
    "count (conn_pending s) tag = 1"
    "count (rw_pending s) (tagify sid SessionEventReadDone) = 0"
    "count (rw_pending s) (tagify sid SessionEventWriteDone) = 0"
proof -
  obtain sid e where tag: "id_fits sid" "tag = tagify sid e" "detagify tag = (sid, e)"
    by (rule tag_cases)
  moreover have e: "e = SessionEventConnected"
    using system_invD(3) [OF assms] tag(3) by simp
  moreover have "count (conn_pending s) tag \<noteq> 0" using assms(2) by simp
  ultimately show ?thesis
    using that system_invD(5) [OF assms(1) tag(1)] system_invD(2) [OF assms(1), of sid]
    by (cases "sessions (server s) sid")
      (auto simp: system_slot_ok_def count_eq_zero_iff split: SessionStatus.splits)
qed

lemma count_one: "t \<in># M \<Longrightarrow> count M t \<le> Suc 0 \<Longrightarrow> count M t = Suc 0"
  by (simp add: le_Suc_eq count_eq_zero_iff)

text \<open>A pending read or write belongs to a connected session, or to a removed one.\<close>

lemma pending_transfer:
  assumes "system_inv s" "tag \<in># rw_pending s"
  obtains sid e where "id_fits sid" "tag = tagify sid e" "unat sid < spawned s"
    "e = SessionEventReadDone \<or> e = SessionEventWriteDone"
    "\<And>x. sessions (server s) sid = Some x \<Longrightarrow> status x \<noteq> SessionStatusWaitToConnect"
    "\<And>x. sessions (server s) sid = Some x \<Longrightarrow> e = SessionEventWriteDone \<Longrightarrow>
       status x = SessionStatusWaitWriteDone"
    "count (rw_pending s) tag = 1"
proof -
  obtain sid e where tag: "id_fits sid" "tag = tagify sid e" "detagify tag = (sid, e)"
    by (rule tag_cases)
  moreover have e: "e = SessionEventReadDone \<or> e = SessionEventWriteDone" "unat sid < spawned s"
    using system_invD(4) [OF assms] tag(3) by auto
  ultimately show ?thesis
    using that [of sid e] assms(2) system_invD(5) [OF assms(1) tag(1)]
    by (cases "sessions (server s) sid")
      (auto simp: system_slot_ok_def count_eq_zero_iff split: SessionStatus.splits
        dest: count_one)
qed

text \<open>
  A step that touches one session: the other ids keep their session and their counts, so only
  the id it touches has to be checked.
\<close>

lemma slots_frame:
  assumes "system_inv s"
    and "\<And>j. id_fits j \<Longrightarrow> j \<notin> T \<Longrightarrow> sessions (server t) j = sessions (server s) j"
    and "\<And>j e. id_fits j \<Longrightarrow> j \<notin> T \<Longrightarrow>
      count (conn_pending t) (tagify j e) = count (conn_pending s) (tagify j e) \<and>
      count (rw_pending t) (tagify j e) = count (rw_pending s) (tagify j e)"
    and "\<And>j. id_fits j \<Longrightarrow> j \<in> T \<Longrightarrow> system_slot_ok t j"
    and "ids_ok t" "tags_ok t"
  shows "system_inv t"
  using assms system_invD(5) [OF assms(1)]
  by (fastforce simp: system_inv_def system_slot_ok_def)

lemma tags_ok_mono:
  assumes "tags_ok s" "set_mset (conn_pending t) \<subseteq> set_mset (conn_pending s)"
    "set_mset (rw_pending t) \<subseteq> set_mset (rw_pending s)" "spawned s \<le> spawned t"
  shows "tags_ok t"
  using assms by (fastforce simp: tags_ok_def)

lemma fresh_id_slot:
  assumes "system_inv s" "spawned s < 2 ^ 62"
  defines "i \<equiv> session_id_allocator (server s)"
  shows "id_fits i" "unat i = spawned s" "sessions (server s) i = None"
    "count (conn_pending s) (tagify i e) = 0" "count (rw_pending s) (tagify i e) = 0"
proof -
  show i: "unat i = spawned s"
    using system_invD(1) [OF assms(1)] assms(2)
    by (simp add: i_def unsigned_of_nat take_bit_nat_eq_self)
  then show fits: "id_fits i" using assms(2) by (simp add: id_fits_def)
  show "sessions (server s) i = None"
    using system_invD(2) [OF assms(1), of i] i by (cases "sessions (server s) i") auto
  show "count (conn_pending s) (tagify i e) = 0" "count (rw_pending s) (tagify i e) = 0"
    using system_invD(3,4) [OF assms(1), of "tagify i e"] i fits
    by (auto simp: count_eq_zero_iff)
qed

lemma handle_connection:
  assumes "id_fits sid" "sessions srv sid = Some x"
  shows "accepter_handle srv (tagify sid SessionEventConnected) ok =
    (if ok
     then Inr (srv\<lparr>session_id_allocator := session_id_allocator srv + 1,
             sessions := (sessions srv)(sid \<mapsto> x\<lparr>status := SessionStatusReadyToWrite\<rparr>,
               session_id_allocator srv \<mapsto> fst (new_GreeterSession (session_id_allocator srv)))\<rparr>,
           [Read (tagify (session_id x) SessionEventReadDone),
            RequestSayHello3 (tagify (session_id_allocator srv) SessionEventConnected)])
     else Inr (RemoveSession srv sid, []))"
  using assms
  by (simp add: accepter_handle_def GetSession_def update_session_def AddNewSession_def
      new_GreeterSession_def Let_def)

lemma accept_inv:
  assumes inv: "system_inv s" and tag: "tag \<in># conn_pending s"
    and handle: "accepter_handle (server s) tag ok = Inr (srv, ops)"
    and bound: "spawned (issue ops (s\<lparr>server := srv, conn_pending := conn_pending s - {#tag#}\<rparr>)) \<le> 2 ^ 62"
  shows "system_inv (issue ops (s\<lparr>server := srv, conn_pending := conn_pending s - {#tag#}\<rparr>))"
    (is "system_inv ?t")
proof -
  obtain sid x where x: "id_fits sid" "tag = tagify sid SessionEventConnected"
    "sessions (server s) sid = Some x" "status x = SessionStatusWaitToConnect"
    "message_queue x = []" "session_id x = sid" "unat sid < spawned s"
    "count (conn_pending s) tag = 1"
    "count (rw_pending s) (tagify sid SessionEventReadDone) = 0"
    "count (rw_pending s) (tagify sid SessionEventWriteDone) = 0"
    by (rule pending_connection [OF inv tag])
  note handle = handle [unfolded x(2) handle_connection [OF x(1,3)]]
  note facts = inv [unfolded system_inv_def ids_ok_def]
  have minus: "\<And>t. t \<in># conn_pending s - {#tag#} \<Longrightarrow> t \<in># conn_pending s"
    by (rule in_diffD)
  show ?thesis
  proof (cases ok)
    case False
    with handle have t: "srv = RemoveSession (server s) sid" "ops = []" by auto
    show ?thesis
    proof (rule slots_frame [OF inv, where T = "{sid}"])
      show "tags_ok ?t"
        by (rule tags_ok_mono [of s]) (use inv t minus in \<open>auto simp: system_inv_def\<close>)
    qed (use facts x t in \<open>auto simp: RemoveSession_def ids_ok_def system_slot_ok_def\<close>)
  next
    case True
    let ?new = "session_id_allocator (server s)"
    have t: "srv = (server s)\<lparr>session_id_allocator := ?new + 1,
        sessions := (sessions (server s))(sid \<mapsto> x\<lparr>status := SessionStatusReadyToWrite\<rparr>,
          ?new \<mapsto> fst (new_GreeterSession ?new))\<rparr>"
      "ops = [Read (tagify sid SessionEventReadDone),
        RequestSayHello3 (tagify ?new SessionEventConnected)]"
      using handle True x(6) by auto
    with bound have "spawned s < 2 ^ 62" by simp
    note new = fresh_id_slot [OF inv this]
    have "sid \<noteq> ?new" using new(3) x(3) by auto
    show ?thesis
    proof (rule slots_frame [OF inv, where T = "{sid, ?new}"])
      show "tags_ok ?t"
        using inv x t new minus by (fastforce simp: tags_ok_def system_inv_def)
    qed (use facts x t new \<open>sid \<noteq> ?new\<close> in
        \<open>auto simp: ids_ok_def system_slot_ok_def new_GreeterSession_def intro: less_SucI\<close>)
  qed
qed

lemma store_request_None: "sessions srv sid = None \<Longrightarrow> store_request srv sid r = srv"
  by (simp add: store_request_def fun_upd_idem)

lemma handle_transfer:
  assumes "id_fits sid" "e = SessionEventReadDone \<or> e = SessionEventWriteDone"
  shows "worker_handle (store_request srv sid r) (tagify sid e) ok =
    Inr (case sessions srv sid of
        None \<Rightarrow> (srv, [])
      | Some x \<Rightarrow>
          if ok then (update_session srv sid (fst (ProcessEvent (x\<lparr>request := r\<rparr>) e)),
                      snd (ProcessEvent (x\<lparr>request := r\<rparr>) e))
          else (RemoveSession srv sid, []))"
proof (cases "sessions srv sid")
  case None
  then show ?thesis using assms by (simp add: worker_handle_def GetSession_def store_request_None)
next
  case (Some x)
  then show ?thesis
    using assms
    by (auto simp: worker_handle_def GetSession_def store_request_def update_session_def
        RemoveSession_def split: prod.splits simp del: ProcessEvent.simps)
qed

text \<open>What a completed transfer does to the session and to the queue, case by case.\<close>

lemma transfer_cases:
  assumes "status x \<noteq> SessionStatusWaitToConnect"
    "e = SessionEventReadDone \<or> e = SessionEventWriteDone \<and> status x = SessionStatusWaitWriteDone"
  obtains
    (reply) "e = SessionEventReadDone" "status x = SessionStatusReadyToWrite"
      "ProcessEvent x e = (x\<lparr>status := SessionStatusWaitWriteDone\<rparr>,
         [Write (greeting (request x)) (tagify (session_id x) SessionEventWriteDone),
          Read (tagify (session_id x) SessionEventReadDone)])"
  | (enqueue) "e = SessionEventReadDone" "status x = SessionStatusWaitWriteDone"
      "ProcessEvent x e = (x\<lparr>message_queue := message_queue x @ [greeting (request x)]\<rparr>,
         [Read (tagify (session_id x) SessionEventReadDone)])"
  | (next_message) m q where "e = SessionEventWriteDone" "status x = SessionStatusWaitWriteDone"
      "message_queue x = m # q"
      "ProcessEvent x e = (x\<lparr>message_queue := q\<rparr>,
         [Write m (tagify (session_id x) SessionEventWriteDone)])"
  | (idle) "e = SessionEventWriteDone" "status x = SessionStatusWaitWriteDone"
      "message_queue x = []" "ProcessEvent x e = (x\<lparr>status := SessionStatusReadyToWrite\<rparr>, [])"
  using assms
  by (cases x; cases "status x"; cases "message_queue x") (auto simp: SendResponse_def)

text \<open>
  A step that touches one session and only its reads and writes: what has to be checked is the
  slot of that session.
\<close>

lemma touch_session:
  assumes inv: "system_inv s" and sid: "id_fits sid" "unat sid < spawned s"
    and t: "session_id_allocator (server t) = session_id_allocator (server s)"
      "sessions (server t) = (sessions (server s))(sid := y)"
      "conn_pending t = conn_pending s" "spawned t = spawned s"
    and y: "\<And>x. y = Some x \<Longrightarrow> session_id x = sid"
    and rw: "\<And>u. u \<noteq> tagify sid SessionEventReadDone \<Longrightarrow> u \<noteq> tagify sid SessionEventWriteDone \<Longrightarrow>
      count (rw_pending t) u = count (rw_pending s) u"
    and slot: "system_slot_ok t sid"
  shows "system_inv t"
proof (rule slots_frame [OF inv, where T = "{sid}"])
  have "u = tagify sid SessionEventReadDone \<or> u = tagify sid SessionEventWriteDone \<or>
      u \<in># rw_pending s" if "u \<in># rw_pending t" for u
    using rw [of u] that by (metis count_eq_zero_iff)
  then show "tags_ok t"
    using system_invD(3,4) [OF inv] sid t by (fastforce simp: tags_ok_def)
qed (use sid t y rw slot system_invD(1,2) [OF inv] in \<open>auto simp: ids_ok_def\<close>)

lemma work_inv:
  assumes inv: "system_inv s" and tag: "tag \<in># rw_pending s"
    and handle: "worker_handle (store_request (server s) (fst (detagify tag)) r) tag ok = Inr (srv, ops)"
  shows "system_inv (issue ops (s\<lparr>server := srv, rw_pending := rw_pending s - {#tag#}\<rparr>))"
proof -
  obtain sid e where sid: "id_fits sid" "unat sid < spawned s" and tag: "tag = tagify sid e"
    and e: "e = SessionEventReadDone \<or> e = SessionEventWriteDone"
    and status: "\<And>x. sessions (server s) sid = Some x \<Longrightarrow> status x \<noteq> SessionStatusWaitToConnect"
      "\<And>x. sessions (server s) sid = Some x \<Longrightarrow> e = SessionEventWriteDone \<Longrightarrow>
         status x = SessionStatusWaitWriteDone"
    and one: "count (rw_pending s) tag = 1"
    by (rule pending_transfer [OF inv tag]) blast
  note handle = handle [unfolded tag detagify_tagify_fits [OF sid(1)] fst_conv
      handle_transfer [OF sid(1) e], simplified]
  note slot = system_invD(5) [OF inv sid(1), unfolded system_slot_ok_def]
  note touch = touch_session [OF inv sid]
  show ?thesis
  proof (cases "sessions (server s) sid")
    case None
    with handle slot tag one e show ?thesis
      by (intro touch [where y = None]) (auto simp: system_slot_ok_def)
  next
    case (Some x)
    then have id: "session_id x = sid" using system_invD(2) [OF inv] by blast
    show ?thesis
    proof (cases ok)
      case False
      with Some handle slot tag one e show ?thesis
        by (intro touch [where y = None])
          (auto simp: RemoveSession_def system_slot_ok_def split: SessionStatus.splits)
    next
      case True
      let ?x = "x\<lparr>request := r\<rparr>"
      have *: "srv = update_session (server s) sid (fst (ProcessEvent ?x e))"
        "ops = snd (ProcessEvent ?x e)"
        using handle Some True by auto
      have "status ?x \<noteq> SessionStatusWaitToConnect" "e = SessionEventReadDone \<or>
          e = SessionEventWriteDone \<and> status ?x = SessionStatusWaitWriteDone"
        using status [OF Some] e by auto
      then show ?thesis
        by (cases rule: transfer_cases;
            intro touch [where y = "Some (fst (ProcessEvent ?x e))"])
          (use * Some slot sid tag one id in
            \<open>auto simp: update_session_def system_slot_ok_def simp del: ProcessEvent.simps\<close>)
    qed
  qed
qed

lemma issue_server_update: "(issue ops s)\<lparr>server := v\<rparr> = issue ops (s\<lparr>server := v\<rparr>)"
proof (induction ops arbitrary: s)
  case (Cons op ops)
  then show ?case by (cases s; cases op) simp_all
qed simp

lemma offer_inv:
  assumes inv: "system_inv s" and bound: "spawned s \<le> 2 ^ 62"
    and x: "sessions (server s) sid = Some x" and send: "SendResponse x m = (x', ops)"
  shows "system_inv (issue ops (s\<lparr>server := update_session (server s) sid x'\<rparr>))"
proof -
  have id: "session_id x = sid" "unat sid < spawned s" using system_invD(2) [OF inv x] by auto
  then have fits: "id_fits sid" using bound by (simp add: id_fits_def)
  note slot = system_invD(5) [OF inv fits, unfolded system_slot_ok_def]
  from send show ?thesis
    by (cases rule: SendResponse_cases; intro touch_session [OF inv fits id(2), where y = "Some x'"])
      (use x slot id fits in \<open>auto simp: update_session_def system_slot_ok_def\<close>)
qed

lemma broadcast_inv:
  assumes "system_inv s" "spawned s \<le> 2 ^ 62" "broadcast_round order (server s) = (srv, ops)"
  shows "system_inv (issue ops (s\<lparr>server := srv\<rparr>))"
  using assms
proof (induction order arbitrary: s ops)
  case (Cons sid order)
  show ?case
  proof (cases "sessions (server s) sid")
    case None
    with Cons show ?thesis by (simp add: GetSession_def)
  next
    case (Some x)
    obtain x' ops1 where send: "SendResponse x broadcast_message = (x', ops1)" by fastforce
    obtain ops2 where rest: "broadcast_round order (update_session (server s) sid x') = (srv, ops2)"
      and ops: "ops = ops1 @ ops2"
      using Cons.prems(3) Some send by (auto simp: GetSession_def split: prod.splits)
    let ?s = "issue ops1 (s\<lparr>server := update_session (server s) sid x'\<rparr>)"
    have "spawned ?s = spawned s"
      using send by (cases rule: SendResponse_cases) simp_all
    with Cons.IH [of ?s ops2] offer_inv [OF Cons.prems(1,2) Some send] Cons.prems(2) rest ops
    show ?thesis by (simp add: issue_server_update)
  qed
qed auto

lemma server_step_inv:
  assumes "bounded_inv s" "server_step s t"
  shows "bounded_inv t"
  unfolding bounded_inv_def
proof
  assume bound: "spawned t \<le> 2 ^ 62"
  with spawned_step [OF assms(2)] have "spawned s \<le> 2 ^ 62" by simp
  with assms(1) have inv: "system_inv s" by (simp add: bounded_inv_def)
  from assms(2) show "system_inv t"
  proof cases
    case (accept tag ok srv ops)
    with accept_inv [OF inv] bound show ?thesis by simp
  next
    case (work tag r ok srv ops)
    with work_inv [OF inv] show ?thesis by simp
  next
    case (broadcast order srv ops)
    with broadcast_inv [OF inv \<open>spawned s \<le> 2 ^ 62\<close>] show ?thesis by simp
  next
    case (stop order)
    with inv show ?thesis
      by (simp add: Stop_def system_inv_def ids_ok_def tags_ok_def system_slot_ok_def)
  qed
qed

lemma server_init_inv: "server_init s \<Longrightarrow> bounded_inv s"
  by (auto simp: server_init_def Start_def accepter_pass_begin_def initial_GreeterServer_def AddNewSession_def
      new_GreeterSession_def Let_def bounded_inv_def system_inv_def ids_ok_def tags_ok_def
      system_slot_ok_def id_fits_def)

interpretation server: invariant_system server_init server_step bounded_inv
  by unfold_locales (auto intro: server_init_inv server_step_inv)

section \<open>Pending connections\<close>

fun is_request :: "stream_op \<Rightarrow> bool" where
  "is_request (RequestSayHello3 t) = True"
| "is_request _ = False"

lemma size_conn_pending_issue:
  "size (conn_pending (issue ops s)) = size (conn_pending s) + length (filter is_request ops)"
proof (induction ops arbitrary: s)
  case (Cons op ops)
  then show ?case by (cases op) simp_all
qed simp

lemma SendResponse_requests: "filter is_request (snd (SendResponse x m)) = []"
  by (simp add: SendResponse_def)

lemma ProcessEvent_requests: "filter is_request (snd (ProcessEvent x e)) = []"
  by (cases e)
    (simp_all add: ReadDone_eq SendResponse_requests del: ProcessEvent.simps(2) split: list.split)

lemma AddNewSession_requests: "length (filter is_request (snd (AddNewSession srv))) = 1"
  by (simp add: AddNewSession_def new_GreeterSession_def Let_def)

lemma accepter_requests:
  "accepter_handle srv tag ok = Inr (srv', ops) \<Longrightarrow> length (filter is_request ops) \<le> 1"
  using ProcessEvent_requests AddNewSession_requests
  by (auto simp: accepter_handle_def Let_def split: prod.splits option.splits if_splits
      simp del: ProcessEvent.simps) (metis snd_conv list.size(3) add_0 le_refl)

lemma worker_requests:
  "worker_handle srv tag ok = Inr (srv', ops) \<Longrightarrow> filter is_request ops = []"
  by (auto simp: worker_handle_def Let_def split: prod.splits option.splits if_splits
      simp del: ProcessEvent.simps) (metis snd_conv ProcessEvent_requests)+

lemma broadcast_requests:
  "broadcast_round order srv = (srv', ops) \<Longrightarrow> filter is_request ops = []"
proof (induction order arbitrary: srv ops)
  case (Cons sid order)
  then show ?case
    by (auto split: option.splits prod.splits) (metis snd_conv SendResponse_requests)
qed simp

definition listening_inv :: "system \<Rightarrow> bool" where
  "listening_inv s \<longleftrightarrow> size (conn_pending s) \<le> 1"

lemma listening_step:
  assumes "listening_inv s" "server_step s t"
  shows "listening_inv t"
  using assms(2,1)
proof cases
  case (accept tag ok srv ops)
  then have "size (conn_pending s - {#tag#}) = 0"
    using assms(1) by (simp add: listening_inv_def size_Diff_singleton)
  with accept accepter_requests [of "server s" tag ok srv ops] show ?thesis
    by (simp add: listening_inv_def size_conn_pending_issue)
qed (auto simp: listening_inv_def size_conn_pending_issue worker_requests broadcast_requests)

interpretation listening: invariant_system server_init server_step listening_inv
proof
  show "listening_inv s" if "server_init s" for s
    using that AddNewSession_requests
    by (auto simp: server_init_def Start_def accepter_pass_begin_def initial_GreeterServer_def listening_inv_def
        size_conn_pending_issue split: prod.splits) (metis snd_conv le_refl One_nat_def)
qed (rule listening_step)

section \<open>A run\<close>

text \<open>
  A run used to show that the hypotheses of the properties can hold: the server starts, session
  0 connects, a broadcast starts a write on it, and its read fails.
\<close>

definition demo_session :: "u64 \<Rightarrow> SessionStatus \<Rightarrow> GreeterSession" where
  "demo_session sid st =
     \<lparr>session_id = sid, status = st, request = default_HelloRequest, message_queue = []\<rparr>"

definition demo_start :: system where
  "demo_start =
     \<lparr>server = \<lparr>running = True, session_id_allocator = 1,
        sessions = [0 \<mapsto> demo_session 0 SessionStatusWaitToConnect]\<rparr>,
      conn_pending = {#tagify 0 SessionEventConnected#}, rw_pending = {#}, spawned = 1\<rparr>"

definition demo_connected :: system where
  "demo_connected =
     \<lparr>server = \<lparr>running = True, session_id_allocator = 2,
        sessions = [0 \<mapsto> demo_session 0 SessionStatusReadyToWrite,
                    1 \<mapsto> demo_session 1 SessionStatusWaitToConnect]\<rparr>,
      conn_pending = {#tagify 1 SessionEventConnected#},
      rw_pending = {#tagify 0 SessionEventReadDone#}, spawned = 2\<rparr>"

definition demo_writing :: system where
  "demo_writing =
     \<lparr>server = \<lparr>running = True, session_id_allocator = 2,
        sessions = [0 \<mapsto> demo_session 0 SessionStatusWaitWriteDone,
                    1 \<mapsto> demo_session 1 SessionStatusWaitToConnect]\<rparr>,
      conn_pending = {#tagify 1 SessionEventConnected#},
      rw_pending = {#tagify 0 SessionEventReadDone, tagify 0 SessionEventWriteDone#},
      spawned = 2\<rparr>"

definition demo_removed :: system where
  "demo_removed =
     \<lparr>server = \<lparr>running = True, session_id_allocator = 2,
        sessions = [1 \<mapsto> demo_session 1 SessionStatusWaitToConnect]\<rparr>,
      conn_pending = {#tagify 1 SessionEventConnected#},
      rw_pending = {#tagify 0 SessionEventWriteDone#}, spawned = 2\<rparr>"

lemma fits_small [simp]: "id_fits 0" "id_fits 1"
  by (simp_all add: id_fits_def)

lemma demo_start_reachable: "server_reachable demo_start"
  by (rule reachable_init)
    (simp add: server_init_def Start_def accepter_pass_begin_def initial_GreeterServer_def AddNewSession_def
      new_GreeterSession_def demo_start_def demo_session_def)

lemma demo_connected_reachable: "server_reachable demo_connected"
proof (rule reachable_step [OF demo_start_reachable])
  have "server_step demo_start (issue
      [Read (tagify 0 SessionEventReadDone), RequestSayHello3 (tagify 1 SessionEventConnected)]
      (demo_start\<lparr>server := server demo_connected,
        conn_pending := conn_pending demo_start - {#tagify 0 SessionEventConnected#}\<rparr>))"
    by (rule server_step.accept [where ok = True])
      (simp_all add: demo_start_def demo_connected_def handle_connection demo_session_def
        new_GreeterSession_def)
  then show "server_step demo_start demo_connected"
    by (simp add: demo_start_def demo_connected_def numeral_2_eq_2)
qed

lemma demo_writing_reachable: "server_reachable demo_writing"
proof (rule reachable_step [OF demo_connected_reachable])
  have "server_step demo_connected (issue
      [Write broadcast_message (tagify 0 SessionEventWriteDone)]
      (demo_connected\<lparr>server := server demo_writing\<rparr>))"
    by (rule server_step.broadcast [where order = "[0, 1]"])
      (auto simp: demo_connected_def demo_writing_def demo_session_def GetSession_def
        SendResponse_def update_session_def fun_upd_twist)
  then show "server_step demo_connected demo_writing"
    by (simp add: demo_connected_def demo_writing_def add_mset_commute)
qed

lemma demo_removed_reachable: "server_reachable demo_removed"
proof (rule reachable_step [OF demo_writing_reachable])
  have "server_step demo_writing (issue []
      (demo_writing\<lparr>server := server demo_removed,
        rw_pending := rw_pending demo_writing - {#tagify 0 SessionEventReadDone#}\<rparr>))"
    by (rule server_step.work [where ok = False])
      (simp_all add: demo_writing_def demo_removed_def handle_transfer RemoveSession_def
        fun_upd_twist)
  then show "server_step demo_writing demo_removed"
    by (simp add: demo_writing_def demo_removed_def)
qed

section \<open>Properties\<close>

text \<open>
  C3: The assertions of the accepter and worker threads never fail: as long as at most \<open>2 ^ 62\<close>
  sessions have been created, no interleaving of the threads brings to \<open>cq_conn_\<close> a tag other
  than a connection, or to \<open>cq_readwrite_\<close> a tag other than a read or a write, of a session the
  table holds.
\<close>
theorem server_assertions_hold:
  assumes "server_reachable s" and "spawned s \<le> 2 ^ 62"
  shows "(tag \<in># conn_pending s \<longrightarrow> accepter_handle (server s) tag ok \<noteq> Inl AssertFailed) \<and>
    (tag \<in># rw_pending s \<longrightarrow>
       worker_handle (store_request (server s) (fst (detagify tag)) r) tag ok \<noteq> Inl AssertFailed)"
proof -
  have inv: "system_inv s"
    using server.reachable_inv [OF assms(1)] assms(2) by (simp add: bounded_inv_def)
  show ?thesis
  proof (intro conjI impI)
    assume "tag \<in># conn_pending s"
    then obtain sid x where "id_fits sid" "tag = tagify sid SessionEventConnected"
      "sessions (server s) sid = Some x"
      by (rule pending_connection [OF inv])
    then show "accepter_handle (server s) tag ok \<noteq> Inl AssertFailed"
      by (simp add: handle_connection)
  next
    assume "tag \<in># rw_pending s"
    then obtain sid e where "id_fits sid" "tag = tagify sid e"
      "e = SessionEventReadDone \<or> e = SessionEventWriteDone"
      by (rule pending_transfer [OF inv])
    then show "worker_handle (store_request (server s) (fst (detagify tag)) r) tag ok \<noteq>
        Inl AssertFailed"
      by (simp add: handle_transfer)
  qed
qed

theorem server_assertions_hold_witness:
  "accepter_handle (server demo_connected) (tagify 1 SessionEventConnected) True \<noteq>
     Inl AssertFailed"
  using server_assertions_hold [OF demo_connected_reachable,
      of "tagify 1 SessionEventConnected" True]
  by (simp add: demo_connected_def)

text \<open>
  C2: In every interleaving each session has at most one read and one write outstanding on
  \<open>cq_readwrite_\<close>, and the session the table holds for an id has a write outstanding exactly in
  status \<open>SessionStatusWaitWriteDone\<close>, responses queued only then, and waits for its connection
  exactly in status \<open>SessionStatusWaitToConnect\<close>.
\<close>
theorem server_one_write_per_session:
  assumes "server_reachable s" and "spawned s \<le> 2 ^ 62" and "unat sid < 2 ^ 62"
  shows "count (rw_pending s) (tagify sid SessionEventReadDone) \<le> 1 \<and>
    count (rw_pending s) (tagify sid SessionEventWriteDone) \<le> 1 \<and>
    (\<forall>x. sessions (server s) sid = Some x \<longrightarrow>
       (tagify sid SessionEventWriteDone \<in># rw_pending s \<longleftrightarrow> status x = SessionStatusWaitWriteDone) \<and>
       (tagify sid SessionEventConnected \<in># conn_pending s \<longleftrightarrow>
          status x = SessionStatusWaitToConnect) \<and>
       (message_queue x \<noteq> [] \<longrightarrow> status x = SessionStatusWaitWriteDone))"
proof -
  have "system_inv s"
    using server.reachable_inv [OF assms(1)] assms(2) by (simp add: bounded_inv_def)
  from system_invD(5) [OF this, of sid] assms(3) have "system_slot_ok s sid"
    by (simp add: id_fits_def)
  then show ?thesis
    by (cases "sessions (server s) sid")
      (auto simp: system_slot_ok_def count_eq_zero_iff [symmetric]
        simp flip: count_greater_zero_iff split: SessionStatus.splits)
qed

theorem server_one_write_per_session_witness:
  "count (rw_pending demo_writing) (tagify 0 SessionEventWriteDone) \<le> 1 \<and>
   tagify 0 SessionEventWriteDone \<in># rw_pending demo_writing"
  using server_one_write_per_session [OF demo_writing_reachable, of 0]
  by (simp add: demo_writing_def demo_session_def)

text \<open>
  C24: The accepter re-arms itself: \<open>cq_conn_\<close> never holds more than one pending connection, and
  when one succeeds the server has again exactly one, of a new session that waits for it. When
  one fails (\<open>ok\<close> is false, as after a shutdown) none is left.
\<close>
theorem server_keeps_listening:
  assumes "server_reachable s" and "spawned s < 2 ^ 62" and "tag \<in># conn_pending s"
    and "accepter_handle (server s) tag ok = Inr (srv, ops)"
  defines "t \<equiv> issue ops (s\<lparr>server := srv, conn_pending := conn_pending s - {#tag#}\<rparr>)"
  shows "conn_pending s = {#tag#} \<and>
    conn_pending t = (if ok then {#tagify (session_id_allocator (server s)) SessionEventConnected#}
                      else {#}) \<and>
    (ok \<longrightarrow> sessions (server t) (session_id_allocator (server s)) =
       Some (fst (new_GreeterSession (session_id_allocator (server s)))))"
proof -
  have inv: "system_inv s"
    using server.reachable_inv [OF assms(1)] assms(2) by (simp add: bounded_inv_def)
  obtain sid x where sid: "id_fits sid" "tag = tagify sid SessionEventConnected"
    "sessions (server s) sid = Some x"
    by (rule pending_connection [OF inv assms(3)])
  have "size (conn_pending s - {#tag#}) = 0"
    using listening.reachable_inv [OF assms(1)] assms(3)
    by (simp add: listening_inv_def size_Diff_singleton)
  then have "conn_pending s = {#tag#}" using assms(3) by (metis insert_DiffM size_eq_0_iff_empty)
  then show ?thesis
    using assms(4) sid handle_connection [OF sid(1,3), of ok]
    by (auto simp: t_def RemoveSession_def split: if_splits)
qed

theorem server_keeps_listening_witness:
  "conn_pending (issue
     [Read (tagify 0 SessionEventReadDone), RequestSayHello3 (tagify 1 SessionEventConnected)]
     (demo_start\<lparr>server := server demo_connected,
        conn_pending := conn_pending demo_start - {#tagify 0 SessionEventConnected#}\<rparr>)) =
   {#tagify 1 SessionEventConnected#}"
  using server_keeps_listening [OF demo_start_reachable, of "tagify 0 SessionEventConnected" True
      "server demo_connected"
      "[Read (tagify 0 SessionEventReadDone), RequestSayHello3 (tagify 1 SessionEventConnected)]"]
  by (simp add: demo_start_def demo_connected_def handle_connection demo_session_def
      new_GreeterSession_def)

text \<open>
  C34: A failed read destroys the session while its write may still be outstanding:
  \<open>RemoveSession\<close> drops the table's reference, the last one, although gRPC has yet to complete an
  operation on the \<open>stream_\<close> and \<open>context_\<close> that die with the session.
\<close>
theorem server_removes_session_with_write_outstanding:
  "\<exists>s. server_reachable s \<and> sessions (server s) 0 = None \<and>
     tagify 0 SessionEventWriteDone \<in># rw_pending s"
  using demo_removed_reachable by (intro exI [of _ demo_removed]) (simp add: demo_removed_def)

text \<open>
  \<open>Stop\<close> cancels exactly the sessions that have connected, shuts the server down and then
  the two queues, once: a second \<open>Stop\<close> does nothing. It leaves the table as it is.
\<close>
lemma Stop_cancels_connected:
  assumes "set order = dom (sessions srv)" and "running srv"
  shows "\<exists>cancelled. snd (Stop order srv) =
      map (\<lambda>sid. StreamOp (TryCancel sid)) cancelled @
      [ServerShutdown, ShutdownCqConn, ShutdownCqReadwrite] \<and>
    set cancelled = {sid. \<exists>x. sessions srv sid = Some x \<and> connected x} \<and>
    sessions (fst (Stop order srv)) = sessions srv \<and>
    Stop order' (fst (Stop order srv)) = (fst (Stop order srv), [])"
  using assms
  by (intro exI [of _ "filter (\<lambda>sid. case sessions srv sid of
        None \<Rightarrow> False | Some x \<Rightarrow> status x \<noteq> SessionStatusWaitToConnect) order"])
    (auto simp: Stop_def GetSession_def connected_def split: option.splits)

lemma Stop_cancels_connected_witness:
  "snd (Stop [0, 1] (server demo_writing)) =
     [StreamOp (TryCancel 0), ServerShutdown, ShutdownCqConn, ShutdownCqReadwrite]"
proof -
  have "set [0, 1] = dom (sessions (server demo_writing))" "running (server demo_writing)"
    by (auto simp: demo_writing_def)
  from Stop_cancels_connected [OF this] show ?thesis
    by (simp add: Stop_def GetSession_def demo_writing_def demo_session_def)
qed

end
