(* ===== verification/Greeter_Hub.thy ===== *)
theory Greeter_Hub
  imports Greeter_Server
begin

text \<open>
  What the asynchronous server of \<open>src/grpcdemo/server_async.cc\<close> promises as a whole: it is a hub with an outbox for every connected
  client. A request puts the greeting into the outbox of its client, a round of broadcasts puts the message into the outbox of one client
  after the other, and the messages of an outbox are delivered one at a time, in order. The hub knows nothing of
  completion queues, tags, statuses and queues of sessions; the theorem at the end shows that the server with its three
  threads, interleaved with gRPC in any way, implements it.

  The steps are finer than those of \<open>Greeter_Server\<close>. \<open>mutex_sessions_\<close> is a part of the state: the broadcast thread holds it shared for its
  loop body and locks one session at a time, so that the worker and \<open>Stop\<close>, and the first half of an accept, which only lock a session
  or nothing, come in between; \<open>AddNewSession\<close> and \<open>RemoveSession\<close> need it exclusively and have to wait. The event of an accept and
  the \<open>AddNewSession\<close> after it are steps of their own.

  A message that \<open>Write\<close> was called with is kept by gRPC until its completion; \<open>in_flight\<close> remembers it, and \<open>delivered\<close> what has been
  completed. These two only observe.
\<close>

section \<open>The specification\<close>

record hub =
  up :: bool
  listening :: "u64 set"
  outbox :: "u64 \<Rightarrow> HelloResponse list option"
  delivered_to :: "u64 \<Rightarrow> HelloResponse list"
  round :: "u64 set option"

text \<open>
  \<open>round\<close> holds the clients that the round of broadcasts in progress has yet to visit. A round begins only while the hub is up, with
  everybody there is; until it is over nobody comes or goes, and it goes on when the hub is stopped. A visit is nothing to a client that has not
  connected.
\<close>

inductive hub_step :: "hub \<Rightarrow> hub \<Rightarrow> bool" where
  hub_listen:
    "round h = None \<Longrightarrow> j \<notin> listening h \<Longrightarrow> outbox h j = None \<Longrightarrow> delivered_to h j = [] \<Longrightarrow>
     hub_step h (h\<lparr>listening := insert j (listening h)\<rparr>)"
| hub_connect:
    "i \<in> listening h \<Longrightarrow> outbox h i = None \<Longrightarrow>
     hub_step h (h\<lparr>listening := listening h - {i}, outbox := (outbox h)(i \<mapsto> [])\<rparr>)"
| hub_refuse:
    "round h = None \<Longrightarrow> i \<in> listening h \<Longrightarrow> hub_step h (h\<lparr>listening := listening h - {i}\<rparr>)"
| hub_request:
    "outbox h i = Some q \<Longrightarrow> hub_step h (h\<lparr>outbox := (outbox h)(i \<mapsto> q @ [greeting r])\<rparr>)"
| hub_deliver:
    "outbox h i = Some (m # q) \<Longrightarrow>
     hub_step h (h\<lparr>outbox := (outbox h)(i \<mapsto> q), delivered_to := (delivered_to h)(i := delivered_to h i @ [m])\<rparr>)"
| hub_close:
    "round h = None \<Longrightarrow> outbox h i = Some q \<Longrightarrow> hub_step h (h\<lparr>outbox := (outbox h)(i := None)\<rparr>)"
| hub_round_begins:
    "up h \<Longrightarrow> round h = None \<Longrightarrow> hub_step h (h\<lparr>round := Some (listening h \<union> dom (outbox h))\<rparr>)"
| hub_visit:
    "round h = Some U \<Longrightarrow> i \<in> U \<Longrightarrow>
     hub_step h (h\<lparr>outbox := (outbox h)(i := map_option (\<lambda>q. q @ [broadcast_message]) (outbox h i)), round := Some (U - {i})\<rparr>)"
| hub_round_over: "round h = Some {} \<Longrightarrow> hub_step h (h\<lparr>round := None\<rparr>)"
| hub_stop: "hub_step h (h\<lparr>up := False\<rparr>)"

definition hub_init :: "hub \<Rightarrow> bool" where
  "hub_init h \<longleftrightarrow> up h \<and> listening h = {} \<and> outbox h = Map.empty \<and> (\<forall>i. delivered_to h i = []) \<and> round h = None"

section \<open>The server, statement by statement where the lock matters\<close>

type_synonym flight = "u64 \<Rightarrow> HelloResponse option"

text \<open>Where the accepter is: at the test of its outer loop, before \<open>AddNewSession\<close>, or at \<open>Next\<close>.\<close>

datatype accepter_place = Entering | Spawning | Serving

text \<open>
  Where the broadcast thread is: at the test of its loop, before the lock, before the second test, in the loop over the table with the
  sessions it has not come to, or out of its loop.
\<close>

datatype broadcast_place = Away | Wanting | Holding | Visiting "u64 set" | Left

record traced =
  sys :: system
  accepter_at :: accepter_place
  broadcast_at :: broadcast_place
  in_flight :: flight
  delivered :: "u64 \<Rightarrow> HelloResponse list"

definition table_free :: "traced \<Rightarrow> bool" where
  "table_free x \<longleftrightarrow> broadcast_at x \<in> {Away, Wanting, Left}"

text \<open>The body of the loop over \<open>cq_conn_->Next\<close> up to \<open>AddNewSession\<close>, which follows when the flag is set.\<close>

definition accepter_event ::
  "GreeterServer \<Rightarrow> u64 \<Rightarrow> bool \<Rightarrow> (GreeterServer \<times> stream_op list \<times> bool) checked" where
  "accepter_event srv tag ok =
     (let (sid, event) = detagify tag in
      case GetSession srv sid of
        None \<Rightarrow> Inr (srv, [], False)
      | Some session \<Rightarrow>
          if \<not> ok then Inr (RemoveSession srv sid, [], False)
          else if event \<noteq> SessionEventConnected then Inl AssertFailed
          else let (session', ops) = ProcessEvent session event
               in Inr (update_session srv sid session', ops, True))"

lemma accepter_handle_split:
  "accepter_handle srv tag ok = bind_checked (accepter_event srv tag ok) (\<lambda>(srv', ops, spawn).
     if spawn then let (srv'', ops') = AddNewSession srv' in Inr (srv'', ops @ ops') else Inr (srv', ops))"
  by (auto simp: accepter_handle_def accepter_event_def Let_def split: prod.split option.split simp del: ProcessEvent.simps)

fun note_op :: "stream_op \<Rightarrow> flight \<Rightarrow> flight" where
  "note_op (Write m t) f = f(fst (detagify t) \<mapsto> m)"
| "note_op _ f = f"

definition note_ops :: "stream_op list \<Rightarrow> flight \<Rightarrow> flight" where
  "note_ops ops f = fold note_op ops f"

text \<open>A write that is completed leaves the flight; its message counts as delivered when it succeeded on a session of the table.\<close>

definition land :: "u64 \<Rightarrow> SessionEvent \<Rightarrow> flight \<Rightarrow> flight" where
  "land i e f = (if e = SessionEventWriteDone then f(i := None) else f)"

definition count_delivered ::
  "GreeterServer \<Rightarrow> u64 \<Rightarrow> SessionEvent \<Rightarrow> bool \<Rightarrow> flight \<Rightarrow> (u64 \<Rightarrow> HelloResponse list) \<Rightarrow> u64 \<Rightarrow> HelloResponse list" where
  "count_delivered srv i e ok f d =
     (if e = SessionEventWriteDone \<and> ok \<and> sessions srv i \<noteq> None
      then d(i := d i @ (case f i of None \<Rightarrow> [] | Some m \<Rightarrow> [m])) else d)"

inductive traced_step :: "traced \<Rightarrow> traced \<Rightarrow> bool" where
  traced_enter: "accepter_at x = Entering \<Longrightarrow> running (server (sys x)) \<Longrightarrow> traced_step x (x\<lparr>accepter_at := Spawning\<rparr>)"
| traced_spawn: "accepter_at x = Spawning \<Longrightarrow> table_free x \<Longrightarrow> AddNewSession (server (sys x)) = (srv, ops) \<Longrightarrow>
     traced_step x (x\<lparr>sys := issue ops ((sys x)\<lparr>server := srv\<rparr>), accepter_at := Serving,
       in_flight := note_ops ops (in_flight x)\<rparr>)"
| traced_accept: "accepter_at x = Serving \<Longrightarrow> tag \<in># conn_pending (sys x) \<Longrightarrow>
     accepter_event (server (sys x)) tag ok = Inr (srv, ops, spawn) \<Longrightarrow>
     ok \<or> GetSession (server (sys x)) (fst (detagify tag)) = None \<or> table_free x \<Longrightarrow>
     traced_step x (x\<lparr>sys := issue ops ((sys x)\<lparr>server := srv, conn_pending := conn_pending (sys x) - {#tag#}\<rparr>),
       accepter_at := (if spawn then Spawning else Serving), in_flight := note_ops ops (in_flight x)\<rparr>)"
| traced_drained: "accepter_at x = Serving \<Longrightarrow> \<not> running (server (sys x)) \<Longrightarrow> conn_pending (sys x) = {#} \<Longrightarrow>
     traced_step x (x\<lparr>accepter_at := Entering\<rparr>)"
| traced_work: "tag \<in># rw_pending (sys x) \<Longrightarrow> detagify tag = (i, e) \<Longrightarrow>
     worker_handle (store_request (server (sys x)) i r) tag ok = Inr (srv, ops) \<Longrightarrow>
     ok \<or> GetSession (server (sys x)) i = None \<or> table_free x \<Longrightarrow>
     traced_step x (x\<lparr>sys := issue ops ((sys x)\<lparr>server := srv, rw_pending := rw_pending (sys x) - {#tag#}\<rparr>),
       in_flight := note_ops ops (land i e (in_flight x)),
       delivered := count_delivered (server (sys x)) i e ok (in_flight x) (delivered x)\<rparr>)"
| traced_test: "broadcast_at x = Away \<Longrightarrow>
     traced_step x (x\<lparr>broadcast_at := (if running (server (sys x)) then Wanting else Left)\<rparr>)"
| traced_lock: "broadcast_at x = Wanting \<Longrightarrow> traced_step x (x\<lparr>broadcast_at := Holding\<rparr>)"
| traced_check: "broadcast_at x = Holding \<Longrightarrow>
     traced_step x (x\<lparr>broadcast_at := (if running (server (sys x)) then Visiting (dom (sessions (server (sys x)))) else Left)\<rparr>)"
| traced_visit: "broadcast_at x = Visiting U \<Longrightarrow> i \<in> U \<Longrightarrow> broadcast_round [i] (server (sys x)) = (srv, ops) \<Longrightarrow>
     traced_step x (x\<lparr>sys := issue ops ((sys x)\<lparr>server := srv\<rparr>), broadcast_at := Visiting (U - {i}),
       in_flight := note_ops ops (in_flight x)\<rparr>)"
| traced_unlock: "broadcast_at x = Visiting {} \<Longrightarrow> traced_step x (x\<lparr>broadcast_at := Away\<rparr>)"
| traced_stop: "traced_step x (x\<lparr>sys := (sys x)\<lparr>server := fst (Stop order (server (sys x)))\<rparr>\<rparr>)"

definition traced_init :: "traced \<Rightarrow> bool" where
  "traced_init x \<longleftrightarrow> x = \<lparr>sys = \<lparr>server = fst (Start ''127.0.0.1:50001'' initial_GreeterServer), conn_pending = {#}, rw_pending = {#},
     spawned = 0\<rparr>, accepter_at = Entering, broadcast_at = Away, in_flight = Map.empty, delivered = (\<lambda>_. [])\<rparr>"

text \<open>The steps as long as no more sessions are created than fit in a tag.\<close>

definition bounded_step :: "traced \<Rightarrow> traced \<Rightarrow> bool" where
  "bounded_step x y \<longleftrightarrow> traced_step x y \<and> spawned (sys y) \<le> 2 ^ 62"

section \<open>What the hub sees\<close>

definition box :: "HelloResponse option \<Rightarrow> GreeterSession \<Rightarrow> HelloResponse list" where
  "box m s = (case m of None \<Rightarrow> [] | Some r \<Rightarrow> [r]) @ message_queue s"

definition outbox_of :: "GreeterServer \<Rightarrow> flight \<Rightarrow> u64 \<Rightarrow> HelloResponse list option" where
  "outbox_of srv f i =
     (case sessions srv i of
        None \<Rightarrow> None
      | Some s \<Rightarrow> if status s = SessionStatusWaitToConnect then None else Some (box (f i) s))"

definition listening_of :: "GreeterServer \<Rightarrow> u64 set" where
  "listening_of srv = {i. \<exists>s. sessions srv i = Some s \<and> status s = SessionStatusWaitToConnect}"

definition hub_of :: "traced \<Rightarrow> hub" where
  "hub_of x = \<lparr>up = running (server (sys x)), listening = listening_of (server (sys x)),
     outbox = outbox_of (server (sys x)) (in_flight x), delivered_to = delivered x,
     round = (case broadcast_at x of Visiting U \<Rightarrow> Some U | _ \<Rightarrow> None)\<rparr>"

text \<open>A session has a message in flight exactly while it waits for a write, and a queue only then.\<close>

definition flight_session :: "flight \<Rightarrow> u64 \<Rightarrow> GreeterSession \<Rightarrow> bool" where
  "flight_session f i s \<longleftrightarrow> id_fits i \<and> session_id s = i \<and>
     (f i \<noteq> None \<longleftrightarrow> status s = SessionStatusWaitWriteDone) \<and>
     (status s \<noteq> SessionStatusWaitWriteDone \<longrightarrow> message_queue s = [])"

definition flight_ok :: "GreeterServer \<Rightarrow> flight \<Rightarrow> bool" where
  "flight_ok srv f \<longleftrightarrow> (\<forall>i s. sessions srv i = Some s \<longrightarrow> flight_session f i s)"

text \<open>An id that has not been given out has nothing in flight and nothing delivered.\<close>

definition unused_ok :: "traced \<Rightarrow> bool" where
  "unused_ok x \<longleftrightarrow> (\<forall>i. spawned (sys x) \<le> unat i \<longrightarrow> in_flight x i = None \<and> delivered x i = [])"

definition traced_inv :: "traced \<Rightarrow> bool" where
  "traced_inv x \<longleftrightarrow> spawned (sys x) \<le> 2 ^ 62 \<and> system_inv (sys x) \<and>
     flight_ok (server (sys x)) (in_flight x) \<and> unused_ok x"

section \<open>Every step of the server is a step of the hub\<close>

lemma note_ops_simps [simp]:
  "note_ops [] f = f"
  "note_ops (op # ops) f = note_ops ops (note_op op f)"
  "note_ops (ops @ ops') f = note_ops ops' (note_ops ops f)"
  by (simp_all add: note_ops_def)

text \<open>A change of one session and of its message in flight changes one outbox.\<close>

lemma touch_view:
  assumes srv': "sessions srv' = (sessions srv)(i := y)" and f': "\<And>j. j \<noteq> i \<Longrightarrow> f' j = f j"
  shows "outbox_of srv' f' i = b \<Longrightarrow> outbox_of srv' f' = (outbox_of srv f)(i := b)"
    "listening_of srv' = (if \<exists>s. y = Some s \<and> status s = SessionStatusWaitToConnect
       then insert i (listening_of srv) else listening_of srv - {i})"
    "flight_ok srv f \<Longrightarrow> (\<And>s. y = Some s \<Longrightarrow> flight_session f' i s) \<Longrightarrow> flight_ok srv' f'"
proof -
  show "outbox_of srv' f' = (outbox_of srv f)(i := b)" if "outbox_of srv' f' i = b"
    by (rule ext) (use that in \<open>auto simp: outbox_of_def srv' f' split: option.splits\<close>)
  show "listening_of srv' = (if \<exists>s. y = Some s \<and> status s = SessionStatusWaitToConnect
       then insert i (listening_of srv) else listening_of srv - {i})"
    using srv' by (auto simp: listening_of_def)
  show "flight_ok srv' f'" if "flight_ok srv f" "\<And>s. y = Some s \<Longrightarrow> flight_session f' i s"
    using that srv' f' by (auto simp: flight_ok_def flight_session_def)
qed

text \<open>
  What a step has to show: the invariant of the table and the queues, the messages in flight in order, ids not yet given out not touched,
  and that the hub makes a step or sees nothing.
\<close>

definition advances :: "traced \<Rightarrow> traced \<Rightarrow> bool" where
  "advances x y \<longleftrightarrow> system_inv (sys y) \<and> spawned (sys x) \<le> spawned (sys y) \<and> flight_ok (server (sys y)) (in_flight y) \<and>
     (\<forall>j. spawned (sys y) \<le> unat j \<longrightarrow> in_flight y j = in_flight x j \<and> delivered y j = delivered x j) \<and>
     (hub_step (hub_of x) (hub_of y) \<or> hub_of y = hub_of x)"

lemma table_free_round: "table_free x \<Longrightarrow> round (hub_of x) = None"
  by (auto simp: table_free_def hub_of_def)

lemma running_kept [simp]:
  "running (RemoveSession srv i) = running srv" "running (update_session srv i s) = running srv"
  by (simp_all add: RemoveSession_def update_session_def)

text \<open>Removing a session closes its outbox, or stops listening for it; the messages of the others stay.\<close>

lemma remove_view:
  assumes "flight_ok srv f" "\<And>j. j \<noteq> i \<Longrightarrow> f' j = f j"
  shows "outbox_of (RemoveSession srv i) f' = (outbox_of srv f)(i := None)"
    "listening_of (RemoveSession srv i) = listening_of srv - {i}" "flight_ok (RemoveSession srv i) f'"
proof -
  have upd: "sessions (RemoveSession srv i) = (sessions srv)(i := None)" by (simp add: RemoveSession_def)
  note touch = touch_view [OF upd assms(2)]
  show "outbox_of (RemoveSession srv i) f' = (outbox_of srv f)(i := None)"
    by (rule touch(1)) (simp_all add: outbox_of_def RemoveSession_def)
  show "listening_of (RemoveSession srv i) = listening_of srv - {i}" using touch(2) by simp
  show "flight_ok (RemoveSession srv i) f'" by (rule touch(3) [OF _ assms(1)]) simp_all
qed

text \<open>A connection opens an empty outbox.\<close>

lemma connect_view:
  assumes flight: "flight_ok srv f" and s: "sessions srv i = Some s" "status s = SessionStatusWaitToConnect"
  defines "srv' \<equiv> update_session srv i (s\<lparr>status := SessionStatusReadyToWrite\<rparr>)"
  shows "outbox_of srv' f = (outbox_of srv f)(i \<mapsto> [])" "listening_of srv' = listening_of srv - {i}" "flight_ok srv' f"
proof -
  have upd: "sessions srv' = (sessions srv)(i := Some (s\<lparr>status := SessionStatusReadyToWrite\<rparr>))"
    by (simp add: srv'_def update_session_def)
  have i: "flight_session f i s" using flight s(1) by (simp add: flight_ok_def)
  note touch = touch_view [OF upd refl]
  show "outbox_of srv' f = (outbox_of srv f)(i \<mapsto> [])"
    by (rule touch(1)) (use i s upd in \<open>auto simp: outbox_of_def box_def flight_session_def\<close>)
  show "listening_of srv' = listening_of srv - {i}" using touch(2) by simp
  show "flight_ok srv' f" by (rule touch(3) [OF flight]) (use s i in \<open>auto simp: flight_session_def\<close>)
qed

lemma accepter_event_connection:
  assumes "id_fits i" "sessions srv i = Some s"
  shows "accepter_event srv (tagify i SessionEventConnected) ok =
    Inr (if ok then (update_session srv i (s\<lparr>status := SessionStatusReadyToWrite\<rparr>), [Read (tagify (session_id s) SessionEventReadDone)], True)
         else (RemoveSession srv i, [], False))"
  using assms by (simp add: accepter_event_def GetSession_def)

text \<open>The two halves of an accept keep the invariant of the table and the queues.\<close>

lemma connect_inv:
  assumes inv: "system_inv s" and tag: "tagify i SessionEventConnected \<in># conn_pending s" "id_fits i"
    and x: "sessions (server s) i = Some x"
  shows "system_inv (issue [Read (tagify (session_id x) SessionEventReadDone)]
    (s\<lparr>server := update_session (server s) i (x\<lparr>status := SessionStatusReadyToWrite\<rparr>),
       conn_pending := conn_pending s - {#tagify i SessionEventConnected#}\<rparr>))" (is "system_inv ?t")
proof -
  obtain j y where "id_fits j" "tagify i SessionEventConnected = tagify j SessionEventConnected"
    "sessions (server s) j = Some y" "status y = SessionStatusWaitToConnect"
    "message_queue y = []" "session_id y = j" "unat j < spawned s"
    "count (conn_pending s) (tagify i SessionEventConnected) = 1"
    "count (rw_pending s) (tagify j SessionEventReadDone) = 0"
    "count (rw_pending s) (tagify j SessionEventWriteDone) = 0"
    by (rule pending_connection [OF inv tag(1)])
  then have y: "sessions (server s) i = Some x" "message_queue x = []" "session_id x = i" "unat i < spawned s"
    "count (conn_pending s) (tagify i SessionEventConnected) = 1"
    "count (rw_pending s) (tagify i SessionEventReadDone) = 0"
    "count (rw_pending s) (tagify i SessionEventWriteDone) = 0"
    using tag(2) x by auto
  have minus: "\<And>t. t \<in># conn_pending s - {#tagify i SessionEventConnected#} \<Longrightarrow> t \<in># conn_pending s"
    by (rule in_diffD)
  note facts = inv [unfolded system_inv_def ids_ok_def]
  show ?thesis
  proof (rule slots_frame [OF inv, where T = "{i}"])
    show "tags_ok ?t" using inv y tag(2) minus by (fastforce simp: tags_ok_def system_inv_def)
  qed (use facts y tag(2) in \<open>auto simp: ids_ok_def system_slot_ok_def update_session_def\<close>)
qed

lemma spawn_inv:
  assumes inv: "system_inv s" and bound: "spawned s < 2 ^ 62" and add: "AddNewSession (server s) = (srv, ops)"
  shows "system_inv (issue ops (s\<lparr>server := srv\<rparr>))" (is "system_inv ?t")
proof -
  let ?new = "session_id_allocator (server s)"
  have t: "srv = (server s)\<lparr>session_id_allocator := ?new + 1,
      sessions := (sessions (server s))(?new \<mapsto> fst (new_GreeterSession ?new))\<rparr>"
    "ops = [RequestSayHello3 (tagify ?new SessionEventConnected)]"
    using add by (auto simp: AddNewSession_def new_GreeterSession_def Let_def)
  note new = fresh_id_slot [OF inv bound]
  note facts = inv [unfolded system_inv_def ids_ok_def]
  show ?thesis
  proof (rule slots_frame [OF inv, where T = "{?new}"])
    show "tags_ok ?t" using inv t new by (fastforce simp: tags_ok_def system_inv_def)
  qed (use facts t new in \<open>auto simp: ids_ok_def system_slot_ok_def new_GreeterSession_def intro: less_SucI\<close>)
qed

lemma spawn_advances:
  assumes inv: "traced_inv x" and free: "table_free x" and add: "AddNewSession (server (sys x)) = (srv, ops)"
    and y: "y = x\<lparr>sys := issue ops ((sys x)\<lparr>server := srv\<rparr>), accepter_at := Serving, in_flight := note_ops ops (in_flight x)\<rparr>"
    and bound: "spawned (sys y) \<le> 2 ^ 62"
  shows "advances x y"
proof -
  let ?srv = "server (sys x)" and ?f = "in_flight x" and ?new = "session_id_allocator (server (sys x))"
  have sys_inv: "system_inv (sys x)" and flight: "flight_ok ?srv ?f" and unused: "unused_ok x"
    using inv by (simp_all add: traced_inv_def)
  have t: "running srv = running ?srv" "sessions srv = (sessions ?srv)(?new := Some (fst (new_GreeterSession ?new)))"
    "ops = [RequestSayHello3 (tagify ?new SessionEventConnected)]"
    using add by (auto simp: AddNewSession_def new_GreeterSession_def Let_def)
  have less: "spawned (sys x) < 2 ^ 62" using bound y t(3) by simp
  note new = fresh_id_slot [OF sys_inv less]
  have j: "?new \<notin> listening (hub_of x)" "outbox (hub_of x) ?new = None" "delivered_to (hub_of x) ?new = []" "?f ?new = None"
    using new unused by (auto simp: hub_of_def listening_of_def outbox_of_def unused_ok_def)
  note touch = touch_view [where f = ?f and f' = ?f, OF t(2) refl]
  have "outbox_of srv ?f ?new = None" using t(2) by (simp add: outbox_of_def new_GreeterSession_def)
  then have "outbox_of srv ?f = outbox_of ?srv ?f" using touch(1) j(2) by (simp add: hub_of_def fun_upd_idem)
  moreover have "listening_of srv = insert ?new (listening_of ?srv)" using touch(2) by (simp add: new_GreeterSession_def)
  moreover have "flight_ok srv ?f"
    by (rule touch(3) [OF flight]) (use new j(4) in \<open>auto simp: flight_session_def new_GreeterSession_def\<close>)
  ultimately show ?thesis
    using hub_listen [OF table_free_round [OF free] j(1-3)] spawn_inv [OF sys_inv less add] y t
    by (simp add: advances_def hub_of_def)
qed

lemma accept_advances:
  assumes inv: "traced_inv x" and tag: "tag \<in># conn_pending (sys x)"
    and event: "accepter_event (server (sys x)) tag ok = Inr (srv, ops, spawn)"
    and lock: "ok \<or> GetSession (server (sys x)) (fst (detagify tag)) = None \<or> table_free x"
    and y: "y = x\<lparr>sys := issue ops ((sys x)\<lparr>server := srv, conn_pending := conn_pending (sys x) - {#tag#}\<rparr>),
       accepter_at := a, in_flight := note_ops ops (in_flight x)\<rparr>"
  shows "advances x y"
proof -
  have sys_inv: "system_inv (sys x)" and flight: "flight_ok (server (sys x)) (in_flight x)"
    using inv by (simp_all add: traced_inv_def)
  obtain i s where s: "id_fits i" "tag = tagify i SessionEventConnected" "sessions (server (sys x)) i = Some s"
    "status s = SessionStatusWaitToConnect" "session_id s = i"
    by (rule pending_connection [OF sys_inv tag])
  note event = event [unfolded s(2) accepter_event_connection [OF s(1,3)]]
  have i: "i \<in> listening (hub_of x)" "outbox (hub_of x) i = None"
    using s by (auto simp: hub_of_def listening_of_def outbox_of_def)
  show ?thesis
  proof (cases ok)
    case False
    with event have t: "srv = RemoveSession (server (sys x)) i" "ops = []" by auto
    have "accepter_handle (server (sys x)) tag False = Inr (srv, ops)" using s t handle_connection [OF s(1,3)] by simp
    from accept_inv [OF sys_inv tag this] have "system_inv (sys y)"
      using inv t y by (simp add: traced_inv_def)
    moreover have "table_free x" using lock False s by (simp add: GetSession_def)
    ultimately show ?thesis
      using hub_refuse [OF table_free_round i(1)] i(2) remove_view [OF flight refl, of i]
      by (simp add: advances_def hub_of_def y t fun_upd_idem)
  next
    case True
    then have t: "srv = update_session (server (sys x)) i (s\<lparr>status := SessionStatusReadyToWrite\<rparr>)"
      "ops = [Read (tagify i SessionEventReadDone)]"
      using event s(5) by auto
    show ?thesis
      using hub_connect [OF i] connect_view [OF flight s(3,4)] connect_inv [OF sys_inv _ s(1,3)] tag s(2,5) t y
      by (simp add: advances_def hub_of_def)
  qed
qed

text \<open>The response that \<open>SendResponse\<close> takes goes to the end of the outbox.\<close>

lemma send_view:
  assumes flight: "flight_ok srv f" and s: "sessions srv i = Some s" and send: "SendResponse s m = (s', ops)"
  shows "outbox_of (update_session srv i s') (note_ops ops f) =
      (outbox_of srv f)(i := map_option (\<lambda>q. q @ [m]) (outbox_of srv f i))"
    "listening_of (update_session srv i s') = listening_of srv"
    "flight_ok (update_session srv i s') (note_ops ops f)"
    "j \<noteq> i \<Longrightarrow> note_ops ops f j = f j"
proof -
  have i: "flight_session f i s" using flight s by (simp add: flight_ok_def)
  have upd: "sessions (update_session srv i s') = (sessions srv)(i := Some s')" by (simp add: update_session_def)
  have other: "\<And>j. j \<noteq> i \<Longrightarrow> note_ops ops f j = f j"
    using send i by (cases rule: SendResponse_cases) (auto simp: flight_session_def)
  show "j \<noteq> i \<Longrightarrow> note_ops ops f j = f j" by (rule other)
  note touch = touch_view [OF upd other]
  show "outbox_of (update_session srv i s') (note_ops ops f) =
      (outbox_of srv f)(i := map_option (\<lambda>q. q @ [m]) (outbox_of srv f i))"
  proof (rule touch(1))
    show "outbox_of (update_session srv i s') (note_ops ops f) i = map_option (\<lambda>q. q @ [m]) (outbox_of srv f i)"
      using send by (cases rule: SendResponse_cases) (use i s upd in \<open>auto simp: outbox_of_def box_def flight_session_def\<close>)
  qed
  show "listening_of (update_session srv i s') = listening_of srv"
    using send s by (cases rule: SendResponse_cases) (auto simp: listening_of_def update_session_def)
  show "flight_ok (update_session srv i s') (note_ops ops f)"
  proof (rule touch(3) [OF _ flight])
    show "flight_session (note_ops ops f) i y" if "Some s' = Some y" for y
      using send by (cases rule: SendResponse_cases) (use i that in \<open>auto simp: flight_session_def\<close>)
  qed
qed

text \<open>Storing the message of a read changes nothing the hub can see.\<close>

lemma store_request_view [simp]:
  "outbox_of (store_request srv i r) f = outbox_of srv f"
  "listening_of (store_request srv i r) = listening_of srv"
  "flight_ok (store_request srv i r) f = flight_ok srv f"
proof -
  have *: "sessions (store_request srv i r) = (\<lambda>j. map_option (\<lambda>s. if j = i then s\<lparr>request := r\<rparr> else s) (sessions srv j))"
    by (auto simp: store_request_def fun_eq_iff option.map_ident)
  show "outbox_of (store_request srv i r) f = outbox_of srv f"
    by (rule ext) (simp add: outbox_of_def * box_def split: option.split)
  show "listening_of (store_request srv i r) = listening_of srv"
  proof (rule set_eqI)
    show "j \<in> listening_of (store_request srv i r) \<longleftrightarrow> j \<in> listening_of srv" for j
      by (cases "sessions srv j") (auto simp: listening_of_def *)
  qed
  show "flight_ok (store_request srv i r) f = flight_ok srv f"
    unfolding flight_ok_def
  proof (rule iff_allI)
    show "(\<forall>s. sessions (store_request srv i r) j = Some s \<longrightarrow> flight_session f j s) \<longleftrightarrow>
        (\<forall>s. sessions srv j = Some s \<longrightarrow> flight_session f j s)" for j
      by (cases "sessions srv j") (auto simp: * flight_session_def)
  qed
qed

text \<open>A write that completes takes the first message out of the outbox.\<close>

lemma write_view:
  assumes flight: "flight_ok srv f" and s: "sessions srv i = Some s" "status s = SessionStatusWaitWriteDone"
    and pe: "ProcessEvent (s\<lparr>request := r\<rparr>) SessionEventWriteDone = (s', ops)"
  obtains m q where "f i = Some m" "outbox_of srv f i = Some (m # q)"
    "outbox_of (update_session srv i s') (note_ops ops (f(i := None))) = (outbox_of srv f)(i \<mapsto> q)"
    "listening_of (update_session srv i s') = listening_of srv"
    "flight_ok (update_session srv i s') (note_ops ops (f(i := None)))"
    "\<And>j. j \<noteq> i \<Longrightarrow> note_ops ops (f(i := None)) j = f j"
proof -
  have i: "flight_session f i s" using flight s by (simp add: flight_ok_def)
  then obtain m where m: "f i = Some m" using s(2) by (auto simp: flight_session_def)
  have upd: "sessions (update_session srv i s') = (sessions srv)(i := Some s')" by (simp add: update_session_def)
  have other: "\<And>j. j \<noteq> i \<Longrightarrow> note_ops ops (f(i := None)) j = f j"
    using pe i by (cases "message_queue s") (auto simp: flight_session_def)
  note touch = touch_view [OF upd other]
  have "outbox_of (update_session srv i s') (note_ops ops (f(i := None))) i = Some (message_queue s)"
    using pe i by (cases "message_queue s") (auto simp: outbox_of_def upd box_def flight_session_def)
  note out = touch(1) [OF _ this]
  have listen: "listening_of (update_session srv i s') = listening_of srv"
    using pe s by (cases "message_queue s") (auto simp: listening_of_def update_session_def)
  have ok: "flight_ok (update_session srv i s') (note_ops ops (f(i := None)))"
  proof (rule touch(3) [OF _ flight])
    show "flight_session (note_ops ops (f(i := None))) i y" if "Some s' = Some y" for y
      using pe i s(2) that by (cases "message_queue s") (auto simp: flight_session_def)
  qed
  show thesis
    by (rule that [OF m _ out listen ok other]) (use m s in \<open>simp_all add: outbox_of_def box_def\<close>)
qed

text \<open>A pending read or write, named by its session and its kind.\<close>

lemma transfer_facts:
  assumes "system_inv s" "tag \<in># rw_pending s" "detagify tag = (i, e)"
  shows "id_fits i" "unat i < spawned s" "tag = tagify i e" "e = SessionEventReadDone \<or> e = SessionEventWriteDone"
    "sessions (server s) i = Some x \<Longrightarrow> status x \<noteq> SessionStatusWaitToConnect"
    "sessions (server s) i = Some x \<Longrightarrow> e = SessionEventWriteDone \<Longrightarrow> status x = SessionStatusWaitWriteDone"
proof -
  obtain i' e' where "id_fits i'" "tag = tagify i' e'" "unat i' < spawned s"
    "e' = SessionEventReadDone \<or> e' = SessionEventWriteDone"
    "sessions (server s) i' = Some x \<Longrightarrow> status x \<noteq> SessionStatusWaitToConnect"
    "sessions (server s) i' = Some x \<Longrightarrow> e' = SessionEventWriteDone \<Longrightarrow> status x = SessionStatusWaitWriteDone"
    by (rule pending_transfer [OF assms(1,2)]) blast
  moreover from this(1,2) assms(3) have "i' = i" "e' = e" by simp_all
  ultimately show "id_fits i" "unat i < spawned s" "tag = tagify i e" "e = SessionEventReadDone \<or> e = SessionEventWriteDone"
    "sessions (server s) i = Some x \<Longrightarrow> status x \<noteq> SessionStatusWaitToConnect"
    "sessions (server s) i = Some x \<Longrightarrow> e = SessionEventWriteDone \<Longrightarrow> status x = SessionStatusWaitWriteDone"
    by auto
qed

lemma land_other [simp]: "j \<noteq> i \<Longrightarrow> land i e f j = f j"
  by (simp add: land_def)

text \<open>A completion for a session that was removed cannot be seen.\<close>

lemma landed_view:
  assumes "flight_ok srv f" "sessions srv i = None"
  shows "outbox_of srv (land i e f) = outbox_of srv f" "flight_ok srv (land i e f)"
  using remove_view(1,3) [OF assms(1), of i "land i e f"] assms(2)
  by (simp_all add: RemoveSession_def fun_upd_idem outbox_of_def)

text \<open>A read that completes puts the greeting of its request into the outbox.\<close>

lemma read_view:
  assumes flight: "flight_ok srv f" and s: "sessions srv i = Some s"
    and pe: "ProcessEvent (s\<lparr>request := r\<rparr>) SessionEventReadDone = (s', ops)"
  shows "outbox_of (update_session srv i s') (note_ops ops f) =
      (outbox_of srv f)(i := map_option (\<lambda>q. q @ [greeting r]) (outbox_of srv f i))"
    "listening_of (update_session srv i s') = listening_of srv"
    "flight_ok (update_session srv i s') (note_ops ops f)" "j \<noteq> i \<Longrightarrow> note_ops ops f j = f j"
proof -
  obtain ops' where send: "SendResponse (s\<lparr>request := r\<rparr>) (greeting r) = (s', ops')"
    and ops: "ops = ops' @ [Read (tagify (session_id s) SessionEventReadDone)]"
    using pe by (cases "SendResponse (s\<lparr>request := r\<rparr>) (greeting r)") (auto simp: ReadDone_eq simp del: ProcessEvent.simps)
  have upd: "update_session (store_request srv i r) i s' = update_session srv i s'"
    by (simp add: update_session_def store_request_def)
  have stored: "sessions (store_request srv i r) i = Some (s\<lparr>request := r\<rparr>)" using s by (simp add: store_request_def)
  note view = send_view [OF _ stored send, of f, unfolded upd, simplified, OF flight]
  show "outbox_of (update_session srv i s') (note_ops ops f) =
      (outbox_of srv f)(i := map_option (\<lambda>q. q @ [greeting r]) (outbox_of srv f i))"
    "listening_of (update_session srv i s') = listening_of srv"
    "flight_ok (update_session srv i s') (note_ops ops f)" "j \<noteq> i \<Longrightarrow> note_ops ops f j = f j"
    using view by (simp_all add: ops)
qed

text \<open>A completion with \<open>ok\<close> of a session in the table: a write delivers, a read is a request.\<close>

lemma transfer_view:
  fixes u :: bool and d :: "u64 \<Rightarrow> HelloResponse list" and rd :: "u64 set option"
  assumes flight: "flight_ok srv f" and s: "sessions srv i = Some s"
    and e: "e = SessionEventReadDone \<or> e = SessionEventWriteDone"
    and status: "status s \<noteq> SessionStatusWaitToConnect" "e = SessionEventWriteDone \<Longrightarrow> status s = SessionStatusWaitWriteDone"
    and pe: "ProcessEvent (s\<lparr>request := r\<rparr>) e = (s', ops)"
  defines "h \<equiv> \<lparr>up = u, listening = listening_of srv, outbox = outbox_of srv f, delivered_to = d, round = rd\<rparr>"
    and "srv' \<equiv> update_session srv i s'" and "f' \<equiv> note_ops ops (land i e f)"
  shows "hub_step h \<lparr>up = u, listening = listening_of srv', outbox = outbox_of srv' f',
      delivered_to = count_delivered srv i e True f d, round = rd\<rparr> \<and> flight_ok srv' f' \<and> (\<forall>j. j \<noteq> i \<longrightarrow> f' j = f j)"
proof (cases "e = SessionEventWriteDone")
  case True
  from write_view [OF flight s status(2) [OF True] pe [unfolded True]]
  obtain m q where "f i = Some m" "outbox_of srv f i = Some (m # q)"
    "outbox_of srv' f' = (outbox_of srv f)(i \<mapsto> q)" "listening_of srv' = listening_of srv" "flight_ok srv' f'"
    "\<And>j. j \<noteq> i \<Longrightarrow> f' j = f j"
    unfolding srv'_def f'_def land_def using True by auto
  then show ?thesis
    using hub_deliver [of h i m q] True s by (simp add: h_def count_delivered_def)
next
  case False
  then have read: "e = SessionEventReadDone" "land i e f = f" using e by (auto simp: land_def)
  have "outbox_of srv f i = Some (box (f i) s)" using s status(1) by (simp add: outbox_of_def)
  then show ?thesis
    using hub_request [of h i _ r] read_view [OF flight s pe [unfolded read(1)]] read
    by (simp add: h_def count_delivered_def srv'_def f'_def)
qed

lemma work_advances:
  assumes inv: "traced_inv x" and tag: "tag \<in># rw_pending (sys x)" and det: "detagify tag = (i, e)"
    and handle: "worker_handle (store_request (server (sys x)) i r) tag ok = Inr (srv, ops)"
    and lock: "ok \<or> GetSession (server (sys x)) i = None \<or> table_free x"
    and y: "y = x\<lparr>sys := issue ops ((sys x)\<lparr>server := srv, rw_pending := rw_pending (sys x) - {#tag#}\<rparr>),
       in_flight := note_ops ops (land i e (in_flight x)),
       delivered := count_delivered (server (sys x)) i e ok (in_flight x) (delivered x)\<rparr>"
  shows "advances x y"
proof -
  let ?srv = "server (sys x)" and ?f = "in_flight x"
  have sys_inv: "system_inv (sys x)" and flight: "flight_ok ?srv ?f" using inv by (simp_all add: traced_inv_def)
  have inv': "system_inv (sys y)" "spawned (sys x) \<le> spawned (sys y)"
    using work_inv [OF sys_inv tag, of r ok srv ops] handle det spawned_issue [of "(sys x)\<lparr>server := srv, rw_pending := _\<rparr>" ops]
    by (simp_all add: y)
  note fact = transfer_facts [OF sys_inv tag det]
  note handle = handle [unfolded fact(3) handle_transfer [OF fact(1,4)], simplified]
  have unused: "j \<noteq> i" if "spawned (sys y) \<le> unat j" for j using that fact(2) inv'(2) by auto
  consider (gone) "sessions ?srv i = None" | (failed) s where "sessions ?srv i = Some s" "\<not> ok"
    | (served) s where "sessions ?srv i = Some s" ok
    by (cases "sessions ?srv i") auto
  then show ?thesis
  proof cases
    case gone
    then show ?thesis
      using inv' handle landed_view [OF flight gone] unused by (auto simp: advances_def hub_of_def y count_delivered_def)
  next
    case (failed s)
    then have "outbox_of ?srv ?f i = Some (box (?f i) s)" "listening_of ?srv - {i} = listening_of ?srv"
      using fact(5) by (auto simp: outbox_of_def listening_of_def)
    moreover have "round (hub_of x) = None" using lock failed table_free_round by (auto simp: GetSession_def)
    moreover have t: "srv = RemoveSession ?srv i" "ops = []" using handle failed by auto
    ultimately show ?thesis
      using inv' hub_close [of "hub_of x" i "box (?f i) s"] remove_view [OF flight, of i "land i e ?f"] unused failed(2)
      by (auto simp: advances_def hub_of_def y count_delivered_def)
  next
    case (served s)
    then obtain s' where pe: "ProcessEvent (s\<lparr>request := r\<rparr>) e = (s', ops)" and srv: "srv = update_session ?srv i s'"
      using handle by (cases "ProcessEvent (s\<lparr>request := r\<rparr>) e") (auto simp del: ProcessEvent.simps)
    show ?thesis
      using inv' transfer_view [OF flight served(1) fact(4) fact(5,6) [OF served(1)] pe, of "running ?srv" "delivered x"
          "round (hub_of x)"] unused served(2)
      by (auto simp: advances_def hub_of_def y srv count_delivered_def)
  qed
qed

text \<open>A visit of the broadcast thread puts the message into one outbox.\<close>

lemma visit_advances:
  assumes inv: "traced_inv x" and at: "broadcast_at x = Visiting U" "i \<in> U"
    and visit: "broadcast_round [i] (server (sys x)) = (srv, ops)"
    and y: "y = x\<lparr>sys := issue ops ((sys x)\<lparr>server := srv\<rparr>), broadcast_at := Visiting (U - {i}), in_flight := note_ops ops (in_flight x)\<rparr>"
  shows "advances x y"
proof -
  let ?srv = "server (sys x)" and ?f = "in_flight x"
  have sys_inv: "system_inv (sys x)" "spawned (sys x) \<le> 2 ^ 62" and flight: "flight_ok ?srv ?f"
    using inv by (simp_all add: traced_inv_def)
  have inv': "system_inv (sys y)" using broadcast_inv [OF sys_inv visit] by (simp add: y)
  have le: "spawned (sys x) \<le> spawned (sys y)" using spawned_issue [of "(sys x)\<lparr>server := srv\<rparr>" ops] by (simp add: y)
  have round: "round (hub_of x) = Some U" using at(1) by (simp add: hub_of_def)
  show ?thesis
  proof (cases "sessions ?srv i")
    case None
    then have "srv = ?srv" "ops = []" "outbox_of ?srv ?f i = None"
      using visit by (auto simp: GetSession_def outbox_of_def)
    then show ?thesis
      using inv' le flight hub_visit [OF round at(2)] by (simp add: advances_def hub_of_def y fun_upd_idem)
  next
    case (Some s)
    then obtain s' where send: "SendResponse s broadcast_message = (s', ops)" and srv: "srv = update_session ?srv i s'"
      using visit by (auto simp: GetSession_def split: prod.splits)
    note view = send_view [OF flight Some send]
    have "note_ops ops ?f j = ?f j" if "spawned (sys y) \<le> unat j" for j
      using system_invD(2) [OF sys_inv(1) Some] that le by (intro view(4)) auto
    then show ?thesis
      using inv' le view hub_visit [OF round at(2)] by (auto simp: advances_def hub_of_def y srv update_session_def)
  qed
qed

text \<open>The steps that change neither the table nor a queue.\<close>

lemma place_advances:
  assumes "traced_inv x" "sys y = sys x" "in_flight y = in_flight x" "delivered y = delivered x"
    "hub_step (hub_of x) (hub_of y) \<or> hub_of y = hub_of x"
  shows "advances x y"
  using assms by (simp add: advances_def traced_inv_def)

lemma in_table: "listening_of srv \<union> dom (outbox_of srv f) = dom (sessions srv)"
  by (auto simp: listening_of_def outbox_of_def dom_def split: option.splits)

lemma stop_advances:
  "traced_inv x \<Longrightarrow> advances x (x\<lparr>sys := (sys x)\<lparr>server := fst (Stop order (server (sys x)))\<rparr>\<rparr>)"
  using hub_stop [of "hub_of x"]
  by (cases "running (server (sys x))")
    (simp_all add: advances_def traced_inv_def hub_of_def Stop_def outbox_of_def [abs_def] listening_of_def flight_ok_def
      system_inv_def ids_ok_def tags_ok_def system_slot_ok_def)

lemma step_advances:
  assumes "traced_inv x" "bounded_step x y"
  shows "advances x y"
proof -
  have step: "traced_step x y" and bound: "spawned (sys y) \<le> 2 ^ 62"
    using assms(2) by (simp_all add: bounded_step_def)
  note place = place_advances [OF assms(1)]
  from step show ?thesis
  proof cases
    case (traced_spawn srv ops)
    then show ?thesis using spawn_advances [OF assms(1)] bound by blast
  next
    case (traced_accept tag ok srv ops spawn)
    then show ?thesis using accept_advances [OF assms(1)] by blast
  next
    case (traced_work tag i e r ok srv ops)
    then show ?thesis using work_advances [OF assms(1)] by blast
  next
    case (traced_visit U i srv ops)
    then show ?thesis using visit_advances [OF assms(1)] by blast
  next
    case (traced_stop order)
    then show ?thesis using stop_advances [OF assms(1)] by simp
  next
    case traced_check
    show ?thesis
      by (rule place) (use traced_check hub_round_begins [of "hub_of x"] in \<open>auto simp: hub_of_def in_table\<close>)
  next
    case traced_unlock
    show ?thesis by (rule place) (use traced_unlock hub_round_over [of "hub_of x"] in \<open>auto simp: hub_of_def\<close>)
  qed (rule place; simp add: hub_of_def)+
qed

lemma traced_step_inv:
  assumes "traced_inv x" "bounded_step x y"
  shows "traced_inv y"
  using step_advances [OF assms] assms by (auto simp: traced_inv_def advances_def unused_ok_def bounded_step_def)

lemma traced_init_view: "traced_init x \<Longrightarrow> traced_inv x \<and> hub_init (hub_of x)"
  by (auto simp: traced_init_def traced_inv_def Start_def initial_GreeterServer_def system_inv_def ids_ok_def tags_ok_def
      system_slot_ok_def flight_ok_def unused_ok_def hub_init_def hub_of_def listening_of_def outbox_of_def)

interpretation hub: refinement_mapping traced_init bounded_step traced_inv hub_init hub_step hub_of
proof
  show "traced_inv x" "hub_init (hub_of x)" if "traced_init x" for x
    using traced_init_view [OF that] by simp_all
  show "traced_inv y" if "traced_inv x" "bounded_step x y" for x y
    by (rule traced_step_inv [OF that])
  show "hub_step (hub_of x) (hub_of y) \<or> hub_of y = hub_of x" if "traced_inv x" "bounded_step x y" for x y
    using step_advances [OF that] by (simp add: advances_def)
qed

section \<open>The coarse steps are sequences of these\<close>

text \<open>
  The steps of \<open>Greeter_Server\<close>, in which a loop body is one step, are runs of the finer ones: a server whose accepter waits for an event
  and whose broadcast thread is out of its loop body can do what they say.
\<close>

definition at_rest :: "traced \<Rightarrow> bool" where
  "at_rest x \<longleftrightarrow> accepter_at x = Serving \<and> broadcast_at x = Away"

lemma broadcast_round_Cons:
  "broadcast_round (i # order) srv =
     (let (srv1, ops1) = broadcast_round [i] srv; (srv2, ops2) = broadcast_round order srv1 in (srv2, ops1 @ ops2))"
  by (simp split: option.split prod.split)

lemma bounded_stepI:
  "traced_step x y \<Longrightarrow> spawned (sys y) \<le> spawned s \<Longrightarrow> spawned s \<le> 2 ^ 62 \<Longrightarrow> bounded_step x y"
  by (simp add: bounded_step_def)

lemma visits:
  assumes "broadcast_at x = Visiting (set order)" "distinct order" "broadcast_round order (server (sys x)) = (srv, ops)"
    "spawned (issue ops ((sys x)\<lparr>server := srv\<rparr>)) \<le> 2 ^ 62"
  shows "\<exists>y. bounded_step\<^sup>*\<^sup>* x y \<and> sys y = issue ops ((sys x)\<lparr>server := srv\<rparr>) \<and> broadcast_at y = Visiting {} \<and>
    accepter_at y = accepter_at x"
  using assms
proof (induction order arbitrary: x ops)
  case Nil
  then show ?case by (intro exI [of _ x]) simp
next
  case (Cons i order)
  obtain srv1 ops1 where one: "broadcast_round [i] (server (sys x)) = (srv1, ops1)" by fastforce
  obtain ops2 where rest: "broadcast_round order srv1 = (srv, ops2)" "ops = ops1 @ ops2"
    using Cons.prems(3) [unfolded broadcast_round_Cons [of i order] one] by (auto split: prod.splits)
  let ?x = "x\<lparr>sys := issue ops1 ((sys x)\<lparr>server := srv1\<rparr>), broadcast_at := Visiting (set (i # order) - {i}),
    in_flight := note_ops ops1 (in_flight x)\<rparr>"
  have set: "set (i # order) - {i} = set order" using Cons.prems(2) by auto
  have sys: "issue ops2 ((sys ?x)\<lparr>server := srv\<rparr>) = issue ops ((sys x)\<lparr>server := srv\<rparr>)"
    by (simp add: rest(2) issue_server_update)
  have "spawned (sys ?x) \<le> spawned (issue ops2 ((sys ?x)\<lparr>server := srv\<rparr>))"
    using spawned_issue [of "(sys ?x)\<lparr>server := srv\<rparr>" ops2] by simp
  then have step: "bounded_step x ?x"
    using traced_visit [OF Cons.prems(1) _ one] Cons.prems(4) unfolding sys by (intro bounded_stepI) auto
  obtain y where y: "bounded_step\<^sup>*\<^sup>* ?x y" "sys y = issue ops2 ((sys ?x)\<lparr>server := srv\<rparr>)" "broadcast_at y = Visiting {}"
    "accepter_at y = accepter_at ?x"
  proof -
    have "broadcast_at ?x = Visiting (set order)" "distinct order" "broadcast_round order (server (sys ?x)) = (srv, ops2)"
      "spawned (issue ops2 ((sys ?x)\<lparr>server := srv\<rparr>)) \<le> 2 ^ 62"
      using set Cons.prems(2,4) rest(1) unfolding sys by simp_all
    from Cons.IH [OF this] that show thesis by blast
  qed
  have "accepter_at y = accepter_at x" using y(4) by simp
  then show ?case using converse_rtranclp_into_rtranclp [OF step y(1)] y(2,3) unfolding sys by blast
qed

lemma server_step_traced:
  assumes "server_step (sys x) t" "at_rest x" "spawned t \<le> 2 ^ 62"
  shows "\<exists>y. bounded_step\<^sup>*\<^sup>* x y \<and> sys y = t \<and> at_rest y"
  using assms(1)
proof cases
  case (accept tag ok srv ops)
  have rest: "accepter_at x = Serving" "table_free x" "broadcast_at x = Away" using assms(2) by (simp_all add: at_rest_def table_free_def)
  obtain srv1 ops1 spawn where event: "accepter_event (server (sys x)) tag ok = Inr (srv1, ops1, spawn)"
    using accept(3) by (cases "accepter_event (server (sys x)) tag ok") (auto simp: accepter_handle_split)
  let ?s = "(sys x)\<lparr>server := srv1, conn_pending := conn_pending (sys x) - {#tag#}\<rparr>"
  let ?x = "x\<lparr>sys := issue ops1 ?s, accepter_at := (if spawn then Spawning else Serving), in_flight := note_ops ops1 (in_flight x)\<rparr>"
  have step: "traced_step x ?x" using traced_accept [OF rest(1) accept(2) event] rest(2) by blast
  show ?thesis
  proof (cases spawn)
    case False
    then have "srv = srv1" "ops = ops1" using accept(3) by (simp_all add: accepter_handle_split event)
    then show ?thesis
      using step False accept(1) assms(3) rest by (intro exI [of _ ?x]) (auto simp: at_rest_def bounded_step_def)
  next
    case True
    then obtain ops2 where add: "AddNewSession srv1 = (srv, ops2)" "ops = ops1 @ ops2"
      using accept(3) by (auto simp: accepter_handle_split event split: prod.splits)
    let ?y = "?x\<lparr>sys := issue ops2 ((sys ?x)\<lparr>server := srv\<rparr>), accepter_at := Serving, in_flight := note_ops ops2 (in_flight ?x)\<rparr>"
    have swap: "(sys x)\<lparr>conn_pending := c, server := srv\<rparr> = (sys x)\<lparr>server := srv, conn_pending := c\<rparr>" for c
      by (cases "sys x") simp
    have sys: "sys ?y = t" by (simp add: accept(1) add(2) issue_server_update swap)
    have second: "traced_step ?x ?y"
      using traced_spawn [of ?x srv ops2] True rest(3) add(1) by (simp add: table_free_def)
    have "spawned (sys ?x) \<le> spawned t"
      using spawned_issue [of "(sys ?x)\<lparr>server := srv\<rparr>" ops2] sys by simp
    then have "bounded_step x ?x" "bounded_step ?x ?y" using step second assms(3) sys by (auto intro: bounded_stepI)
    then show ?thesis
      using sys rest(3) by (intro exI [of _ ?y]) (auto simp: at_rest_def intro: converse_rtranclp_into_rtranclp)
  qed
next
  case (work tag r ok srv ops)
  obtain i e where "detagify tag = (i, e)" by fastforce
  then show ?thesis
    using work traced_work [of tag x i e r ok srv ops] assms(2,3)
    by (intro exI [of _ "x\<lparr>sys := t, in_flight := _, delivered := _\<rparr>"]) (auto simp: at_rest_def bounded_step_def table_free_def)
next
  case (broadcast order srv ops)
  let ?w = "x\<lparr>broadcast_at := Wanting\<rparr>" and ?h = "x\<lparr>broadcast_at := Holding\<rparr>"
    and ?v = "x\<lparr>broadcast_at := Visiting (set order)\<rparr>"
  have le: "spawned (sys x) \<le> spawned t" using broadcast(1) spawned_issue [of "(sys x)\<lparr>server := srv\<rparr>" ops] by simp
  have "traced_step x ?w" "traced_step ?w ?h" "traced_step ?h ?v"
    using traced_test [of x] traced_lock [of ?w] traced_check [of ?h] assms(2) broadcast(2,4) by (simp_all add: at_rest_def)
  then have "bounded_step x ?w" "bounded_step ?w ?h" "bounded_step ?h ?v"
    using le assms(3) by (simp_all add: bounded_step_def)
  then have start: "bounded_step\<^sup>*\<^sup>* x ?v" by (meson converse_rtranclp_into_rtranclp rtranclp.rtrancl_refl)
  obtain y where y: "bounded_step\<^sup>*\<^sup>* ?v y" "sys y = t" "broadcast_at y = Visiting {}" "accepter_at y = Serving"
    using visits [of ?v order srv ops] broadcast(1,3,5) assms(2,3) by (auto simp: at_rest_def)
  moreover have "bounded_step y (y\<lparr>broadcast_at := Away\<rparr>)" using traced_unlock [OF y(3)] y(2) assms(3) by (simp add: bounded_step_def)
  ultimately show ?thesis using start
    by (intro exI [of _ "y\<lparr>broadcast_at := Away\<rparr>"] conjI)
      (meson rtranclp.rtrancl_into_rtrancl rtranclp_trans, simp_all add: at_rest_def)
next
  case (stop order)
  then show ?thesis
    using traced_stop [of x order] assms(2,3)
    by (intro exI [of _ "x\<lparr>sys := t\<rparr>"]) (auto simp: at_rest_def bounded_step_def)
qed

section \<open>Properties\<close>

text \<open>A run: session 0 connects, a round of broadcasts begins, the server is stopped, and the round goes on to session 0.\<close>

lemma stopped_in_round:
  "\<exists>x. reachable traced_init bounded_step x \<and> \<not> running (server (sys x)) \<and> broadcast_at x = Visiting {1} \<and>
     in_flight x 0 = Some broadcast_message \<and>
     sessions (server (sys x)) 0 = Some (demo_session 0 SessionStatusWaitWriteDone)"
proof -
  let ?m = "\<lambda>s a b. \<lparr>sys = s, accepter_at = a, broadcast_at = b, in_flight = Map.empty, delivered = (\<lambda>_. [])\<rparr>"
  let ?none = "\<lparr>server = \<lparr>running = True, session_id_allocator = 0, sessions = Map.empty\<rparr>, conn_pending = {#}, rw_pending = {#}, spawned = 0\<rparr>"
  let ?one = "\<lparr>server = \<lparr>running = True, session_id_allocator = 1, sessions = [0 \<mapsto> demo_session 0 SessionStatusReadyToWrite]\<rparr>,
    conn_pending = {#}, rw_pending = {#tagify 0 SessionEventReadDone#}, spawned = 1\<rparr>"
  let ?U = "{0, 1 :: u64}"
  let ?down = "demo_connected\<lparr>server := (server demo_connected)\<lparr>running := False\<rparr>\<rparr>"
  note defs = demo_start_def demo_connected_def demo_session_def new_GreeterSession_def
  have "traced_init (?m ?none Entering Away)"
    by (simp add: traced_init_def Start_def initial_GreeterServer_def)
  then have r: "reachable traced_init bounded_step (?m ?none Entering Away)" by (rule reachable_init)
  have "bounded_step (?m ?none Entering Away) (?m ?none Spawning Away)"
    using traced_enter [of "?m ?none Entering Away"] by (simp add: bounded_step_def defs)
  note r1 = reachable_step [OF r this]
  have "bounded_step (?m ?none Spawning Away) (?m demo_start Serving Away)"
    using traced_spawn [of "?m ?none Spawning Away"] by (simp add: bounded_step_def AddNewSession_def table_free_def defs)
  note r2 = reachable_step [OF r1 this]
  have "bounded_step (?m demo_start Serving Away) (?m ?one Spawning Away)"
    using traced_accept [of "?m demo_start Serving Away" "tagify 0 SessionEventConnected" True]
    by (simp add: bounded_step_def accepter_event_connection update_session_def defs)
  note r3 = reachable_step [OF r2 this]
  have "bounded_step (?m ?one Spawning Away) (?m demo_connected Serving Away)"
    using traced_spawn [of "?m ?one Spawning Away"] by (simp add: bounded_step_def AddNewSession_def table_free_def defs flip: numeral_2_eq_2)
  note r4 = reachable_step [OF r3 this]
  have "bounded_step (?m demo_connected Serving Away) (?m demo_connected Serving Wanting)"
    using traced_test [of "?m demo_connected Serving Away"] by (simp add: bounded_step_def defs)
  note r5 = reachable_step [OF r4 this]
  have "bounded_step (?m demo_connected Serving Wanting) (?m demo_connected Serving Holding)"
    using traced_lock [of "?m demo_connected Serving Wanting"] by (simp add: bounded_step_def defs)
  note r6 = reachable_step [OF r5 this]
  have "bounded_step (?m demo_connected Serving Holding) (?m demo_connected Serving (Visiting ?U))"
    using traced_check [of "?m demo_connected Serving Holding"] by (simp add: bounded_step_def defs insert_commute)
  note r7 = reachable_step [OF r6 this]
  have "bounded_step (?m demo_connected Serving (Visiting ?U)) (?m ?down Serving (Visiting ?U))"
    using traced_stop [of "?m demo_connected Serving (Visiting ?U)" "[]"] by (simp add: bounded_step_def defs Stop_def)
  note down = reachable_step [OF r7 this]
  obtain srv ops where visit: "broadcast_round [0] (server ?down) = (srv, ops)" by fastforce
  let ?y = "(?m ?down Serving (Visiting ?U))\<lparr>sys := issue ops (?down\<lparr>server := srv\<rparr>), broadcast_at := Visiting (?U - {0}),
    in_flight := note_ops ops Map.empty\<rparr>"
  have "traced_step (?m ?down Serving (Visiting ?U)) ?y"
    using traced_visit [of "?m ?down Serving (Visiting ?U)" ?U 0 srv ops] visit by simp
  moreover have "spawned (sys ?y) \<le> 2 ^ 62" using visit by (auto simp: defs GetSession_def SendResponse_def update_session_def)
  ultimately have "bounded_step (?m ?down Serving (Visiting ?U)) ?y" by (simp only: bounded_step_def)
  note reachable_step [OF down this]
  moreover have "\<not> running (server (sys ?y))" "in_flight ?y 0 = Some broadcast_message"
    "sessions (server (sys ?y)) 0 = Some (demo_session 0 SessionStatusWaitWriteDone)"
    using visit by (auto simp: defs GetSession_def SendResponse_def update_session_def)
  moreover have "?U - {0} = {1}" by auto
  ultimately show ?thesis by (intro exI [of _ ?y]) simp
qed

text \<open>
  C1: The asynchronous server refines the hub. Whatever gRPC completes in whatever order, and however the accepter, the worker, the
  broadcast thread and \<open>Stop\<close> interleave under the locks they take, as long as at most \<open>2 ^ 62\<close> sessions are created: what can be
  seen of the server is a reachable state of the hub, and every step of the server either listens for a client, connects, refuses or closes one, puts the
  greeting of one request into one outbox, delivers the first message of one outbox, begins or ends a round of broadcasts, puts the
  broadcast into the outbox of one client that the round has not visited yet, stops, or cannot be seen. So no message is lost, doubled or
  reordered while its session lives; no round begins after the stop, but one in progress goes on; and nobody comes or goes during a round.
  These steps can do all that the coarser steps of the theory of the server say.
\<close>
theorem server_refines_hub:
  assumes "reachable traced_init bounded_step x"
  shows "reachable hub_init hub_step (hub_of x) \<and>
    (\<forall>y. bounded_step x y \<longrightarrow> hub_step (hub_of x) (hub_of y) \<or> hub_of y = hub_of x) \<and>
    (\<forall>t. server_step (sys x) t \<longrightarrow> at_rest x \<longrightarrow> spawned t \<le> 2 ^ 62 \<longrightarrow> (\<exists>y. bounded_step\<^sup>*\<^sup>* x y \<and> sys y = t \<and> at_rest y))"
  using hub.view_reachable [OF assms] hub.view_square [OF assms] server_step_traced by blast

theorem server_refines_hub_witness:
  "\<exists>x. reachable hub_init hub_step (hub_of x) \<and> \<not> up (hub_of x) \<and> round (hub_of x) = Some {1} \<and>
     outbox (hub_of x) 0 = Some [broadcast_message]"
proof -
  obtain x where x: "reachable traced_init bounded_step x" "\<not> running (server (sys x))" "broadcast_at x = Visiting {1}"
    "in_flight x 0 = Some broadcast_message" "sessions (server (sys x)) 0 = Some (demo_session 0 SessionStatusWaitWriteDone)"
    using stopped_in_round by blast
  from server_refines_hub [OF x(1)] have "reachable hub_init hub_step (hub_of x)" by simp
  then show ?thesis
    using x(2-5) by (intro exI [of _ x]) (simp add: hub_of_def outbox_of_def box_def demo_session_def)
qed

end
