(* ===== verification/Server_Shutdown.thy ===== *)
theory Server_Shutdown
  imports Greeter_Server
begin

text \<open>
  How the asynchronous server of \<open>src/grpcdemo/server_async.cc\<close> comes down (lines 191--345): the outer loops of the accepter, worker and
  broadcast threads with the places they can be at, \<open>mutex_sessions_\<close>, and \<open>Stop\<close> statement by statement in the signal
  handler, which runs on top of one of the threads. An operation that gRPC has completed waits in the queue, with its
  flag, until \<open>Next\<close> returns it; \<open>Next\<close> returns false when the queue is shut down and drained. After
  \<open>Server::Shutdown\<close> has returned no call is left, so that nothing completes with \<open>ok\<close> any more. gRPC demands that no work is added to a
  completion queue after its \<open>Shutdown\<close>; what happens then is not described, and the model stops there.

  A round of broadcasts is one step here (\<open>Greeter_Hub\<close> has it session by session). The tests of \<open>running_\<close>, the taking of the lock, the adding of a session and the handling of an event are steps of their own. The broadcast thread holds \<open>mutex_sessions_\<close> shared from
  the test in its loop to the end of the sleep; \<open>AddNewSession\<close>, \<open>RemoveSession\<close> and \<open>Stop\<close> take it exclusively.
\<close>

section \<open>The threads\<close>

datatype thread = MainThread | AccepterThread | WorkerThread | BroadcastThread

datatype accepter_pc = AccepterTest | AccepterAdding | AccepterNext | AccepterDone

datatype worker_pc = WorkerTest | WorkerNext | WorkerDone

datatype broadcast_pc = BroadcastTest | BroadcastLocking | BroadcastLocked | BroadcastSending | BroadcastSleep | BroadcastDone

datatype stop_pc = NoStop | StopLocking | StopServer | StopConn | StopReadwrite | StopDone

datatype fate = Alive | AssertionFailed | WorkAfterShutdown

record live =
  net :: system
  ready_conn :: "(u64 \<times> bool) multiset"
  ready_rw :: "(u64 \<times> bool) multiset"
  server_down :: bool
  conn_down :: bool
  rw_down :: bool
  accepter :: accepter_pc
  worker :: worker_pc
  broadcaster :: broadcast_pc
  stopping :: stop_pc
  host :: thread
  fate :: fate

definition live_start :: live where
  "live_start =
     \<lparr>net = \<lparr>server = fst (Start ''127.0.0.1:50001'' initial_GreeterServer), conn_pending = {#}, rw_pending = {#}, spawned = 0\<rparr>,
      ready_conn = {#}, ready_rw = {#}, server_down = False, conn_down = False, rw_down = False,
      accepter = AccepterTest, worker = WorkerTest, broadcaster = BroadcastTest, stopping = NoStop, host = MainThread, fate = Alive\<rparr>"

definition live_init :: "live \<Rightarrow> bool" where
  "live_init x \<longleftrightarrow> x = live_start"

abbreviation is_running :: "live \<Rightarrow> bool" where
  "is_running x \<equiv> running (server (net x))"

text \<open>A thread that runs the signal handler does nothing else.\<close>

definition handling :: "live \<Rightarrow> thread \<Rightarrow> bool" where
  "handling x th \<longleftrightarrow> stopping x \<notin> {NoStop, StopDone} \<and> host x = th"

definition table_free :: "live \<Rightarrow> bool" where
  "table_free x \<longleftrightarrow> broadcaster x \<notin> {BroadcastLocked, BroadcastSending, BroadcastSleep}"

fun thread_alive :: "live \<Rightarrow> thread \<Rightarrow> bool" where
  "thread_alive x MainThread = True"
| "thread_alive x AccepterThread = (accepter x \<noteq> AccepterDone)"
| "thread_alive x WorkerThread = (worker x \<noteq> WorkerDone)"
| "thread_alive x BroadcastThread = (broadcaster x \<noteq> BroadcastDone)"

text \<open>Starting operations: none may go to a queue that is shut down.\<close>

fun after_shutdown :: "live \<Rightarrow> stream_op \<Rightarrow> bool" where
  "after_shutdown x (RequestSayHello3 t) = conn_down x"
| "after_shutdown x (Read t) = rw_down x"
| "after_shutdown x (Write m t) = rw_down x"
| "after_shutdown x (TryCancel i) = False"

definition launch :: "stream_op list \<Rightarrow> live \<Rightarrow> live" where
  "launch ops x =
     (if list_ex (after_shutdown x) ops then x\<lparr>fate := WorkAfterShutdown\<rparr> else x\<lparr>net := issue ops (net x)\<rparr>)"

section \<open>The steps\<close>

definition take_conn :: "u64 \<Rightarrow> bool \<Rightarrow> GreeterServer \<Rightarrow> live \<Rightarrow> live" where
  "take_conn tag ok srv x = x\<lparr>net := (net x)\<lparr>server := srv, conn_pending := conn_pending (net x) - {#tag#}\<rparr>,
     ready_conn := ready_conn x - {#(tag, ok)#}\<rparr>"

definition take_rw :: "u64 \<Rightarrow> bool \<Rightarrow> GreeterServer \<Rightarrow> live \<Rightarrow> live" where
  "take_rw tag ok srv x = x\<lparr>net := (net x)\<lparr>server := srv, rw_pending := rw_pending (net x) - {#tag#}\<rparr>,
     ready_rw := ready_rw x - {#(tag, ok)#}\<rparr>"

abbreviation set_server :: "GreeterServer \<Rightarrow> live \<Rightarrow> live" where
  "set_server srv x \<equiv> x\<lparr>net := (net x)\<lparr>server := srv\<rparr>\<rparr>"

abbreviation session_at :: "live \<Rightarrow> u64 \<Rightarrow> GreeterSession option" where
  "session_at x tag \<equiv> GetSession (server (net x)) (fst (detagify tag))"

inductive accepter_step :: "live \<Rightarrow> live \<Rightarrow> bool" where
  accepter_begin: "accepter x = AccepterTest \<Longrightarrow> is_running x \<Longrightarrow> accepter_step x (x\<lparr>accepter := AccepterAdding\<rparr>)"
| accepter_add: "accepter x = AccepterAdding \<Longrightarrow> table_free x \<Longrightarrow>
     AddNewSession (server (net x)) = (srv, ops) \<Longrightarrow>
     accepter_step x (launch ops ((set_server srv x)\<lparr>accepter := AccepterNext\<rparr>))"
| accepter_end: "accepter x = AccepterTest \<Longrightarrow> \<not> is_running x \<Longrightarrow> accepter_step x (x\<lparr>accepter := AccepterDone\<rparr>)"
| accepter_event: "accepter x = AccepterNext \<Longrightarrow> (tag, ok) \<in># ready_conn x \<Longrightarrow> session_at x tag = None \<or> table_free x \<Longrightarrow>
     accepter_handle (server (net x)) tag ok = Inr (srv, ops) \<Longrightarrow>
     accepter_step x (launch ops (take_conn tag ok srv x))"
| accepter_assert: "accepter x = AccepterNext \<Longrightarrow> (tag, ok) \<in># ready_conn x \<Longrightarrow>
     accepter_handle (server (net x)) tag ok = Inl e \<Longrightarrow> accepter_step x (x\<lparr>fate := AssertionFailed\<rparr>)"
| accepter_drained: "accepter x = AccepterNext \<Longrightarrow> conn_down x \<Longrightarrow> conn_pending (net x) = {#} \<Longrightarrow>
     accepter_step x (x\<lparr>accepter := AccepterTest\<rparr>)"

inductive worker_step :: "live \<Rightarrow> live \<Rightarrow> bool" where
  worker_begin: "worker x = WorkerTest \<Longrightarrow> is_running x \<Longrightarrow> worker_step x (x\<lparr>worker := WorkerNext\<rparr>)"
| worker_end: "worker x = WorkerTest \<Longrightarrow> \<not> is_running x \<Longrightarrow> worker_step x (x\<lparr>worker := WorkerDone\<rparr>)"
| worker_event: "worker x = WorkerNext \<Longrightarrow> (tag, ok) \<in># ready_rw x \<Longrightarrow> ok \<or> session_at x tag = None \<or> table_free x \<Longrightarrow>
     worker_handle (store_request (server (net x)) (fst (detagify tag)) r) tag ok = Inr (srv, ops) \<Longrightarrow>
     worker_step x (launch ops (take_rw tag ok srv x))"
| worker_assert: "worker x = WorkerNext \<Longrightarrow> (tag, ok) \<in># ready_rw x \<Longrightarrow>
     worker_handle (store_request (server (net x)) (fst (detagify tag)) r) tag ok = Inl e \<Longrightarrow>
     worker_step x (x\<lparr>fate := AssertionFailed\<rparr>)"
| worker_drained: "worker x = WorkerNext \<Longrightarrow> rw_down x \<Longrightarrow> rw_pending (net x) = {#} \<Longrightarrow>
     worker_step x (x\<lparr>worker := WorkerTest\<rparr>)"

inductive broadcast_step :: "live \<Rightarrow> live \<Rightarrow> bool" where
  broadcast_begin: "broadcaster x = BroadcastTest \<Longrightarrow> is_running x \<Longrightarrow> broadcast_step x (x\<lparr>broadcaster := BroadcastLocking\<rparr>)"
| broadcast_lock: "broadcaster x = BroadcastLocking \<Longrightarrow> broadcast_step x (x\<lparr>broadcaster := BroadcastLocked\<rparr>)"
| broadcast_end: "broadcaster x = BroadcastTest \<Longrightarrow> \<not> is_running x \<Longrightarrow> broadcast_step x (x\<lparr>broadcaster := BroadcastDone\<rparr>)"
| broadcast_break: "broadcaster x = BroadcastLocked \<Longrightarrow> \<not> is_running x \<Longrightarrow> broadcast_step x (x\<lparr>broadcaster := BroadcastDone\<rparr>)"
| broadcast_check: "broadcaster x = BroadcastLocked \<Longrightarrow> is_running x \<Longrightarrow> broadcast_step x (x\<lparr>broadcaster := BroadcastSending\<rparr>)"
| broadcast_send: "broadcaster x = BroadcastSending \<Longrightarrow> distinct order \<Longrightarrow>
     set order = dom (sessions (server (net x))) \<Longrightarrow> broadcast_round order (server (net x)) = (srv, ops) \<Longrightarrow>
     broadcast_step x (launch ops ((set_server srv x)\<lparr>broadcaster := BroadcastSleep\<rparr>))"
| broadcast_wake: "broadcaster x = BroadcastSleep \<Longrightarrow> broadcast_step x (x\<lparr>broadcaster := BroadcastTest\<rparr>)"

text \<open>\<open>Stop\<close> in the handler. The calls it cancels may fail or not: gRPC completes what was outstanding either way.\<close>

inductive stop_step :: "live \<Rightarrow> live \<Rightarrow> bool" where
  stop_signal: "stopping x = NoStop \<Longrightarrow> is_running x \<Longrightarrow> thread_alive x th \<Longrightarrow>
     stop_step x ((set_server ((server (net x))\<lparr>running := False\<rparr>) x)\<lparr>stopping := StopLocking, host := th\<rparr>)"
| stop_cancel: "stopping x = StopLocking \<Longrightarrow> table_free x \<Longrightarrow> stop_step x (x\<lparr>stopping := StopServer\<rparr>)"
| stop_server: "stopping x = StopServer \<Longrightarrow> stop_step x (x\<lparr>server_down := True, stopping := StopConn\<rparr>)"
| stop_conn: "stopping x = StopConn \<Longrightarrow> stop_step x (x\<lparr>conn_down := True, stopping := StopReadwrite\<rparr>)"
| stop_readwrite: "stopping x = StopReadwrite \<Longrightarrow> stop_step x (x\<lparr>rw_down := True, stopping := StopDone\<rparr>)"

inductive grpc_step :: "live \<Rightarrow> live \<Rightarrow> bool" where
  complete_conn: "tag \<in># conn_pending (net x) - image_mset fst (ready_conn x) \<Longrightarrow> \<not> (server_down x \<and> ok) \<Longrightarrow>
     grpc_step x (x\<lparr>ready_conn := add_mset (tag, ok) (ready_conn x)\<rparr>)"
| complete_rw: "tag \<in># rw_pending (net x) - image_mset fst (ready_rw x) \<Longrightarrow> \<not> (server_down x \<and> ok) \<Longrightarrow>
     grpc_step x (x\<lparr>ready_rw := add_mset (tag, ok) (ready_rw x)\<rparr>)"

definition live_step :: "live \<Rightarrow> live \<Rightarrow> bool" where
  "live_step x y \<longleftrightarrow> fate x = Alive \<and>
     (\<not> handling x AccepterThread \<and> accepter_step x y \<or> \<not> handling x WorkerThread \<and> worker_step x y \<or>
      \<not> handling x BroadcastThread \<and> broadcast_step x y \<or> stop_step x y \<or> grpc_step x y)"

section \<open>The invariant\<close>

text \<open>What gRPC has completed was outstanding; the flags of \<open>Stop\<close> follow its statements.\<close>

definition queues_ok :: "live \<Rightarrow> bool" where
  "queues_ok x \<longleftrightarrow> image_mset fst (ready_conn x) \<subseteq># conn_pending (net x) \<and>
     image_mset fst (ready_rw x) \<subseteq># rw_pending (net x)"

definition stop_ok :: "live \<Rightarrow> bool" where
  "stop_ok x \<longleftrightarrow> (stopping x \<noteq> NoStop \<longrightarrow> \<not> is_running x) \<and>
     (stopping x \<in> {StopConn, StopReadwrite, StopDone} \<longrightarrow> server_down x) \<and>
     (stopping x \<in> {StopReadwrite, StopDone} \<longrightarrow> conn_down x) \<and> (stopping x = StopDone \<longrightarrow> rw_down x)"

definition sound :: "live \<Rightarrow> bool" where
  "sound x \<longleftrightarrow> spawned (net x) \<le> 2 ^ 62 \<longrightarrow> fate x \<noteq> AssertionFailed \<and> (fate x = Alive \<longrightarrow> system_inv (net x))"

definition live_inv :: "live \<Rightarrow> bool" where
  "live_inv x \<longleftrightarrow> sound x \<and> queues_ok x \<and> stop_ok x"

lemma launch_keeps [simp]:
  "stopping (launch ops x) = stopping x" "host (launch ops x) = host x" "server (net (launch ops x)) = server (net x)"
  "ready_conn (launch ops x) = ready_conn x" "ready_rw (launch ops x) = ready_rw x"
  "server_down (launch ops x) = server_down x" "conn_down (launch ops x) = conn_down x" "rw_down (launch ops x) = rw_down x"
  "accepter (launch ops x) = accepter x" "worker (launch ops x) = worker x" "broadcaster (launch ops x) = broadcaster x"
  by (simp_all add: launch_def)

lemma take_keeps [simp]:
  "stopping (take_conn tag ok srv x) = stopping x" "stopping (take_rw tag ok srv x) = stopping x"
  "server (net (take_conn tag ok srv x)) = srv" "server (net (take_rw tag ok srv x)) = srv"
  "server_down (take_conn tag ok srv x) = server_down x" "server_down (take_rw tag ok srv x) = server_down x"
  "conn_down (take_conn tag ok srv x) = conn_down x" "conn_down (take_rw tag ok srv x) = conn_down x"
  "rw_down (take_conn tag ok srv x) = rw_down x" "rw_down (take_rw tag ok srv x) = rw_down x"
  "fate (take_conn tag ok srv x) = fate x" "fate (take_rw tag ok srv x) = fate x"
  by (simp_all add: take_conn_def take_rw_def)

text \<open>Starting operations only adds to what is outstanding.\<close>

lemma pending_issue:
  "conn_pending s \<subseteq># conn_pending (issue ops s)" "rw_pending s \<subseteq># rw_pending (issue ops s)"
proof -
  have "conn_pending s \<subseteq># conn_pending (issue ops s) \<and> rw_pending s \<subseteq># rw_pending (issue ops s)"
  proof (induction ops arbitrary: s)
    case (Cons op ops)
    have "conn_pending s \<subseteq># conn_pending (issue_op op s)" "rw_pending s \<subseteq># rw_pending (issue_op op s)"
      by (cases op; simp)+
    with Cons [of "issue_op op s"] show ?case by (auto intro: subset_mset.order_trans)
  qed simp
  then show "conn_pending s \<subseteq># conn_pending (issue ops s)" "rw_pending s \<subseteq># rw_pending (issue ops s)" by simp_all
qed

lemma queues_launch: "queues_ok x \<Longrightarrow> queues_ok (launch ops x)"
  using pending_issue [where s = "net x" and ops = ops]
  by (auto simp: queues_ok_def launch_def intro: subset_mset.order_trans)

lemma sound_launch:
  "fate x = Alive \<Longrightarrow> (spawned (issue ops (net x)) \<le> 2 ^ 62 \<Longrightarrow> system_inv (issue ops (net x))) \<Longrightarrow> sound (launch ops x)"
  by (simp add: sound_def launch_def)

lemma sound_AliveD:
  "sound x \<Longrightarrow> fate x = Alive \<Longrightarrow> spawned (net x) \<le> n \<Longrightarrow> n \<le> 2 ^ 62 \<Longrightarrow> system_inv (net x)"
  by (simp add: sound_def)

text \<open>An event that is delivered was completed, and so outstanding.\<close>

lemma ready_pending:
  assumes "queues_ok x"
  shows "(tag, ok) \<in># ready_conn x \<Longrightarrow> tag \<in># conn_pending (net x)"
    "(tag, ok) \<in># ready_rw x \<Longrightarrow> tag \<in># rw_pending (net x)"
proof -
  show "tag \<in># conn_pending (net x)" if "(tag, ok) \<in># ready_conn x"
    using assms that mset_subset_eqD [of "image_mset fst (ready_conn x)" "conn_pending (net x)" tag]
    by (force simp: queues_ok_def)
  show "tag \<in># rw_pending (net x)" if "(tag, ok) \<in># ready_rw x"
    using assms that mset_subset_eqD [of "image_mset fst (ready_rw x)" "rw_pending (net x)" tag]
    by (force simp: queues_ok_def)
qed

lemma image_fst_take:
  assumes "(tag, ok) \<in># M" "image_mset fst M \<subseteq># P"
  shows "image_mset fst (M - {#(tag, ok)#}) \<subseteq># P - {#tag#}"
  using mset_subset_eq_mono_add_left_cancel [of "{#tag#}" "image_mset fst (M - {#(tag, ok)#})" "P - {#tag#}"] assms
    image_mset_add_mset [of fst "(tag, ok)" "M - {#(tag, ok)#}"]
  by (metis add_mset_add_single fst_conv insert_DiffM mset_subset_eq_insertD insert_subset_eq_iff)

lemma queues_take:
  "queues_ok x \<Longrightarrow> (tag, ok) \<in># ready_conn x \<Longrightarrow> queues_ok (take_conn tag ok srv x)"
  "queues_ok x \<Longrightarrow> (tag, ok) \<in># ready_rw x \<Longrightarrow> queues_ok (take_rw tag ok srv x)"
  by (simp_all add: queues_ok_def take_conn_def take_rw_def image_fst_take)

lemma image_fst_complete:
  assumes "tag \<in># P - image_mset fst M" "image_mset fst M \<subseteq># P"
  shows "image_mset fst (add_mset (tag, ok) M) \<subseteq># P"
  using assms by (simp add: insert_subset_eq_iff [symmetric] in_diff_count)
    (metis add_mset_add_single mset_subset_eq_add_left subset_mset.add_diff_inverse subset_mset.le_diff_conv2 single_subset_iff assms(1) union_commute)

section \<open>Every step keeps the invariant\<close>

lemma add_session_inv:
  assumes inv: "system_inv s" and add: "AddNewSession (server s) = (srv, ops)"
    and bound: "spawned (issue ops (s\<lparr>server := srv\<rparr>)) \<le> 2 ^ 62"
  shows "system_inv (issue ops (s\<lparr>server := srv\<rparr>))" (is "system_inv ?t")
proof -
  let ?new = "session_id_allocator (server s)"
  have t: "srv = (server s)\<lparr>session_id_allocator := ?new + 1,
      sessions := (sessions (server s))(?new \<mapsto> fst (new_GreeterSession ?new))\<rparr>"
    "ops = [RequestSayHello3 (tagify ?new SessionEventConnected)]"
    using add by (auto simp: AddNewSession_def new_GreeterSession_def Let_def)
  with bound have "spawned s < 2 ^ 62" by simp
  note new = fresh_id_slot [OF inv this]
  show ?thesis
  proof (rule slots_frame [OF inv, where T = "{?new}"])
    show "tags_ok ?t" using inv t new by (fastforce simp: tags_ok_def system_inv_def)
  qed (use inv t new in \<open>auto simp: system_inv_def ids_ok_def system_slot_ok_def new_GreeterSession_def intro: less_SucI\<close>)
qed

lemma handlers_succeed:
  assumes inv: "system_inv s"
  shows "tag \<in># conn_pending s \<Longrightarrow> accepter_handle (server s) tag ok \<noteq> Inl e"
    "tag \<in># rw_pending s \<Longrightarrow> worker_handle (store_request (server s) (fst (detagify tag)) r) tag ok \<noteq> Inl e"
proof -
  show "accepter_handle (server s) tag ok \<noteq> Inl e" if "tag \<in># conn_pending s"
    by (rule pending_connection [OF inv that]) (simp add: handle_connection)
  show "worker_handle (store_request (server s) (fst (detagify tag)) r) tag ok \<noteq> Inl e" if "tag \<in># rw_pending s"
    by (rule pending_transfer [OF inv that]) (simp add: handle_transfer)
qed

lemma spawned_issue_le: "spawned (issue ops s) \<le> n \<Longrightarrow> spawned s \<le> n"
  using spawned_issue [of s ops] by simp

lemma accepter_step_inv:
  assumes "accepter_step x y" "live_inv x" "fate x = Alive"
  shows "live_inv y"
  using assms(1)
proof cases
  case (accepter_add srv ops)
  have run: "running srv = is_running x" using accepter_add by (auto simp: AddNewSession_def new_GreeterSession_def Let_def)
  have "sound y" unfolding accepter_add(1)
  proof (rule sound_launch)
    assume b: "spawned (issue ops (net ((set_server srv x)\<lparr>accepter := AccepterNext\<rparr>))) \<le> 2 ^ 62"
    then have "system_inv (net x)"
      using assms(2,3) spawned_issue_le [OF b] by (simp add: live_inv_def sound_def)
    with add_session_inv [OF _ accepter_add(4)] b show "system_inv (issue ops (net ((set_server srv x)\<lparr>accepter := AccepterNext\<rparr>)))"
      by simp
  qed (simp add: assms(3))
  moreover have "queues_ok y" unfolding accepter_add(1)
    by (rule queues_launch) (use assms(2) in \<open>simp add: live_inv_def queues_ok_def\<close>)
  ultimately show ?thesis using assms(2) accepter_add run by (auto simp: live_inv_def stop_ok_def)
next
  case (accepter_event tag ok srv ops)
  note pend = ready_pending(1) [OF _ accepter_event(3)]
  have run: "running srv = is_running x"
    using accepter_event(5) by (auto simp: accepter_handle_def Let_def RemoveSession_def AddNewSession_def update_session_def
        new_GreeterSession_def split: option.splits if_splits prod.splits)
  have "sound y" unfolding accepter_event(1)
  proof (rule sound_launch)
    assume b: "spawned (issue ops (net (take_conn tag ok srv x))) \<le> 2 ^ 62"
    then have "system_inv (net x)"
      using assms(2,3) spawned_issue_le [OF b] by (simp add: live_inv_def sound_def take_conn_def)
    with accept_inv [OF _ pend accepter_event(5)] assms(2) b
    show "system_inv (issue ops (net (take_conn tag ok srv x)))" by (simp add: live_inv_def take_conn_def)
  qed (simp add: assms(3))
  then show ?thesis
    using assms(2) accepter_event(1,3) run by (simp add: live_inv_def queues_launch queues_take stop_ok_def)
next
  case (accepter_assert tag ok e)
  then have "\<not> spawned (net x) \<le> 2 ^ 62"
    using handlers_succeed(1) [of "net x" tag ok e] ready_pending(1) [of x tag ok] assms(2,3) by (auto simp: live_inv_def sound_def)
  then show ?thesis using assms(2) accepter_assert(1) by (simp add: live_inv_def sound_def queues_ok_def stop_ok_def)
qed (use assms(2) in \<open>auto simp: live_inv_def sound_def queues_ok_def stop_ok_def\<close>)

lemma worker_step_inv:
  assumes "worker_step x y" "live_inv x" "fate x = Alive"
  shows "live_inv y"
  using assms(1)
proof cases
  case (worker_event tag ok r srv ops)
  note pend = ready_pending(2) [OF _ worker_event(3)]
  have run: "running srv = is_running x"
    using worker_event(5) by (auto simp: worker_handle_def Let_def RemoveSession_def update_session_def store_request_def
        split: option.splits if_splits prod.splits)
  have "sound y" unfolding worker_event(1)
  proof (rule sound_launch)
    assume b: "spawned (issue ops (net (take_rw tag ok srv x))) \<le> 2 ^ 62"
    then have "system_inv (net x)"
      using assms(2,3) spawned_issue_le [OF b] by (simp add: live_inv_def sound_def take_rw_def)
    with work_inv [OF _ pend worker_event(5)] assms(2)
    show "system_inv (issue ops (net (take_rw tag ok srv x)))" by (simp add: live_inv_def take_rw_def)
  qed (simp add: assms(3))
  then show ?thesis
    using assms(2) worker_event(1,3) run by (simp add: live_inv_def queues_launch queues_take stop_ok_def)
next
  case (worker_assert tag ok r e)
  then have "\<not> spawned (net x) \<le> 2 ^ 62"
    using handlers_succeed(2) [of "net x" tag r ok e] ready_pending(2) [of x tag ok] assms(2,3) by (auto simp: live_inv_def sound_def)
  then show ?thesis using assms(2) worker_assert(1) by (simp add: live_inv_def sound_def queues_ok_def stop_ok_def)
qed (use assms(2) in \<open>auto simp: live_inv_def sound_def queues_ok_def stop_ok_def\<close>)

lemma running_broadcast_round: "broadcast_round order srv = (srv', ops) \<Longrightarrow> running srv' = running srv"
proof (induction order arbitrary: srv ops)
  case (Cons i order)
  then show ?case by (auto simp: update_session_def split: option.splits prod.splits)
qed simp

lemma broadcast_step_inv:
  assumes "broadcast_step x y" "live_inv x" "fate x = Alive"
  shows "live_inv y"
  using assms(1)
proof cases
  case (broadcast_send order srv ops)
  have "sound y" unfolding broadcast_send(1)
  proof (rule sound_launch)
    assume b: "spawned (issue ops (net ((set_server srv x)\<lparr>broadcaster := BroadcastSleep\<rparr>))) \<le> 2 ^ 62"
    then have "spawned (net x) \<le> 2 ^ 62" using spawned_issue_le [OF b] by simp
    with broadcast_inv [OF _ this broadcast_send(5)] assms(2,3)
    show "system_inv (issue ops (net ((set_server srv x)\<lparr>broadcaster := BroadcastSleep\<rparr>)))"
      by (simp add: live_inv_def sound_def)
  qed (simp add: assms(3))
  moreover have "queues_ok y" unfolding broadcast_send(1)
    by (rule queues_launch) (use assms(2) in \<open>simp add: live_inv_def queues_ok_def\<close>)
  ultimately show ?thesis
    using assms(2) broadcast_send running_broadcast_round [OF broadcast_send(5)] by (auto simp: live_inv_def stop_ok_def)
qed (use assms(2) in \<open>auto simp: live_inv_def sound_def queues_ok_def stop_ok_def\<close>)

lemma stop_step_inv: "stop_step x y \<Longrightarrow> live_inv x \<Longrightarrow> live_inv y"
  by (induction rule: stop_step.induct)
    (auto simp: live_inv_def sound_def queues_ok_def stop_ok_def system_inv_def ids_ok_def tags_ok_def system_slot_ok_def)

lemma grpc_step_inv: "grpc_step x y \<Longrightarrow> live_inv x \<Longrightarrow> live_inv y"
  by (induction rule: grpc_step.induct)
    (auto simp: live_inv_def sound_def queues_ok_def stop_ok_def image_fst_complete [simplified])

lemma live_init_inv: "live_init x \<Longrightarrow> live_inv x"
  by (simp add: live_init_def live_start_def live_inv_def sound_def queues_ok_def stop_ok_def Start_def
      initial_GreeterServer_def system_inv_def ids_ok_def tags_ok_def system_slot_ok_def)

interpretation live: invariant_system live_init live_step live_inv
  by unfold_locales
    (auto simp: live_step_def intro: live_init_inv accepter_step_inv worker_step_inv broadcast_step_inv stop_step_inv grpc_step_inv)

section \<open>After \<open>Stop\<close>\<close>

definition finished :: "live \<Rightarrow> bool" where
  "finished x \<longleftrightarrow> accepter x = AccepterDone \<and> worker x = WorkerDone \<and> broadcaster x = BroadcastDone"

fun accepter_rank :: "accepter_pc \<Rightarrow> nat" where
  "accepter_rank AccepterAdding = 3"
| "accepter_rank AccepterNext = 2"
| "accepter_rank AccepterTest = 1"
| "accepter_rank AccepterDone = 0"

fun worker_rank :: "worker_pc \<Rightarrow> nat" where
  "worker_rank WorkerNext = 2"
| "worker_rank WorkerTest = 1"
| "worker_rank WorkerDone = 0"

fun broadcast_rank :: "broadcast_pc \<Rightarrow> nat" where
  "broadcast_rank BroadcastSending = 3"
| "broadcast_rank BroadcastSleep = 2"
| "broadcast_rank BroadcastLocking = 2"
| "broadcast_rank BroadcastLocked = 1"
| "broadcast_rank BroadcastTest = 1"
| "broadcast_rank BroadcastDone = 0"

text \<open>What is left to do: an outstanding operation completes and is then delivered, and every thread leaves its loops.\<close>

definition queue_work :: "u64 multiset \<Rightarrow> (u64 \<times> bool) multiset \<Rightarrow> nat" where
  "queue_work P M = 2 * size P - size M"

definition shutdown_work :: "live \<Rightarrow> nat" where
  "shutdown_work x =
     queue_work (conn_pending (net x)) (ready_conn x) + queue_work (rw_pending (net x)) (ready_rw x) +
     accepter_rank (accepter x) + worker_rank (worker x) + broadcast_rank (broadcaster x) + (if fate x = Alive then 1 else 0)"

lemma issue_nothing: "conn_down x \<Longrightarrow> rw_down x \<Longrightarrow> \<not> list_ex (after_shutdown x) ops \<Longrightarrow> issue ops s = s"
proof (induction ops)
  case (Cons op ops)
  then show ?case by (cases op) simp_all
qed simp

lemma net_launch_down: "conn_down x \<Longrightarrow> rw_down x \<Longrightarrow> net (launch ops x) = net x"
  by (simp add: launch_def issue_nothing)

lemma fate_launch: "fate (launch ops x) = Alive \<Longrightarrow> fate x = Alive"
  by (simp add: launch_def split: if_splits)

text \<open>A completion, and taking it out of the queue, leave less to do.\<close>

lemma queue_work_take:
  assumes "(tag, ok) \<in># M" "image_mset fst M \<subseteq># P"
  shows "queue_work (P - {#tag#}) (M - {#(tag, ok)#}) < queue_work P M"
proof -
  have "size M \<le> size P" using size_mset_mono [OF assms(2)] by simp
  moreover have "size M = Suc (size (M - {#(tag, ok)#}))" using assms(1) by (simp add: size_Suc_Diff1)
  moreover have "tag \<in># P" using mset_subset_eqD [OF assms(2), of tag] assms(1) by force
  then have "size P = Suc (size (P - {#tag#}))" by (simp add: size_Suc_Diff1)
  ultimately show ?thesis unfolding queue_work_def by linarith
qed

lemma queue_work_complete:
  assumes "tag \<in># P - image_mset fst M" "image_mset fst M \<subseteq># P"
  shows "queue_work P (add_mset (tag, ok) M) < queue_work P M"
  using size_mset_mono [OF image_fst_complete [OF assms, of ok]] by (simp add: queue_work_def)

lemma work_take:
  assumes "queues_ok x" "conn_down x" "rw_down x"
  shows "(tag, ok) \<in># ready_conn x \<Longrightarrow> shutdown_work (launch ops (take_conn tag ok srv x)) < shutdown_work x"
    "(tag, ok) \<in># ready_rw x \<Longrightarrow> shutdown_work (launch ops (take_rw tag ok srv x)) < shutdown_work x"
proof -
  show "shutdown_work (launch ops (take_conn tag ok srv x)) < shutdown_work x" if "(tag, ok) \<in># ready_conn x"
    using queue_work_take [OF that, of "conn_pending (net x)"] assms fate_launch [of ops "take_conn tag ok srv x"]
    by (simp add: shutdown_work_def net_launch_down) (simp add: take_conn_def queues_ok_def)
  show "shutdown_work (launch ops (take_rw tag ok srv x)) < shutdown_work x" if "(tag, ok) \<in># ready_rw x"
    using queue_work_take [OF that, of "rw_pending (net x)"] assms fate_launch [of ops "take_rw tag ok srv x"]
    by (simp add: shutdown_work_def net_launch_down) (simp add: take_rw_def queues_ok_def)
qed

lemma work_launch:
  assumes "conn_down z" "rw_down z"
  shows "shutdown_work (launch ops z) \<le> shutdown_work z" "spawned (net (launch ops z)) = spawned (net z)"
  using assms fate_launch [of ops z] by (simp_all add: shutdown_work_def net_launch_down)

lemma down_decreases:
  assumes inv: "live_inv x" and stopped: "stopping x = StopDone" and step: "live_step x y"
  shows "shutdown_work y < shutdown_work x \<and> stopping y = StopDone \<and> spawned (net y) = spawned (net x)"
proof -
  have q: "queues_ok x" and down: "conn_down x" "rw_down x" "\<not> is_running x"
    using inv stopped by (auto simp: live_inv_def stop_ok_def)
  note take = work_take [OF q down(1,2)]
  have spawn: "spawned (net (launch ops (take_conn tag ok srv x))) = spawned (net x)"
    "spawned (net (launch ops (take_rw tag ok srv x))) = spawned (net x)" for ops tag ok srv
    by (simp_all add: net_launch_down down) (simp_all add: take_conn_def take_rw_def)
  have alive: "fate x = Alive" using step by (simp add: live_step_def)
  from step consider "accepter_step x y" | "worker_step x y" | "broadcast_step x y" | "stop_step x y" | "grpc_step x y"
    by (auto simp: live_step_def)
  then show ?thesis
  proof cases
    case 1
    then show ?thesis
    proof cases
      case (accepter_add srv ops)
      let ?z = "(set_server srv x)\<lparr>accepter := AccepterNext\<rparr>"
      have "shutdown_work ?z < shutdown_work x" using accepter_add(2) by (simp add: shutdown_work_def)
      then show ?thesis using accepter_add(1) work_launch [of ?z ops] down stopped by simp
    next
      case (accepter_event tag ok srv ops)
      then show ?thesis using take(1) spawn(1) stopped by simp
    qed (use down stopped alive in \<open>auto simp: shutdown_work_def\<close>)
  next
    case 2
    then show ?thesis
    proof cases
      case (worker_event tag ok r srv ops)
      then show ?thesis using take(2) spawn(2) stopped by simp
    qed (use down stopped alive in \<open>auto simp: shutdown_work_def\<close>)
  next
    case 3
    then show ?thesis
    proof cases
      case (broadcast_send order srv ops)
      let ?z = "(set_server srv x)\<lparr>broadcaster := BroadcastSleep\<rparr>"
      have "shutdown_work ?z < shutdown_work x" using broadcast_send(2) by (simp add: shutdown_work_def)
      then show ?thesis using broadcast_send(1) work_launch [of ?z ops] down stopped by simp
    qed (use down stopped in \<open>auto simp: shutdown_work_def\<close>)
  next
    case 4
    then show ?thesis by cases (use stopped in auto)
  next
    case 5
    then show ?thesis
      by cases (use q stopped queue_work_complete in \<open>auto simp: shutdown_work_def queues_ok_def\<close>)
  qed
qed

text \<open>While a thread has not finished there is something to do: nothing waits for ever.\<close>

lemma accepter_progress:
  assumes "live_inv x" "stopping x = StopDone" "accepter x \<noteq> AccepterDone" "table_free x"
  shows "\<exists>y. accepter_step x y \<or> grpc_step x y"
proof (cases "accepter x")
  case AccepterNext
  have down: "conn_down x" "server_down x" and q: "image_mset fst (ready_conn x) \<subseteq># conn_pending (net x)"
    using assms(1,2) by (auto simp: live_inv_def stop_ok_def queues_ok_def)
  consider "conn_pending (net x) = {#}" | tag ok where "(tag, ok) \<in># ready_conn x"
    | tag where "tag \<in># conn_pending (net x) - image_mset fst (ready_conn x)"
    by (cases "ready_conn x = {#}") (use multiset_nonemptyE in fastforce)+
  then show ?thesis
  proof cases
    case 1
    then show ?thesis using accepter_drained [OF AccepterNext down(1)] by blast
  next
    case (2 tag ok)
    then show ?thesis
      using accepter_event [OF AccepterNext 2] accepter_assert [OF AccepterNext 2] assms(4)
      by (cases "accepter_handle (server (net x)) tag ok") fastforce+
  next
    case (3 tag)
    then show ?thesis using complete_conn [of tag x False] by blast
  qed
next
  case AccepterTest
  then show ?thesis using accepter_end [of x] assms(1,2) by (auto simp: live_inv_def stop_ok_def)
next
  case AccepterAdding
  then show ?thesis
    using accepter_add [OF AccepterAdding assms(4)] by (cases "AddNewSession (server (net x))") blast
qed (use assms(3) in simp)

lemma worker_progress:
  assumes "live_inv x" "stopping x = StopDone" "worker x \<noteq> WorkerDone" "table_free x"
  shows "\<exists>y. worker_step x y \<or> grpc_step x y"
proof (cases "worker x")
  case WorkerNext
  have down: "rw_down x" "server_down x" and q: "image_mset fst (ready_rw x) \<subseteq># rw_pending (net x)"
    using assms(1,2) by (auto simp: live_inv_def stop_ok_def queues_ok_def)
  consider "rw_pending (net x) = {#}" | tag ok where "(tag, ok) \<in># ready_rw x"
    | tag where "tag \<in># rw_pending (net x) - image_mset fst (ready_rw x)"
    by (cases "ready_rw x = {#}") (use multiset_nonemptyE in fastforce)+
  then show ?thesis
  proof cases
    case 1
    then show ?thesis using worker_drained [OF WorkerNext down(1)] by blast
  next
    case (2 tag ok)
    then show ?thesis
      using worker_event [OF WorkerNext 2] worker_assert [OF WorkerNext 2] assms(4)
      by (cases "worker_handle (store_request (server (net x)) (fst (detagify tag)) undefined) tag ok") fastforce+
  next
    case (3 tag)
    then show ?thesis using complete_rw [of tag x False] by blast
  qed
next
  case WorkerTest
  then show ?thesis using worker_end [of x] assms(1,2) by (auto simp: live_inv_def stop_ok_def)
qed (use assms(3) in simp)

lemma down_progress:
  assumes "live_inv x" "stopping x = StopDone" "fate x = Alive" "\<not> finished x"
  shows "\<exists>y. live_step x y"
proof -
  have free: "\<not> handling x th" for th using assms(2) by (simp add: handling_def)
  have stopped: "\<not> is_running x" using assms(1,2) by (simp add: live_inv_def stop_ok_def)
  have "\<exists>y. broadcast_step x y" if "broadcaster x \<noteq> BroadcastDone"
  proof (cases "broadcaster x")
    case BroadcastSending
    obtain order where "distinct order" "set order = dom (sessions (server (net x)))"
      using finite_distinct_list [OF finite] by metis
    then show ?thesis
      using broadcast_send [OF BroadcastSending] by (cases "broadcast_round order (server (net x))") blast
  qed (use that broadcast_end [OF _ stopped] broadcast_break [OF _ stopped] broadcast_lock [of x] broadcast_wake [of x] in blast)+
  moreover have "table_free x" if "broadcaster x = BroadcastDone" using that by (simp add: table_free_def)
  ultimately show ?thesis
    using accepter_progress [OF assms(1,2)] worker_progress [OF assms(1,2)] assms(3,4) free
    by (auto simp: live_step_def finished_def)
qed

lemma down_run:
  assumes "(live_step ^^ n) x y" "live_inv x" "stopping x = StopDone"
  shows "n + shutdown_work y \<le> shutdown_work x \<and> live_inv y \<and> stopping y = StopDone \<and> spawned (net y) = spawned (net x)"
  using assms
proof (induction n arbitrary: y)
  case (Suc n)
  then obtain z where z: "(live_step ^^ n) x z" "live_step z y" by auto
  from Suc.IH [OF z(1) Suc.prems(2,3)] have "live_inv z" "stopping z = StopDone" "n + shutdown_work z \<le> shutdown_work x"
    "spawned (net z) = spawned (net x)" by simp_all
  with down_decreases [OF this(1,2) z(2)] live.inv_step [OF this(1) z(2)] show ?case by simp
qed simp

section \<open>Runs\<close>

text \<open>A signal that comes before the threads have done anything.\<close>

definition early_stop :: live where
  "early_stop = live_start\<lparr>net := (net live_start)\<lparr>server := (server (net live_start))\<lparr>running := False\<rparr>\<rparr>,
     stopping := StopDone, server_down := True, conn_down := True, rw_down := True\<rparr>"

lemma stop_run:
  assumes "reachable live_init live_step x" "fate x = Alive" "stopping x = NoStop" "is_running x" "table_free x"
  shows "reachable live_init live_step ((set_server ((server (net x))\<lparr>running := False\<rparr>) x)
    \<lparr>stopping := StopDone, host := MainThread, server_down := True, conn_down := True, rw_down := True\<rparr>)"
proof -
  define s1 where "s1 = (set_server ((server (net x))\<lparr>running := False\<rparr>) x)\<lparr>stopping := StopLocking, host := MainThread\<rparr>"
  define s2 where "s2 = s1\<lparr>stopping := StopServer\<rparr>"
  define s3 where "s3 = s2\<lparr>server_down := True, stopping := StopConn\<rparr>"
  define s4 where "s4 = s3\<lparr>conn_down := True, stopping := StopReadwrite\<rparr>"
  define s5 where "s5 = s4\<lparr>rw_down := True, stopping := StopDone\<rparr>"
  note defs = s1_def s2_def s3_def s4_def s5_def
  have "stop_step x s1" "stop_step s1 s2" "stop_step s2 s3" "stop_step s3 s4" "stop_step s4 s5"
    using assms(3-5) stop_signal [of x MainThread] stop_cancel [of s1] stop_server [of s2] stop_conn [of s3] stop_readwrite [of s4]
    by (simp_all add: defs table_free_def)
  then have "live_step x s1" "live_step s1 s2" "live_step s2 s3" "live_step s3 s4" "live_step s4 s5"
    using assms(2) by (simp_all add: live_step_def defs)
  then have "reachable live_init live_step s5" using assms(1) by (metis reachable_step)
  moreover have "s5 = (set_server ((server (net x))\<lparr>running := False\<rparr>) x)
    \<lparr>stopping := StopDone, host := MainThread, server_down := True, conn_down := True, rw_down := True\<rparr>"
    by (cases x) (simp add: defs)
  ultimately show ?thesis by simp
qed

lemma live_start_reachable: "reachable live_init live_step live_start"
  by (rule reachable_init) (simp add: live_init_def)

lemma early_stop_reachable: "reachable live_init live_step early_stop"
  using stop_run [OF live_start_reachable]
  by (simp add: live_start_def early_stop_def Start_def initial_GreeterServer_def table_free_def)

text \<open>A client that connects just before the signal.\<close>

definition late_client :: live where
  "late_client = live_start\<lparr>net := demo_start, accepter := AccepterNext, ready_conn := {#(tagify 0 SessionEventConnected, True)#}\<rparr>"

lemma late_client_reachable: "reachable live_init live_step late_client"
proof -
  define x where "x = live_start\<lparr>net := demo_start, accepter := AccepterNext\<rparr>"
  define w where "w = live_start\<lparr>accepter := AccepterAdding\<rparr>"
  have "accepter_step live_start w"
    unfolding w_def by (rule accepter_begin) (simp_all add: live_start_def Start_def initial_GreeterServer_def)
  then have "live_step live_start w" by (simp add: live_step_def live_start_def handling_def)
  moreover have "accepter_step w x"
    using accepter_add [of w "server demo_start" "[RequestSayHello3 (tagify 0 SessionEventConnected)]"]
    by (simp add: w_def x_def live_start_def demo_start_def demo_session_def Start_def initial_GreeterServer_def table_free_def
        AddNewSession_def new_GreeterSession_def launch_def)
  then have "live_step w x" by (simp add: live_step_def live_start_def handling_def w_def)
  moreover have "grpc_step x late_client"
    using complete_conn [of "tagify 0 SessionEventConnected" x True]
    by (simp add: x_def live_start_def late_client_def demo_start_def)
  then have "live_step x late_client" by (simp add: live_step_def x_def live_start_def)
  ultimately show ?thesis using live_start_reachable by (metis reachable_step)
qed

text \<open>The handler on top of the broadcast thread, which holds the lock the handler waits for.\<close>

definition stuck :: "live \<Rightarrow> bool" where
  "stuck y \<longleftrightarrow> stopping y = StopLocking \<and> host y = BroadcastThread \<and> broadcaster y = BroadcastLocked \<and> \<not> rw_down y"

lemma stuck_step:
  assumes "stuck y" "live_step y z"
  shows "stuck z"
proof -
  have held: "handling y BroadcastThread" "\<not> table_free y" using assms(1) by (simp_all add: stuck_def handling_def table_free_def)
  with assms(2) consider "accepter_step y z" | "worker_step y z" | "stop_step y z" | "grpc_step y z"
    by (auto simp: live_step_def)
  then show ?thesis
  proof cases
    case 1
    then show ?thesis by cases (use assms(1) in \<open>auto simp: stuck_def take_conn_def\<close>)
  next
    case 2
    then show ?thesis by cases (use assms(1) in \<open>auto simp: stuck_def take_rw_def\<close>)
  next
    case 3
    then show ?thesis by cases (use assms(1) held(2) in \<open>auto simp: stuck_def\<close>)
  next
    case 4
    then show ?thesis by cases (use assms(1) in \<open>auto simp: stuck_def\<close>)
  qed
qed

section \<open>Properties\<close>

text \<open>
  C4: The server comes down. Once \<open>Stop\<close> has returned, whatever gRPC completes and however the threads interleave, only a bounded number of
  steps is left (\<open>shutdown_work\<close> bounds it), and the threads do not block each other: as long as a thread has not left its
  loops something can happen. So all three threads end and \<open>main\<close> returns, unless a thread starts an operation on a
  queue that has been shut down, which gRPC forbids; the assertions of the threads do not fail on the way. At most \<open>2 ^ 62\<close>
  sessions are created.
\<close>
theorem server_comes_down:
  assumes "reachable live_init live_step x" and "stopping x = StopDone" and "spawned (net x) \<le> 2 ^ 62"
  shows "(\<forall>n y. (live_step ^^ n) x y \<longrightarrow> n \<le> shutdown_work x) \<and>
    (\<forall>y. live_step\<^sup>*\<^sup>* x y \<longrightarrow> fate y \<noteq> AssertionFailed \<and>
       ((\<exists>z. live_step y z) \<or> finished y \<or> fate y = WorkAfterShutdown))"
proof (intro conjI allI impI)
  note inv = live.reachable_inv [OF assms(1)]
  show "n \<le> shutdown_work x" if "(live_step ^^ n) x y" for n y
    using down_run [OF that inv assms(2)] by simp
  fix y
  assume "live_step\<^sup>*\<^sup>* x y"
  then obtain n where "(live_step ^^ n) x y" using rtranclp_imp_relpowp by fastforce
  then have y: "live_inv y" "stopping y = StopDone" "spawned (net y) \<le> 2 ^ 62"
    using down_run [OF _ inv assms(2)] assms(3) by auto
  then show "fate y \<noteq> AssertionFailed" by (simp add: live_inv_def sound_def)
  then show "(\<exists>z. live_step y z) \<or> finished y \<or> fate y = WorkAfterShutdown"
    using down_progress [OF y(1,2)] by (cases "fate y") auto
qed

theorem server_comes_down_witness:
  "\<not> (\<exists>y. (live_step ^^ 5) early_stop y) \<and> (\<exists>z. live_step early_stop z)"
proof -
  have "shutdown_work early_stop = 4" "stopping early_stop = StopDone" "spawned (net early_stop) \<le> 2 ^ 62"
    "\<not> finished early_stop" "fate early_stop = Alive"
    by (simp_all add: early_stop_def live_start_def shutdown_work_def queue_work_def finished_def)
  with server_comes_down [OF early_stop_reachable] show ?thesis by fastforce
qed

text \<open>
  C35: \<open>Stop\<close> can break the rule of gRPC that no work is added to a completion queue after its shutdown: after \<open>Stop\<close> has returned the
  accepter can still be handed a connection that was completed before, and since it does not test \<open>running_\<close> between two events it
  handles it: it starts a read on a queue that is shut down and asks for the next connection on the other.
\<close>
theorem work_added_after_shutdown:
  "\<exists>x tag srv ops. reachable live_init live_step x \<and> stopping x = StopDone \<and> \<not> is_running x \<and> fate x = Alive \<and>
     accepter x = AccepterNext \<and> (tag, True) \<in># ready_conn x \<and> snd (detagify tag) = SessionEventConnected \<and>
     accepter_handle (server (net x)) tag True = Inr (srv, ops) \<and>
     (\<exists>read_tag next_tag. ops = [Read read_tag, RequestSayHello3 next_tag]) \<and> rw_down x \<and> conn_down x \<and>
     live_step x (launch ops (take_conn tag True srv x)) \<and> fate (launch ops (take_conn tag True srv x)) = WorkAfterShutdown"
proof -
  define x where "x = (set_server ((server (net late_client))\<lparr>running := False\<rparr>) late_client)
    \<lparr>stopping := StopDone, host := MainThread, server_down := True, conn_down := True, rw_down := True\<rparr>"
  have x: "stopping x = StopDone" "\<not> is_running x" "fate x = Alive" "accepter x = AccepterNext"
    "(tagify 0 SessionEventConnected, True) \<in># ready_conn x" "rw_down x" "conn_down x" "table_free x"
    by (simp_all add: x_def late_client_def live_start_def demo_start_def table_free_def)
  have reach: "reachable live_init live_step x"
    unfolding x_def by (rule stop_run [OF late_client_reachable])
      (simp_all add: late_client_def live_start_def demo_start_def table_free_def)
  let ?ops = "[Read (tagify 0 SessionEventReadDone), RequestSayHello3 (tagify 1 SessionEventConnected)]"
  obtain srv where handle: "accepter_handle (server (net x)) (tagify 0 SessionEventConnected) True = Inr (srv, ?ops)"
    by (simp add: x_def late_client_def live_start_def demo_start_def demo_session_def handle_connection)
  let ?y = "launch ?ops (take_conn (tagify 0 SessionEventConnected) True srv x)"
  have "accepter_step x ?y" using accepter_event [OF x(4,5) _ handle] x(8) by blast
  then have "live_step x ?y" using x(1,3) by (simp add: live_step_def handling_def)
  moreover have "fate ?y = WorkAfterShutdown" using x(6) by (simp add: launch_def)
  moreover have "snd (detagify (tagify 0 SessionEventConnected)) = SessionEventConnected" by simp
  ultimately show ?thesis using reach x handle by blast
qed

text \<open>
  C36: \<open>Stop\<close> can deadlock with the thread it interrupts: when the signal is handled on the broadcast thread while that thread holds
  \<open>mutex_sessions_\<close> (it does so for its whole loop body, its sleep of a second included), the handler waits for ever for the
  lock of its own thread, and the server never comes down.
\<close>
theorem stop_deadlocks_on_broadcast_thread:
  "\<exists>x. reachable live_init live_step x \<and> stopping x = StopLocking \<and> host x = BroadcastThread \<and>
     \<not> (\<exists>y. live_step\<^sup>*\<^sup>* x y \<and> rw_down y) \<and> \<not> (\<exists>y. live_step\<^sup>*\<^sup>* x y \<and> broadcaster y = BroadcastDone)"
proof -
  define b where "b = live_start\<lparr>broadcaster := BroadcastLocking\<rparr>"
  define a where "a = b\<lparr>broadcaster := BroadcastLocked\<rparr>"
  define x where "x = (set_server ((server (net a))\<lparr>running := False\<rparr>) a)\<lparr>stopping := StopLocking, host := BroadcastThread\<rparr>"
  have "broadcast_step live_start b" "broadcast_step b a"
    using broadcast_begin [of live_start] broadcast_lock [of b]
    by (simp_all add: a_def b_def live_start_def Start_def initial_GreeterServer_def)
  then have "live_step live_start b" "live_step b a" by (simp_all add: live_step_def live_start_def handling_def b_def)
  moreover have "stop_step a x"
    unfolding x_def by (rule stop_signal) (simp_all add: a_def b_def live_start_def Start_def initial_GreeterServer_def)
  then have "live_step a x" by (simp add: live_step_def a_def b_def live_start_def)
  ultimately have "reachable live_init live_step x" using live_start_reachable by (metis reachable_step)
  moreover have "stuck x" by (simp add: stuck_def x_def a_def b_def live_start_def)
  have "stuck y" if "live_step\<^sup>*\<^sup>* x y" for y
    using that \<open>stuck x\<close> by (induction rule: rtranclp_induct) (auto intro: stuck_step)
  ultimately show ?thesis by (intro exI [of _ x]) (auto simp: stuck_def x_def)
qed

end
