(* ===== verification/Server_Main.thy ===== *)
theory Server_Main
  imports Server_Shutdown
begin

text \<open>
  \<open>main\<close> and \<open>signal_handler\<close> of \<open>src/grpcdemo/server_async.cc\<close> up to the point where \<open>Start\<close> starts the threads; from there on they are in
  \<open>Server_Shutdown\<close>. \<open>main\<close> installs the handler and calls \<open>Start\<close>, whose statements are taken one by one here; the handler runs
  the \<open>Stop\<close> of \<open>Greeter_Server\<close> between two of them, through the pointers that are set by then. No thread exists yet, so
  the lock of the session table is free. Whether \<open>BuildAndStart\<close> gives a server or, as when the address is in use, a null pointer is
  gRPC's and so an argument, \<open>built\<close>.
\<close>

section \<open>The model\<close>

record startup =
  srv :: GreeterServer
  cq_conn_set :: bool
  cq_readwrite_set :: bool
  server_set :: bool

definition Instance :: startup where
  "Instance = \<lparr>srv = initial_GreeterServer, cq_conn_set = False, cq_readwrite_set = False, server_set = False\<rparr>"

text \<open>The statements of \<open>Start\<close> that change the server; those that only fill the builder are left out.\<close>

definition Start_statements :: "bool \<Rightarrow> (startup \<Rightarrow> startup) list" where
  "Start_statements built =
     [\<lambda>s. s\<lparr>srv := (srv s)\<lparr>running := True\<rparr>\<rparr>,
      \<lambda>s. s\<lparr>cq_conn_set := True\<rparr>,
      \<lambda>s. s\<lparr>cq_readwrite_set := True\<rparr>,
      \<lambda>s. s\<lparr>server_set := built\<rparr>]"

text \<open>The calls of \<open>Stop\<close> through the pointers, in order.\<close>

fun pointer_set :: "startup \<Rightarrow> server_op \<Rightarrow> bool" where
  "pointer_set s ServerShutdown = server_set s"
| "pointer_set s ShutdownCqConn = cq_conn_set s"
| "pointer_set s ShutdownCqReadwrite = cq_readwrite_set s"
| "pointer_set s (StreamOp op) = True"

fun call_through :: "startup \<Rightarrow> server_op list \<Rightarrow> server_op list checked" where
  "call_through s [] = Inr []"
| "call_through s (op # ops) =
     (if \<not> pointer_set s op then Inl NullPointer else bind_checked (call_through s ops) (\<lambda>ops'. Inr (op # ops')))"

definition signal_handler :: "startup \<Rightarrow> (startup \<times> server_op list) checked" where
  "signal_handler s =
     (let (srv', ops) = Stop [] (srv s) in
      bind_checked (call_through s ops) (\<lambda>ops'. Inr (s\<lparr>srv := srv'\<rparr>, ops')))"

text \<open>\<open>main\<close> with one signal, after the first \<open>k\<close> statements of \<open>Start\<close>; before any, \<open>Start\<close> then finds the server not running.\<close>

definition server_main :: "bool \<Rightarrow> nat \<Rightarrow> (startup \<times> server_op list) checked" where
  "server_main built k =
     bind_checked (signal_handler (fold (\<lambda>f. f) (take k (Start_statements built)) Instance)) (\<lambda>(s, ops).
       Inr (fold (\<lambda>f. f) (drop k (Start_statements built)) s, ops))"

section \<open>One signal before the threads run\<close>

lemmas startup_defs = server_main_def Start_statements_def Instance_def signal_handler_def Stop_def initial_GreeterServer_def

text \<open>Without a signal the threads find the server as \<open>Server_Shutdown\<close> begins with it.\<close>

lemma started_is_live_start:
  "srv (fold (\<lambda>f. f) (Start_statements built) Instance) = server (net live_start)"
  by (simp add: startup_defs live_start_def Start_def)

text \<open>A signal before \<open>Start\<close> is ignored, and the server comes up.\<close>

lemma signal_before_start: "server_main built 0 = Inr (fold (\<lambda>f. f) (Start_statements built) Instance, [])"
  by (simp add: startup_defs)

text \<open>From the first statement on, \<open>Stop\<close> calls \<open>Shutdown\<close> through \<open>server_\<close>: a null pointer until the server is built, and when it could not be built.\<close>

lemma signal_during_start:
  assumes "0 < k" "k < 4 \<or> \<not> built"
  shows "server_main built k = Inl NullPointer"
proof -
  consider "k = 1" | "k = 2" | "k = 3" | "4 \<le> k" using assms(1) by linarith
  then show ?thesis
    using assms(2) by cases (simp_all add: startup_defs take_Cons drop_Cons split: nat.split)
qed

text \<open>Once the server is built, the signal shuts it and both queues down, and the threads start as in \<open>early_stop\<close>, which is reachable there.\<close>

lemma signal_after_build:
  assumes "4 \<le> k"
  shows "\<exists>s. server_main True k = Inr (s, [ServerShutdown, ShutdownCqConn, ShutdownCqReadwrite]) \<and>
    srv s = server (net early_stop) \<and> reachable live_init live_step early_stop"
proof -
  have all: "take k (Start_statements True) = Start_statements True" "drop k (Start_statements True) = []"
    using assms by (simp_all add: Start_statements_def)
  show ?thesis
    unfolding server_main_def all using early_stop_reachable
    by (simp add: startup_defs early_stop_def live_start_def Start_def)
qed

end
