(* ===== verification/Service_Impl.thy ===== *)
theory Service_Impl
  imports Greeter_Proto Prelude
begin

text \<open>
  The synchronous service \<open>ServiceImpl\<close> of \<open>src/grpcdemo/service_impl.cc\<close>. The streams of gRPC are
  inputs: the requests a reader returns before \<open>Read\<close> says there are no more, and the result of
  the \<open>i\<close>-th \<open>Write\<close>. Logging is left out; every method returns \<open>Status::OK\<close>.
\<close>

datatype status = StatusOK | StatusError int string

section \<open>The methods\<close>

definition quotedName :: "string \<Rightarrow> Config \<Rightarrow> string" where
  "quotedName name config =
     (let quote = (if double_quote config then CHR 0x22 else CHR 0x27)
      in [quote] @ name @ [quote])"

definition SayHello :: "HelloRequest \<Rightarrow> status \<times> HelloResponse" where
  "SayHello request =
     (StatusOK, \<lparr>resp_message = ''hello '' @ quotedName (req_name request) (req_config request)\<rparr>)"

fun SayHello1_loop :: "string \<Rightarrow> HelloRequest list \<Rightarrow> string" where
  "SayHello1_loop ss [] = ss"
| "SayHello1_loop ss (req # reqs) =
     SayHello1_loop (ss @ '' '' @ quotedName (req_name req) (req_config req)) reqs"

definition SayHello1 :: "HelloRequest list \<Rightarrow> status \<times> HelloResponse" where
  "SayHello1 reader = (StatusOK, \<lparr>resp_message = SayHello1_loop ''hello'' reader\<rparr>)"

text \<open>The responses handed to the writer; the loop stops at the first write that fails.\<close>

fun SayHello2_loop :: "nat \<Rightarrow> nat \<Rightarrow> HelloRequest \<Rightarrow> (nat \<Rightarrow> bool) \<Rightarrow> HelloResponse list" where
  "SayHello2_loop 0 i request Write_ok = []"
| "SayHello2_loop (Suc n) i request Write_ok =
     (let response = \<lparr>resp_message = ''hello'' @ quotedName (req_name request) (req_config request)\<rparr>
      in response # (if \<not> Write_ok i then [] else SayHello2_loop n (i + 1) request Write_ok))"

definition SayHello2 :: "HelloRequest \<Rightarrow> (nat \<Rightarrow> bool) \<Rightarrow> status \<times> HelloResponse list" where
  "SayHello2 request Write_ok = (StatusOK, SayHello2_loop 3 0 request Write_ok)"

text \<open>The result of \<open>Write\<close> is ignored here, so the loop answers every request it reads.\<close>

fun SayHello3_loop :: "HelloRequest list \<Rightarrow> HelloResponse list" where
  "SayHello3_loop [] = []"
| "SayHello3_loop (req # reqs) =
     (let ss = ''hello'' @ '' '' @ quotedName (req_name req) (req_config req)
      in \<lparr>resp_message = ss\<rparr> # SayHello3_loop reqs)"

definition SayHello3 :: "HelloRequest list \<Rightarrow> status \<times> HelloResponse list" where
  "SayHello3 stream = (StatusOK, SayHello3_loop stream)"

section \<open>Closed forms\<close>

lemma SayHello1_loop_eq:
  "SayHello1_loop ss reqs = ss @ concat (map (\<lambda>r. '' '' @ quotedName (req_name r) (req_config r)) reqs)"
  by (induction reqs arbitrary: ss) simp_all

lemma SayHello3_loop_eq: "SayHello3_loop reqs = map (snd \<circ> SayHello) reqs"
  by (induction reqs) (simp_all add: SayHello_def)

lemma quotedName_inject: "quotedName x c = quotedName y d \<longleftrightarrow> x = y \<and> double_quote c = double_quote d"
  by (cases "double_quote c"; cases "double_quote d") (simp_all add: quotedName_def Let_def)

lemma SayHello_inject: "SayHello r = SayHello r' \<longleftrightarrow> r = r'"
  by (cases r; cases r'; cases "req_config r"; cases "req_config r'")
    (auto simp: SayHello_def quotedName_inject)

section \<open>Properties\<close>

text \<open>
  The methods agree: the bidirectional stream answers every request, in order, with the message
  the unary call gives it, and the client stream with one request gives that message too; its
  message for a longer stream is the one for the first part extended by the rest. The message of
  the unary call determines its request.
\<close>

lemma service_methods_agree:
  "snd (SayHello3 reqs) = map (snd \<circ> SayHello) reqs \<and>
   SayHello1 [r] = SayHello r \<and>
   resp_message (snd (SayHello1 (reqs @ [r]))) =
     resp_message (snd (SayHello1 reqs)) @ drop 5 (resp_message (snd (SayHello r))) \<and>
   (SayHello r = SayHello r' \<longleftrightarrow> r = r')"
  by (simp add: SayHello_inject) (simp add: SayHello3_def SayHello3_loop_eq SayHello1_def SayHello1_loop_eq SayHello_def)

text \<open>
  \<open>SayHello2\<close> writes between one and three copies of one message, three exactly when its first two
  writes succeed; the message is that of the unary call without the blank after \<open>hello\<close>.
\<close>

lemma SayHello2_copies:
  "snd (SayHello2 r ok) =
     replicate (if ok 0 then if ok 1 then 3 else 2 else 1)
       \<lparr>resp_message = ''hello'' @ drop 6 (resp_message (snd (SayHello r)))\<rparr>"
  by (simp add: SayHello2_def SayHello_def numeral_eq_Suc Let_def)

end
