(* ===== verification/Streaming_Client.thy ===== *)
theory Streaming_Client
  imports Service_Impl
begin

text \<open>
  The two-thread client of \<open>src/grpcdemo/client_async.cpp\<close>, connected to \<open>SayHello3\<close> of \<open>Service_Impl\<close>. The read
  thread, the write thread and the signal handler, which calls \<open>stop\<close>, are steps of one relation;
  the other steps are gRPC's: the service answers the next request, a cancelled or lost connection
  makes the pending calls fail. The two lists of the state hold what is under way on the stream. The last section has \<open>main\<close> around it.
\<close>

section \<open>The client\<close>

datatype reader_pc = ReadIdle | Reading | ReadDone

datatype writer_pc = WriteIdle | WriteHead | Writing | WriteDone

record streaming =
  running :: bool
  reader :: reader_pc
  writer :: writer_pc
  returned :: bool
  cancelled :: bool
  logged :: "string list"
  write_errors :: nat
  written :: nat
  broken :: bool
  to_service :: "HelloRequest list"
  to_client :: "HelloResponse list"

definition new_streaming :: streaming where
  "new_streaming = \<lparr>running = False, reader = ReadIdle, writer = WriteIdle, returned = False,
     cancelled = False, logged = [], write_errors = 0, written = 0, broken = False,
     to_service = [], to_client = []\<rparr>"

definition run :: "streaming \<Rightarrow> streaming" where
  "run c = c\<lparr>running := True, reader := Reading, writer := WriteHead\<rparr>"

definition stop :: "streaming \<Rightarrow> streaming" where
  "stop c = (if \<not> running c then c else c\<lparr>running := False, cancelled := True\<rparr>)"

definition tony :: HelloRequest where
  "tony = default_HelloRequest\<lparr>req_name := ''tony''\<rparr>"

text \<open>The bodies of the two loops, for what \<open>Read\<close> and \<open>Write\<close> returned.\<close>

definition read_body :: "HelloResponse option \<Rightarrow> streaming \<Rightarrow> streaming" where
  "read_body r c =
     (case r of
        None \<Rightarrow> c\<lparr>reader := ReadDone\<rparr>
      | Some response \<Rightarrow> c\<lparr>logged := logged c @ [resp_message response]\<rparr>)"

definition write_head :: "streaming \<Rightarrow> streaming" where
  "write_head c = (if running c then c\<lparr>writer := Writing\<rparr> else c\<lparr>writer := WriteDone\<rparr>)"

definition write_body :: "bool \<Rightarrow> streaming \<Rightarrow> streaming" where
  "write_body ok c =
     (if \<not> ok then c\<lparr>write_errors := write_errors c + 1, writer := WriteDone\<rparr>
      else c\<lparr>writer := WriteHead\<rparr>)"

definition join_threads :: "streaming \<Rightarrow> streaming" where
  "join_threads c = c\<lparr>returned := True\<rparr>"

section \<open>The client on its stream\<close>

text \<open>Steps of the client's threads.\<close>

inductive client_step :: "streaming \<Rightarrow> streaming \<Rightarrow> bool" where
  read_message: "reader c = Reading \<Longrightarrow> to_client c = r # rs \<Longrightarrow>
     client_step c (read_body (Some r) (c\<lparr>to_client := rs\<rparr>))"
| read_fails: "reader c = Reading \<Longrightarrow> broken c \<Longrightarrow> client_step c (read_body None c)"
| write_loop: "writer c = WriteHead \<Longrightarrow> client_step c (write_head c)"
| write_succeeds: "writer c = Writing \<Longrightarrow> \<not> broken c \<Longrightarrow>
     client_step c (write_body True (c\<lparr>to_service := to_service c @ [tony], written := written c + 1\<rparr>))"
| write_fails: "writer c = Writing \<Longrightarrow> broken c \<Longrightarrow> client_step c (write_body False c)"
| joined_both: "reader c = ReadDone \<Longrightarrow> writer c = WriteDone \<Longrightarrow> \<not> returned c \<Longrightarrow> client_step c (join_threads c)"

text \<open>Steps of the signal handler, of the service and of the connection.\<close>

inductive other_step :: "streaming \<Rightarrow> streaming \<Rightarrow> bool" where
  signal: "other_step c (stop c)"
| service_answers: "to_service c = q # qs \<Longrightarrow>
     other_step c (c\<lparr>to_service := qs, to_client := to_client c @ [snd (SayHello q)]\<rparr>)"
| cancel_arrives: "cancelled c \<Longrightarrow> other_step c (c\<lparr>broken := True\<rparr>)"
| connection_lost: "other_step c (c\<lparr>broken := True\<rparr>)"

definition stream_step :: "streaming \<Rightarrow> streaming \<Rightarrow> bool" where
  "stream_step c c' \<longleftrightarrow> client_step c c' \<or> other_step c c'"

definition stream_init :: "streaming \<Rightarrow> bool" where
  "stream_init c \<longleftrightarrow> c = run new_streaming"

section \<open>What is on the stream\<close>

definition hello_tony :: string where
  "hello_tony = resp_message (snd (SayHello tony))"

text \<open>
  Nothing is lost, repeated or overtaken: what is logged, what waits to be read, what the service has not
  answered, in this order, are the answers to the requests written.
\<close>

definition stream_inv :: "streaming \<Rightarrow> bool" where
  "stream_inv c \<longleftrightarrow>
     logged c @ map resp_message (to_client c) @ map (resp_message \<circ> snd \<circ> SayHello) (to_service c) =
       replicate (written c) hello_tony \<and>
     write_errors c \<le> 1 \<and> (writer c \<noteq> WriteDone \<longrightarrow> write_errors c = 0) \<and>
     (returned c \<longrightarrow> reader c = ReadDone \<and> writer c = WriteDone) \<and>
     reader c \<noteq> ReadIdle \<and> writer c \<noteq> WriteIdle"

lemmas stream_defs = read_body_def write_head_def write_body_def join_threads_def stop_def

lemma client_step_inv: "client_step c c' \<Longrightarrow> stream_inv c \<Longrightarrow> stream_inv c'"
proof (induction rule: client_step.induct)
  case (write_succeeds c)
  then show ?case
    by (simp add: stream_inv_def stream_defs hello_tony_def replicate_append_same flip: append_assoc)
qed (auto simp: stream_inv_def stream_defs)

lemma other_step_inv: "other_step c c' \<Longrightarrow> stream_inv c \<Longrightarrow> stream_inv c'"
  by (induction rule: other_step.induct) (auto simp: stream_inv_def stream_defs)

interpretation stream_run: invariant_system stream_init stream_step stream_inv
proof
  fix c assume "stream_init c"
  then show "stream_inv c" by (simp add: stream_init_def stream_inv_def run_def new_streaming_def)
qed (auto simp: stream_step_def intro: client_step_inv other_step_inv)

section \<open>How the run ends\<close>

text \<open>What the threads still have to do on a broken stream.\<close>

definition stream_work :: "streaming \<Rightarrow> nat" where
  "stream_work c = 2 * length (to_service c) + length (to_client c) +
     (case reader c of ReadDone \<Rightarrow> 0 | _ \<Rightarrow> 1) +
     (case writer c of WriteDone \<Rightarrow> 0 | Writing \<Rightarrow> 1 | _ \<Rightarrow> 2) + (if returned c then 0 else 1)"

lemma client_step_work: "client_step c c' \<Longrightarrow> broken c \<Longrightarrow> broken c' \<and> stream_work c' < stream_work c"
  by (induction rule: client_step.induct) (auto simp: stream_defs stream_work_def)

lemma other_step_work: "other_step c c' \<Longrightarrow> broken c \<Longrightarrow> broken c' \<and> stream_work c' \<le> stream_work c"
  by (induction rule: other_step.induct) (auto simp: stream_defs stream_work_def)

lemma client_can_step:
  assumes "stream_inv c" "broken c" "\<not> returned c"
  shows "\<exists>c'. client_step c c'"
proof (cases "reader c")
  case Reading
  then show ?thesis using assms(2) read_fails by blast
next
  case ReadDone
  then show ?thesis
    using assms by (cases "writer c") (auto simp: stream_inv_def intro: client_step.intros)
qed (use assms(1) in \<open>simp add: stream_inv_def\<close>)

section \<open>Properties\<close>

text \<open>
  C25: in every state of a run the client has logged the greeting of the service as often as answers
  have come back, never more often than it wrote requests; what is missing is still on its way. It
  reports at most one write error.
\<close>

theorem streaming_end_to_end:
  assumes "reachable stream_init stream_step c"
  shows "logged c = replicate (length (logged c)) (''hello '' @ [CHR 0x27] @ ''tony'' @ [CHR 0x27]) \<and>
    length (logged c) + length (to_client c) + length (to_service c) = written c \<and> write_errors c \<le> 1"
proof -
  have inv: "logged c @ map resp_message (to_client c) @ map (resp_message \<circ> snd \<circ> SayHello) (to_service c) =
      replicate (written c) hello_tony" "write_errors c \<le> 1"
    using stream_run.reachable_inv [OF assms] by (simp_all add: stream_inv_def)
  then have "set (logged c) \<subseteq> {hello_tony}"
    by (metis Un_subset_iff set_append set_replicate_conv_if empty_subsetI order_refl)
  then have "logged c = replicate (length (logged c)) hello_tony"
    by (metis insert_subset order_refl replicate_eqI singletonD subset_eq)
  moreover have "length (logged c) + length (to_client c) + length (to_service c) = written c"
    using arg_cong [OF inv(1), of length] by simp
  ultimately show ?thesis
    using inv(2) by (simp add: hello_tony_def SayHello_def tony_def quotedName_def default_HelloRequest_def
        default_Config_def Let_def)
qed

theorem streaming_end_to_end_witness:
  "logged (read_body (Some (snd (SayHello tony)))
     ((run new_streaming)\<lparr>writer := WriteHead, written := 1\<rparr>)) = [''hello '' @ [CHR 0x27] @ ''tony'' @ [CHR 0x27]]"
proof -
  let ?c0 = "run new_streaming"
  let ?c1 = "?c0\<lparr>writer := Writing\<rparr>"
  let ?c2 = "?c0\<lparr>written := 1, to_service := [tony]\<rparr>"
  let ?c3 = "?c0\<lparr>written := 1, to_client := [snd (SayHello tony)]\<rparr>"
  let ?c4 = "read_body (Some (snd (SayHello tony))) (?c3\<lparr>to_client := []\<rparr>)"
  have "reachable stream_init stream_step ?c0" by (rule reachable_init) (simp add: stream_init_def)
  moreover have "stream_step ?c0 ?c1"
    using write_loop [of ?c0] by (simp add: stream_step_def run_def write_head_def new_streaming_def)
  moreover have "stream_step ?c1 ?c2"
    using write_succeeds [of ?c1] by (simp add: stream_step_def run_def write_body_def new_streaming_def)
  moreover have "stream_step ?c2 ?c3"
    using service_answers [of ?c2 tony "[]"] by (simp add: stream_step_def run_def new_streaming_def)
  moreover have "stream_step ?c3 ?c4"
    using read_message [of ?c3 "snd (SayHello tony)" "[]"] by (simp add: stream_step_def run_def new_streaming_def)
  ultimately have "reachable stream_init stream_step ?c4" by (metis reachable_step)
  from streaming_end_to_end [OF this] show ?thesis
    by (simp add: read_body_def run_def new_streaming_def)
qed

text \<open>
  C26: once the stream is broken, by \<open>stop\<close> or by a lost connection, \<open>run\<close> returns: until then one of its threads can
  always go on, each of their steps leaves less to do, and no step of anything else adds work.
\<close>

theorem streaming_run_returns:
  assumes "reachable stream_init stream_step c" "broken c"
  shows "(returned c \<or> (\<exists>c'. client_step c c')) \<and>
    (\<forall>c'. client_step c c' \<longrightarrow> broken c' \<and> stream_work c' < stream_work c) \<and>
    (\<forall>c'. other_step c c' \<longrightarrow> broken c' \<and> stream_work c' \<le> stream_work c)"
  using client_can_step [OF stream_run.reachable_inv [OF assms(1)] assms(2)]
    client_step_work [OF _ assms(2)] other_step_work [OF _ assms(2)] by blast

theorem streaming_run_returns_witness:
  "\<exists>c'. client_step ((run new_streaming)\<lparr>broken := True\<rparr>) c'"
proof -
  let ?c0 = "run new_streaming"
  have "reachable stream_init stream_step ?c0" by (rule reachable_init) (simp add: stream_init_def)
  moreover have "stream_step ?c0 (?c0\<lparr>broken := True\<rparr>)" by (simp add: stream_step_def connection_lost)
  ultimately have "reachable stream_init stream_step (?c0\<lparr>broken := True\<rparr>)" by (rule reachable_step)
  from streaming_run_returns [OF this] show ?thesis by (simp add: run_def new_streaming_def)
qed

section \<open>\<open>main\<close> and its signals\<close>

text \<open>
  \<open>main\<close> installs the handler for the two signals, one after the other, and calls \<open>run\<close> on the client. A signal whose handler is not installed
  ends the process; otherwise \<open>signalHandler\<close> calls \<open>stop\<close>.
\<close>

datatype signal_no = SIGINT | SIGTERM

datatype main_place = AtSigint | AtSigterm | AtRun | InsideRun | Exited int | Killed

record stream_main =
  place :: main_place
  the_client :: streaming

definition installed :: "main_place \<Rightarrow> signal_no set" where
  "installed pc = (case pc of AtSigint \<Rightarrow> {} | AtSigterm \<Rightarrow> {SIGINT} | _ \<Rightarrow> {SIGINT, SIGTERM})"

definition alive :: "main_place \<Rightarrow> bool" where
  "alive pc = (case pc of Exited n \<Rightarrow> False | Killed \<Rightarrow> False | _ \<Rightarrow> True)"

definition signalHandler :: "stream_main \<Rightarrow> stream_main" where
  "signalHandler m = m\<lparr>the_client := stop (the_client m)\<rparr>"

inductive stream_main_step :: "stream_main \<Rightarrow> stream_main \<Rightarrow> bool" where
  install_sigint: "place m = AtSigint \<Longrightarrow> stream_main_step m (m\<lparr>place := AtSigterm\<rparr>)"
| install_sigterm: "place m = AtSigterm \<Longrightarrow> stream_main_step m (m\<lparr>place := AtRun\<rparr>)"
| calls_run: "place m = AtRun \<Longrightarrow> stream_main_step m (m\<lparr>place := InsideRun, the_client := run (the_client m)\<rparr>)"
| inside_run: "place m = InsideRun \<Longrightarrow> stream_step (the_client m) c \<Longrightarrow> stream_main_step m (m\<lparr>the_client := c\<rparr>)"
| main_returns: "place m = InsideRun \<Longrightarrow> returned (the_client m) \<Longrightarrow> stream_main_step m (m\<lparr>place := Exited 0\<rparr>)"
| signal_handled: "alive (place m) \<Longrightarrow> s \<in> installed (place m) \<Longrightarrow> stream_main_step m (signalHandler m)"
| signal_kills: "alive (place m) \<Longrightarrow> s \<notin> installed (place m) \<Longrightarrow> stream_main_step m (m\<lparr>place := Killed\<rparr>)"

definition stream_main_init :: "stream_main \<Rightarrow> bool" where
  "stream_main_init m \<longleftrightarrow> m = \<lparr>place = AtSigint, the_client = new_streaming\<rparr>"

text \<open>
  Until \<open>run\<close> is called nothing changes the client, so that a signal handled before is lost; from then on the client is in a state of its run, and
  \<open>main\<close> returns 0 only when both threads have ended.
\<close>

definition stream_main_inv :: "stream_main \<Rightarrow> bool" where
  "stream_main_inv m =
     (case place m of
        InsideRun \<Rightarrow> reachable stream_init stream_step (the_client m)
      | Exited code \<Rightarrow> code = 0 \<and> reachable stream_init stream_step (the_client m) \<and> returned (the_client m)
      | Killed \<Rightarrow> True
      | _ \<Rightarrow> the_client m = new_streaming)"

lemma stop_reachable: "reachable stream_init stream_step c \<Longrightarrow> reachable stream_init stream_step (stop c)"
  by (erule reachable_step) (simp add: stream_step_def signal)

lemma stop_idle: "stop new_streaming = new_streaming"
  by (simp add: stop_def new_streaming_def)

lemma stream_main_inv_step:
  assumes "stream_main_inv m" "stream_main_step m m'"
  shows "stream_main_inv m'"
  using assms(2)
proof cases
  case calls_run
  then show ?thesis using assms(1) reachable_init [of stream_init "run new_streaming" stream_step]
    by (simp add: stream_main_inv_def stream_init_def)
next
  case (inside_run c)
  then show ?thesis using assms(1) by (auto simp: stream_main_inv_def intro: reachable_step)
next
  case (signal_handled s)
  then show ?thesis using assms(1)
    by (auto simp: stream_main_inv_def signalHandler_def alive_def stop_idle stop_reachable split: main_place.splits)
qed (use assms(1) in \<open>auto simp: stream_main_inv_def alive_def split: main_place.splits\<close>)

interpretation stream_program: invariant_system stream_main_init stream_main_step stream_main_inv
proof
  show "stream_main_inv m" if "stream_main_init m" for m using that by (simp add: stream_main_init_def stream_main_inv_def)
qed (rule stream_main_inv_step)

lemma stream_main_returns:
  assumes "reachable stream_main_init stream_main_step m" "place m = Exited code"
  shows "code = 0 \<and> reader (the_client m) = ReadDone \<and> writer (the_client m) = WriteDone"
proof -
  have main: "code = 0" "reachable stream_init stream_step (the_client m)" "returned (the_client m)"
    using stream_program.reachable_inv [OF assms(1)] assms(2) by (auto simp: stream_main_inv_def)
  then show ?thesis using stream_run.reachable_inv [OF main(2)] by (simp add: stream_inv_def)
qed

lemma early_signal_lost:
  assumes "reachable stream_main_init stream_main_step m" "place m \<in> {AtSigterm, AtRun}"
  shows "signalHandler m = m"
  using stream_program.reachable_inv [OF assms(1)] assms(2) by (auto simp: stream_main_inv_def signalHandler_def stop_idle)

end
