(* ===== verification/Async_Conversation.thy ===== *)
theory Async_Conversation
  imports Greeter_Server Streaming_Client
begin

text \<open>
  The two programs of \<open>src/grpcdemo\<close> that are made for each other, run together: the client of \<open>client_async.cpp\<close>, with its reading and its
  writing thread, on a stream that a session of \<open>server_async.cc\<close> serves. The client is that of \<open>Streaming_Client\<close> and the session
  that of \<open>Greeter_Session\<close>; what is new is the stream between them. A message that \<open>Write\<close> is called with arrives at the
  client in that order; a request the client has written is what the next completed read of the session yields. The
  broadcast thread offers its message to the session at any time. When the stream breaks the session is removed.
\<close>

section \<open>The two ends of a stream\<close>

record conversation =
  session :: GreeterSession
  client :: streaming
  served :: bool
  promised :: "HelloResponse list"

text \<open>\<open>promised\<close> remembers the responses the session was asked to send.\<close>

definition conversation_start :: "u64 \<Rightarrow> conversation" where
  "conversation_start i =
     \<lparr>session = fst (ProcessEvent (fst (new_GreeterSession i)) SessionEventConnected),
      client = run new_streaming, served = True, promised = []\<rparr>"

definition conversation_init :: "conversation \<Rightarrow> bool" where
  "conversation_init x \<longleftrightarrow> (\<exists>i. x = conversation_start i)"

definition deliver :: "stream_op list \<Rightarrow> streaming \<Rightarrow> streaming" where
  "deliver ops c = c\<lparr>to_client := to_client c @ writes_of ops\<rparr>"

definition session_does :: "session_input \<Rightarrow> conversation \<Rightarrow> conversation" where
  "session_does i x =
     (let (s', ops) = session_step (session x) i
      in x\<lparr>session := s', client := deliver ops (client x), promised := promised x @ responses_of i\<rparr>)"

inductive conversation_step :: "conversation \<Rightarrow> conversation \<Rightarrow> bool" where
  client_moves: "client_step (client x) c \<Longrightarrow> conversation_step x (x\<lparr>client := c\<rparr>)"
| client_signal: "conversation_step x (x\<lparr>client := stop (client x)\<rparr>)"
| request_read: "served x \<Longrightarrow> to_service (client x) = q # qs \<Longrightarrow>
     conversation_step x (session_does (OnReadDone q) (x\<lparr>client := (client x)\<lparr>to_service := qs\<rparr>\<rparr>))"
| write_completed: "served x \<Longrightarrow> write_pending (session x) \<Longrightarrow> conversation_step x (session_does OnWriteDone x)"
| broadcast_offered: "served x \<Longrightarrow> conversation_step x (session_does (OnSend broadcast_message) x)"
| stream_breaks: "conversation_step x (x\<lparr>client := (client x)\<lparr>broken := True\<rparr>\<rparr>)"
| session_removed: "broken (client x) \<Longrightarrow> conversation_step x (x\<lparr>served := False\<rparr>)"

section \<open>What is said\<close>

text \<open>
  What the client has logged, what is on its way and what the session has queued are, in this order, the responses promised; these
  are greetings and broadcasts, with one greeting for each request the session has read.
\<close>

definition said :: "conversation \<Rightarrow> string list" where
  "said x = logged (client x) @ map resp_message (to_client (client x) @ message_queue (session x))"

definition conversation_inv :: "conversation \<Rightarrow> bool" where
  "conversation_inv x \<longleftrightarrow> stream.quiet (session x) \<and>
     said x = map resp_message (promised x) \<and>
     set (promised x) \<subseteq> {greeting tony, broadcast_message} \<and> set (to_service (client x)) \<subseteq> {tony} \<and>
     count_list (promised x) (greeting tony) + length (to_service (client x)) = written (client x)"

lemma greetings_differ: "greeting tony \<noteq> broadcast_message" "greeting r \<noteq> snd (SayHello r)"
  by (simp_all add: greeting_def broadcast_message_def tony_def SayHello_def quotedName_def Let_def)

lemma session_does_inv:
  assumes quiet: "stream.quiet (session x)" and i: "i \<noteq> OnConnected"
  shows "stream.quiet (session (session_does i x)) \<and>
    said (session_does i x) = said x @ map resp_message (responses_of i) \<and>
    promised (session_does i x) = promised x @ responses_of i \<and>
    to_service (client (session_does i x)) = to_service (client x) \<and>
    written (client (session_does i x)) = written (client x)"
proof -
  obtain s' ops where step: "session_step (session x) i = (s', ops)" by fastforce
  have "stream.quiet s'" and sent: "writes_of ops @ message_queue s' = message_queue (session x) @ responses_of i"
    using session_step_quiet [OF quiet i step] by simp_all
  moreover have "said (session_does i x) =
      logged (client x) @ map resp_message (to_client (client x) @ (writes_of ops @ message_queue s'))"
    by (simp add: said_def session_does_def step deliver_def del: session_step.simps)
  ultimately show ?thesis
    unfolding sent by (simp add: said_def) (simp add: session_does_def step deliver_def del: session_step.simps)
qed

lemma client_moves_inv:
  assumes "client_step (client x) c" "conversation_inv x"
  shows "conversation_inv (x\<lparr>client := c\<rparr>)"
  using assms(1) by cases (use assms(2) in \<open>auto simp: conversation_inv_def said_def stream_defs\<close>)

lemma conversation_inv_step:
  assumes "conversation_inv x" "conversation_step x y"
  shows "conversation_inv y"
  using assms(2)
proof cases
  case (client_moves c)
  then show ?thesis using client_moves_inv [OF _ assms(1)] by simp
next
  case (request_read q qs)
  let ?x = "x\<lparr>client := (client x)\<lparr>to_service := qs\<rparr>\<rparr>"
  have "stream.quiet (session ?x)" using assms(1) by (simp add: conversation_inv_def)
  from session_does_inv [OF this, of "OnReadDone q"] request_read assms(1) show ?thesis
    by (auto simp: conversation_inv_def greetings_differ said_def [of ?x] said_def [of x])
next
  case write_completed
  have "stream.quiet (session x)" using assms(1) by (simp add: conversation_inv_def)
  from session_does_inv [OF this, of OnWriteDone] write_completed assms(1) show ?thesis
    by (auto simp: conversation_inv_def)
next
  case broadcast_offered
  have "stream.quiet (session x)" using assms(1) by (simp add: conversation_inv_def)
  from session_does_inv [OF this, of "OnSend broadcast_message"] broadcast_offered assms(1) show ?thesis
    by (auto simp: conversation_inv_def greetings_differ [symmetric])
qed (use assms(1) in \<open>auto simp: conversation_inv_def said_def stop_def\<close>)

interpretation conversation: invariant_system conversation_init conversation_step conversation_inv
proof
  show "conversation_inv x" if "conversation_init x" for x
    using that
    by (auto simp: conversation_init_def conversation_start_def conversation_inv_def said_def stream_quiet_iff connected_def
        session_inv_def new_GreeterSession_def run_def new_streaming_def)
qed (rule conversation_inv_step)

lemma resp_message_eq_iff: "resp_message a = resp_message b \<longleftrightarrow> a = (b :: HelloResponse)"
  by (cases a; cases b) simp

lemma count_messages: "count_list (map resp_message ms) (resp_message m) = count_list ms (m :: HelloResponse)"
  by (induction ms) (simp_all add: resp_message_eq_iff)

lemma texts: "resp_message (greeting tony) = ''hello tony''" "resp_message broadcast_message = ''this is a broadcast message''"
  by (simp_all add: greeting_def tony_def broadcast_message_def)

section \<open>Properties\<close>

text \<open>
  C5: The client and the session together: in every interleaving of the client's threads, its signal handler, the completions of the
  session and the broadcasts, the lines the client has logged are the first of the responses the session was asked to send, in
  order and without gaps; every line is the greeting or the broadcast, no more greetings are logged than requests were
  written, and when nothing is on its way or queued there is exactly one greeting for each request.
\<close>
theorem async_conversation:
  assumes "reachable conversation_init conversation_step x"
  shows "logged (client x) = map resp_message (take (length (logged (client x))) (promised x)) \<and>
    set (logged (client x)) \<subseteq> {''hello tony'', ''this is a broadcast message''} \<and>
    count_list (logged (client x)) ''hello tony'' \<le> written (client x) \<and>
    (to_service (client x) = [] \<and> to_client (client x) = [] \<and> message_queue (session x) = [] \<longrightarrow>
       count_list (logged (client x)) ''hello tony'' = written (client x))"
proof -
  let ?under_way = "map resp_message (to_client (client x) @ message_queue (session x))"
  have inv: "conversation_inv x" by (rule conversation.reachable_inv [OF assms])
  then have eq: "logged (client x) @ ?under_way = map resp_message (promised x)"
    by (simp add: conversation_inv_def said_def)
  then have prefix: "logged (client x) = map resp_message (take (length (logged (client x))) (promised x))"
    by (metis append_eq_conv_conj take_map)
  have "count_list (logged (client x)) ''hello tony'' + count_list ?under_way ''hello tony'' =
      count_list (promised x) (greeting tony)"
    using arg_cong [OF eq, of "\<lambda>ls. count_list ls ''hello tony''"] count_messages [of "promised x" "greeting tony"]
    by (simp add: texts)
  moreover have "set (logged (client x)) \<subseteq> resp_message ` {greeting tony, broadcast_message}"
    using arg_cong [OF eq, of set] inv by (auto simp: conversation_inv_def)
  ultimately show ?thesis using inv prefix by (auto simp: conversation_inv_def texts)
qed

text \<open>A run: the client writes one request, the session reads it and answers, and the client logs the greeting.\<close>

lemma one_greeting:
  "\<exists>x. reachable conversation_init conversation_step x \<and> logged (client x) = [''hello tony''] \<and> written (client x) = 1"
proof -
  define x0 where "x0 = conversation_start 0"
  define x1 where "x1 = x0\<lparr>client := (client x0)\<lparr>writer := Writing\<rparr>\<rparr>"
  define x2 where "x2 = x1\<lparr>client := (client x1)\<lparr>to_service := [tony], written := 1, writer := WriteHead\<rparr>\<rparr>"
  define x3 where "x3 = session_does (OnReadDone tony) (x2\<lparr>client := (client x2)\<lparr>to_service := []\<rparr>\<rparr>)"
  define x4 where "x4 = x3\<lparr>client := (client x3)\<lparr>to_client := [], logged := [''hello tony'']\<rparr>\<rparr>"
  note defs = x0_def x1_def x2_def x3_def x4_def conversation_start_def run_def new_streaming_def new_GreeterSession_def
    session_does_def deliver_def SendResponse_def stream_defs
  have "reachable conversation_init conversation_step x0"
    by (rule reachable_init) (auto simp: conversation_init_def x0_def)
  moreover have "conversation_step x0 x1"
    using client_moves [OF write_loop, of x0] by (simp add: defs)
  moreover have "conversation_step x1 x2"
    using client_moves [OF write_succeeds, of x1] by (simp add: defs)
  moreover have "conversation_step x2 x3"
    using request_read [of x2 tony "[]"] by (simp add: x3_def) (simp add: defs)
  moreover have "conversation_step x3 x4"
    using client_moves [OF read_message, of x3 "greeting tony" "[]"] by (simp add: defs texts)
  ultimately have "reachable conversation_init conversation_step x4" by (metis reachable_step)
  then show ?thesis by (intro exI [of _ x4]) (simp add: defs)
qed

theorem async_conversation_witness:
  "\<exists>x. reachable conversation_init conversation_step x \<and> written (client x) = 1 \<and>
     logged (client x) = map resp_message (take 1 (promised x))"
proof -
  obtain x where x: "reachable conversation_init conversation_step x" "logged (client x) = [''hello tony'']" "written (client x) = 1"
    using one_greeting by blast
  from async_conversation [OF x(1)] x show ?thesis by (intro exI [of _ x]) simp
qed

end
