(* ===== verification/Http_Parser.thy ===== *)
theory Http_Parser
  imports Prelude
begin

text \<open>
  The HTTP request parser of \<open>src/misc/fsmlite_test.cpp\<close>: the guards, actions and transition table
  of \<open>HttpRequestParser_fsm\<close>, and the loop of \<open>main\<close> that feeds it. The request and header classes of
  \<open>base::http\<close>, the string helpers of \<open>base::util\<close> and Abseil, and the engine \<open>fsmlite::fsm\<close> are not
  part of the repository: the record \<open>http_lib\<close> and the argument \<open>process_event\<close> stand for them.
\<close>

section \<open>Characters and numbers\<close>

text \<open>The C locale's \<open>isalpha\<close>, \<open>isdigit\<close>, \<open>isnumber\<close> and \<open>ispunct\<close>, and \<open>atoi\<close>.\<close>

definition code :: "char \<Rightarrow> nat" where
  "code c = of_char c"

definition isalpha :: "char \<Rightarrow> bool" where
  "isalpha c \<longleftrightarrow> 65 \<le> code c \<and> code c \<le> 90 \<or> 97 \<le> code c \<and> code c \<le> 122"

definition isdigit :: "char \<Rightarrow> bool" where
  "isdigit c \<longleftrightarrow> 48 \<le> code c \<and> code c \<le> 57"

definition isnumber :: "char \<Rightarrow> bool" where
  "isnumber c \<longleftrightarrow> isdigit c"

definition ispunct :: "char \<Rightarrow> bool" where
  "ispunct c \<longleftrightarrow> 33 \<le> code c \<and> code c \<le> 47 \<or> 58 \<le> code c \<and> code c \<le> 64 \<or>
     91 \<le> code c \<and> code c \<le> 96 \<or> 123 \<le> code c \<and> code c \<le> 126"

definition isspace :: "char \<Rightarrow> bool" where
  "isspace c \<longleftrightarrow> code c = 32 \<or> 9 \<le> code c \<and> code c \<le> 13"

fun decimal :: "int \<Rightarrow> string \<Rightarrow> int" where
  "decimal n [] = n"
| "decimal n (c # cs) = (if isdigit c then decimal (10 * n + int (code c) - 48) cs else n)"

text \<open>A value out of the range of \<open>int\<close> is undefined in C; here it is the decimal value.\<close>

definition atoi :: "string \<Rightarrow> int" where
  "atoi s =
     (case dropWhile isspace s of
        [] \<Rightarrow> 0
      | c # cs \<Rightarrow>
          if c = CHR ''-'' then - decimal 0 cs
          else if c = CHR ''+'' then decimal 0 cs
          else decimal 0 (c # cs))"

section \<open>The request and the libraries\<close>

record ('h, 'b) Request =
  req_method :: string
  req_uri :: string
  http_version_major :: int
  http_version_minor :: int
  headerList :: 'h
  req_body :: 'b

record ('h, 'b) http_lib =
  default_Request :: "('h, 'b) Request"
  POST :: string
  headerList_add :: "'h \<Rightarrow> string \<Rightarrow> string \<Rightarrow> 'h"
  contentLength :: "'h \<Rightarrow> string"
  headerList_get :: "'h \<Rightarrow> string \<Rightarrow> string option"
  setBody :: "('h, 'b) Request \<Rightarrow> string \<Rightarrow> string \<Rightarrow> ('h, 'b) Request"
  trim :: "string \<Rightarrow> string"
  toLowerCase :: "string \<Rightarrow> string"
  StrSplitColon1 :: "string \<Rightarrow> string list"

section \<open>The parser's state\<close>

datatype ParseState =
    Error | Start | Method | Uri | Http | Major | Minor | Expecting_newline_1
  | Header_line_start | Header_line | Expecting_newline_2 | Expecting_newline_3
  | Expecting_body | Finish

text \<open>
  \<open>buffer_\<close> points to one of three strings of the parser: it starts at \<open>request_.method\<close> and every
  assignment to it takes the address of \<open>request_.uri\<close> or of \<open>temp_\<close>, so it is never null.
\<close>

datatype buffer_ref = ToMethod | ToUri | ToTemp

record ('h, 'b) parser =
  request :: "('h, 'b) Request"
  temp :: string
  buffer :: buffer_ref

definition new_parser :: "('h, 'b) http_lib \<Rightarrow> ('h, 'b) parser" where
  "new_parser lib = \<lparr>request = default_Request lib, temp = '''', buffer = ToMethod\<rparr>"

definition deref :: "('h, 'b) parser \<Rightarrow> string" where
  "deref p =
     (case buffer p of
        ToMethod \<Rightarrow> req_method (request p)
      | ToUri \<Rightarrow> req_uri (request p)
      | ToTemp \<Rightarrow> temp p)"

definition assign :: "('h, 'b) parser \<Rightarrow> string \<Rightarrow> ('h, 'b) parser" where
  "assign p v =
     (case buffer p of
        ToMethod \<Rightarrow> p\<lparr>request := (request p)\<lparr>req_method := v\<rparr>\<rparr>
      | ToUri \<Rightarrow> p\<lparr>request := (request p)\<lparr>req_uri := v\<rparr>\<rparr>
      | ToTemp \<Rightarrow> p\<lparr>temp := v\<rparr>)"

section \<open>Guards\<close>

type_synonym ('h, 'b) guard = "('h, 'b) parser \<Rightarrow> char \<Rightarrow> bool"
type_synonym ('h, 'b) action = "('h, 'b) parser \<Rightarrow> char \<Rightarrow> ('h, 'b) parser"

definition isAlpha :: "('h, 'b) guard" where
  "isAlpha p c \<longleftrightarrow> isalpha c"

definition isDigit :: "('h, 'b) guard" where
  "isDigit p c \<longleftrightarrow> isdigit c"

definition isSpace :: "('h, 'b) guard" where
  "isSpace p c \<longleftrightarrow> CHR '' '' = c"

definition isCarryReturn :: "('h, 'b) guard" where
  "isCarryReturn p c \<longleftrightarrow> CHR 0x0D = c"

definition isNewLine :: "('h, 'b) guard" where
  "isNewLine p c \<longleftrightarrow> CHR 0x0A = c"

definition isSlash :: "('h, 'b) guard" where
  "isSlash p c \<longleftrightarrow> CHR ''/'' = c"

definition isValidMethod :: "('h, 'b) guard" where
  "isValidMethod p c \<longleftrightarrow>
     CHR '' '' = c \<and> (''GET'' = req_method (request p) \<or> ''POST'' = req_method (request p))"

definition isValidUriChar :: "('h, 'b) guard" where
  "isValidUriChar p c \<longleftrightarrow> isalpha c \<or> isnumber c \<or> ispunct c"

definition isValidUri :: "('h, 'b) guard" where
  "isValidUri p c \<longleftrightarrow> CHR '' '' = c"

definition isValidHttp :: "('h, 'b) http_lib \<Rightarrow> ('h, 'b) guard" where
  "isValidHttp lib p c \<longleftrightarrow> CHR ''/'' = c \<and> ''http'' = toLowerCase lib (temp p)"

text \<open>
  The two version guards store the number in \<open>req\<close>, which \<open>auto\<close> makes a copy of \<open>request_\<close>: the
  copy is dropped when the guard returns.
\<close>

definition isValidMajor :: "('h, 'b) guard" where
  "isValidMajor p c \<longleftrightarrow>
     (if CHR ''.'' \<noteq> c then False
      else let req = (request p)\<lparr>http_version_major := atoi (temp p)\<rparr> in True)"

definition isValidMinor :: "('h, 'b) guard" where
  "isValidMinor p c \<longleftrightarrow>
     (if CHR 0x0D \<noteq> c then False
      else let req = (request p)\<lparr>http_version_minor := atoi (temp p)\<rparr> in True)"

definition bodySize :: "('h, 'b) http_lib \<Rightarrow> ('h, 'b) parser \<Rightarrow> int" where
  "bodySize lib p = atoi (contentLength lib (headerList (request p)))"

definition isNeedBody :: "('h, 'b) http_lib \<Rightarrow> ('h, 'b) guard" where
  "isNeedBody lib p c \<longleftrightarrow>
     CHR 0x0A = c \<and> req_method (request p) = POST lib \<and> 0 < bodySize lib p"

text \<open>The comparison of a \<open>size_t\<close> with an \<open>int\<close> converts the \<open>int\<close> modulo \<open>2 ^ 64\<close>.\<close>

definition needMoreBody :: "('h, 'b) http_lib \<Rightarrow> ('h, 'b) guard" where
  "needMoreBody lib p c \<longleftrightarrow> int (length (deref p)) + 1 < bodySize lib p mod 2 ^ 64"

section \<open>Actions\<close>

definition noAction :: "('h, 'b) action" where
  "noAction p c = p"

definition errorAction :: "('h, 'b) action" where
  "errorAction p c = p"

definition appendToBuffer :: "('h, 'b) action" where
  "appendToBuffer p c = assign p (deref p @ [c])"

definition onMethodFinish :: "('h, 'b) action" where
  "onMethodFinish p c = p\<lparr>buffer := ToUri\<rparr>"

definition clearTemp :: "('h, 'b) parser \<Rightarrow> ('h, 'b) parser" where
  "clearTemp p = p\<lparr>temp := '''', buffer := ToTemp\<rparr>"

definition onUriFinish :: "('h, 'b) action" where
  "onUriFinish p c = clearTemp p"

definition onHttpFinish :: "('h, 'b) action" where
  "onHttpFinish p c = clearTemp p"

definition onMajorFinish :: "('h, 'b) action" where
  "onMajorFinish p c = clearTemp p"

definition onMinorFinish :: "('h, 'b) action" where
  "onMinorFinish p c = clearTemp p"

definition onHeaderLineStart :: "('h, 'b) action" where
  "onHeaderLineStart p c = clearTemp p"

text \<open>\<open>StrSplit\<close> returns at least one piece, so that \<open>parts[0]\<close> exists: the first branch is not taken.\<close>

definition onHeaderLineFinish :: "('h, 'b) http_lib \<Rightarrow> ('h, 'b) action" where
  "onHeaderLineFinish lib p c =
     (case StrSplitColon1 lib (deref p) of
        [] \<Rightarrow> p
      | part0 # parts \<Rightarrow>
          let name = trim lib part0 in
          if 0 < length name
          then let value = (case parts of [] \<Rightarrow> '''' | part1 # _ \<Rightarrow> part1)
               in p\<lparr>request := (request p)
                    \<lparr>headerList := headerList_add lib (headerList (request p)) name (trim lib value)\<rparr>\<rparr>
          else p)"

definition onBodyStart :: "('h, 'b) action" where
  "onBodyStart p c = clearTemp p"

definition onBodyFinish :: "('h, 'b) http_lib \<Rightarrow> ('h, 'b) action" where
  "onBodyFinish lib p c =
     (let p1 = assign p (deref p @ [c]);
          content_type = (case headerList_get lib (headerList (request p1)) ''Content-Type'' of
              None \<Rightarrow> ''text/plain'' | Some v \<Rightarrow> v);
          p2 = p1\<lparr>request := setBody lib (request p1) (deref p1) content_type\<rparr>
      in assign p2 '''')"

section \<open>The transition table\<close>

datatype ('h, 'b) row =
  Row (row_source: ParseState) (row_target: ParseState)
    (row_action: "('h, 'b) action") (row_guard: "('h, 'b) guard option")

definition transition_table :: "('h, 'b) http_lib \<Rightarrow> ('h, 'b) row list" where
  "transition_table lib = [
     Row Start Method appendToBuffer (Some isAlpha),
     Row Start Error errorAction None,
     Row Method Method appendToBuffer (Some isAlpha),
     Row Method Uri onMethodFinish (Some isValidMethod),
     Row Method Error errorAction None,
     Row Uri Uri appendToBuffer (Some isValidUriChar),
     Row Uri Http onUriFinish (Some isSpace),
     Row Uri Error errorAction None,
     Row Http Http appendToBuffer (Some isAlpha),
     Row Http Major onHttpFinish (Some (isValidHttp lib)),
     Row Http Error errorAction None,
     Row Major Major appendToBuffer (Some isDigit),
     Row Major Minor onMajorFinish (Some isValidMajor),
     Row Major Error errorAction None,
     Row Minor Minor appendToBuffer (Some isDigit),
     Row Minor Expecting_newline_1 onMinorFinish (Some isValidMinor),
     Row Minor Error errorAction None,
     Row Expecting_newline_1 Header_line_start onHeaderLineStart (Some isNewLine),
     Row Expecting_newline_1 Error errorAction None,
     Row Header_line_start Expecting_newline_3 noAction (Some isCarryReturn),
     Row Header_line_start Header_line appendToBuffer (Some isAlpha),
     Row Header_line_start Error errorAction None,
     Row Header_line Expecting_newline_2 noAction (Some isCarryReturn),
     Row Header_line Error errorAction (Some isNewLine),
     Row Header_line Header_line appendToBuffer None,
     Row Expecting_newline_2 Header_line_start (onHeaderLineFinish lib) (Some isNewLine),
     Row Expecting_newline_2 Error errorAction None,
     Row Expecting_newline_3 Expecting_body onBodyStart (Some (isNeedBody lib)),
     Row Expecting_newline_3 Finish noAction (Some isNewLine),
     Row Expecting_newline_3 Error errorAction None,
     Row Expecting_body Expecting_body appendToBuffer (Some (needMoreBody lib)),
     Row Expecting_body Finish (onBodyFinish lib) None]"

definition row_matches :: "ParseState \<Rightarrow> ('h, 'b) parser \<Rightarrow> char \<Rightarrow> ('h, 'b) row \<Rightarrow> bool" where
  "row_matches st p c r \<longleftrightarrow>
     row_source r = st \<and> (case row_guard r of None \<Rightarrow> True | Some g \<Rightarrow> g p c)"

text \<open>
  The documented rule of \<open>fsmlite\<close>: the first row of the table whose source is the current state
  and whose guard, if it has one, holds is taken: its action runs and its target becomes the
  current state. Nothing is said of an event that no row takes.
\<close>

type_synonym ('h, 'b) engine =
  "('h, 'b) row list \<Rightarrow> ParseState \<times> ('h, 'b) parser \<Rightarrow> char \<Rightarrow> ParseState \<times> ('h, 'b) parser"

definition first_match :: "('h, 'b) engine \<Rightarrow> bool" where
  "first_match process_event \<longleftrightarrow>
     (\<forall>rows st p c r. find (row_matches st p c) rows = Some r \<longrightarrow>
        process_event rows (st, p) c = (row_target r, row_action r p c))"

section \<open>The loop of \<open>main\<close>\<close>

fun parse_loop ::
  "('h, 'b) engine \<Rightarrow> ('h, 'b) http_lib \<Rightarrow> ParseState \<times> ('h, 'b) parser \<Rightarrow> string \<Rightarrow>
     bool \<times> ParseState \<times> ('h, 'b) parser" where
  "parse_loop process_event lib sp [] = (False, sp)"
| "parse_loop process_event lib sp (c # cs) =
     (let sp' = process_event (transition_table lib) sp c in
      if fst sp' = Error then (True, sp')
      else if fst sp' = Finish then (False, sp')
      else parse_loop process_event lib sp' cs)"

definition parse_request ::
  "('h, 'b) engine \<Rightarrow> ('h, 'b) http_lib \<Rightarrow> string \<Rightarrow> bool \<times> ParseState \<times> ('h, 'b) parser" where
  "parse_request process_event lib reqBuf =
     parse_loop process_event lib (Start, new_parser lib) reqBuf"

text \<open>The lines of a request, as a formatter prints them.\<close>

definition crlf :: string where
  "crlf = [CHR 0x0D, CHR 0x0A]"

definition request_line :: "string \<Rightarrow> string \<Rightarrow> string \<Rightarrow> string \<Rightarrow> string \<Rightarrow> string" where
  "request_line m u scheme major minor =
     m @ '' '' @ u @ '' '' @ scheme @ ''/'' @ major @ ''.'' @ minor @ crlf"

definition header_section :: "string list \<Rightarrow> string" where
  "header_section ls = concat (map (\<lambda>l. l @ crlf) ls) @ crlf"

definition uri_ok :: "string \<Rightarrow> bool" where
  "uri_ok u \<longleftrightarrow> (\<forall>c \<in> set u. isalpha c \<or> isnumber c \<or> ispunct c)"

definition header_line_ok :: "string \<Rightarrow> bool" where
  "header_line_ok l \<longleftrightarrow> l \<noteq> [] \<and> isalpha (hd l) \<and> CHR 0x0D \<notin> set l \<and> CHR 0x0A \<notin> set l"

text \<open>The effect of one finished header line whose text is \<open>line\<close> on the header list.\<close>

definition add_header_line :: "('h, 'b) http_lib \<Rightarrow> 'h \<Rightarrow> string \<Rightarrow> 'h" where
  "add_header_line lib h line =
     (case StrSplitColon1 lib line of
        [] \<Rightarrow> h
      | part0 # parts \<Rightarrow>
          if trim lib part0 = [] then h
          else headerList_add lib h (trim lib part0)
                 (trim lib (case parts of [] \<Rightarrow> '''' | part1 # _ \<Rightarrow> part1)))"

section \<open>One event\<close>

definition dispatch ::
  "('h, 'b) http_lib \<Rightarrow> ParseState \<Rightarrow> ('h, 'b) parser \<Rightarrow> char \<Rightarrow>
     (ParseState \<times> ('h, 'b) parser) option" where
  "dispatch lib st p c =
     map_option (\<lambda>r. (row_target r, row_action r p c))
       (find (row_matches st p c) (transition_table lib))"

lemmas action_defs =
  noAction_def errorAction_def onMethodFinish_def onUriFinish_def onHttpFinish_def
  onMajorFinish_def onMinorFinish_def onHeaderLineStart_def onBodyStart_def

lemma dispatch_cases:
  "dispatch lib Start p c = Some (if isalpha c then (Method, appendToBuffer p c) else (Error, p))"
  "dispatch lib Method p c = Some
     (if isalpha c then (Method, appendToBuffer p c)
      else if isValidMethod p c then (Uri, p\<lparr>buffer := ToUri\<rparr>) else (Error, p))"
  "dispatch lib Uri p c = Some
     (if isValidUriChar p c then (Uri, appendToBuffer p c)
      else if c = CHR '' '' then (Http, clearTemp p) else (Error, p))"
  "dispatch lib Http p c = Some
     (if isalpha c then (Http, appendToBuffer p c)
      else if isValidHttp lib p c then (Major, clearTemp p) else (Error, p))"
  "dispatch lib Major p c = Some
     (if isdigit c then (Major, appendToBuffer p c)
      else if c = CHR ''.'' then (Minor, clearTemp p) else (Error, p))"
  "dispatch lib Minor p c = Some
     (if isdigit c then (Minor, appendToBuffer p c)
      else if c = CHR 0x0D then (Expecting_newline_1, clearTemp p) else (Error, p))"
  "dispatch lib Expecting_newline_1 p c = Some
     (if c = CHR 0x0A then (Header_line_start, clearTemp p) else (Error, p))"
  "dispatch lib Header_line_start p c = Some
     (if c = CHR 0x0D then (Expecting_newline_3, p)
      else if isalpha c then (Header_line, appendToBuffer p c) else (Error, p))"
  "dispatch lib Header_line p c = Some
     (if c = CHR 0x0D then (Expecting_newline_2, p)
      else if c = CHR 0x0A then (Error, p) else (Header_line, appendToBuffer p c))"
  "dispatch lib Expecting_newline_2 p c = Some
     (if c = CHR 0x0A then (Header_line_start, onHeaderLineFinish lib p c) else (Error, p))"
  "dispatch lib Expecting_newline_3 p c = Some
     (if isNeedBody lib p c then (Expecting_body, clearTemp p)
      else if c = CHR 0x0A then (Finish, p) else (Error, p))"
  "dispatch lib Expecting_body p c = Some
     (if needMoreBody lib p c then (Expecting_body, appendToBuffer p c)
      else (Finish, onBodyFinish lib p c))"
  by (auto simp: dispatch_def transition_table_def row_matches_def action_defs
      isAlpha_def isDigit_def isSpace_def isCarryReturn_def isNewLine_def
      isValidMajor_def isValidMinor_def)

lemma dispatch_total: "st \<noteq> Error \<Longrightarrow> st \<noteq> Finish \<Longrightarrow> \<exists>q. dispatch lib st p c = Some q"
  by (cases st) (auto simp: dispatch_cases)

lemma dispatch_engine:
  "first_match process_event \<Longrightarrow> dispatch lib st p c = Some q \<Longrightarrow>
     process_event (transition_table lib) (st, p) c = q"
  by (auto simp: first_match_def dispatch_def)

lemma loop_step:
  assumes "first_match process_event" "dispatch lib st p c = Some (st', p')"
    "st' \<noteq> Error" "st' \<noteq> Finish"
  shows "parse_loop process_event lib (st, p) (c # cs) = parse_loop process_event lib (st', p') cs"
  using dispatch_engine [OF assms(1,2)] assms(3,4) by simp

lemma deref_assign [simp]: "deref (assign p v) = v" "buffer (assign p v) = buffer p"
  by (cases "buffer p"; simp add: deref_def assign_def)+

lemma assign_assign [simp]: "assign (assign p v) w = assign p w"
  by (cases "buffer p") (simp_all add: assign_def)

lemma assign_deref [simp]: "assign p (deref p) = p"
  by (cases "buffer p") (simp_all add: deref_def assign_def)

lemma loop_collect:
  assumes "first_match process_event" "st \<noteq> Error" "st \<noteq> Finish"
    "\<And>p c. c \<in> set xs \<Longrightarrow> dispatch lib st p c = Some (st, appendToBuffer p c)"
  shows "parse_loop process_event lib (st, p) (xs @ rest) =
    parse_loop process_event lib (st, assign p (deref p @ xs)) rest"
  using assms(4)
proof (induction xs arbitrary: p)
  case (Cons c xs)
  then show ?case
    using loop_step [OF assms(1) Cons.prems [of c p] assms(2,3), of "xs @ rest"]
    by (simp add: appendToBuffer_def)
qed simp

section \<open>The request line\<close>

lemma char_facts [simp]:
  "\<not> isalpha CHR '' ''" "\<not> isalpha CHR ''/''" "\<not> isalpha CHR 0x0D"
  "\<not> isdigit CHR ''.''" "\<not> isdigit CHR 0x0D" "\<not> isValidUriChar p CHR '' ''"
  by (simp_all add: isalpha_def isdigit_def isValidUriChar_def isnumber_def ispunct_def code_def)

lemma GET_POST_alpha: "m = ''GET'' \<or> m = ''POST'' \<Longrightarrow> c \<in> set m \<Longrightarrow> isalpha c"
  by (auto simp: isalpha_def code_def)

lemma loop_method:
  assumes "first_match process_event" "m = ''GET'' \<or> m = ''POST''"
    "req_method (default_Request lib) = []"
  shows "parse_loop process_event lib (Start, new_parser lib) (m @ rest) =
    parse_loop process_event lib
      (Method, \<lparr>request = (default_Request lib)\<lparr>req_method := m\<rparr>, temp = [], buffer = ToMethod\<rparr>)
      rest"
proof -
  obtain c cs where m: "m = c # cs" using assms(2) by (cases m) auto
  have alpha: "isalpha c" "\<And>d. d \<in> set cs \<Longrightarrow> isalpha d"
    using GET_POST_alpha [OF assms(2)] m by auto
  have "parse_loop process_event lib (Start, new_parser lib) (m @ rest) =
      parse_loop process_event lib (Method, appendToBuffer (new_parser lib) c) (cs @ rest)"
    using m alpha(1) by (simp add: loop_step [OF assms(1)] dispatch_cases del: parse_loop.simps)
  also have "\<dots> = parse_loop process_event lib
      (Method, assign (appendToBuffer (new_parser lib) c) (deref (appendToBuffer (new_parser lib) c) @ cs))
      rest"
    using alpha(2) by (intro loop_collect [OF assms(1)]) (simp_all add: dispatch_cases)
  finally show ?thesis
    using assms(3) m by (simp add: appendToBuffer_def new_parser_def assign_def deref_def)
qed

lemma loop_uri:
  assumes "first_match process_event" "uri_ok u" "buffer p = ToUri" "req_uri (request p) = []"
  shows "parse_loop process_event lib (Uri, p) (u @ CHR '' '' # rest) =
    parse_loop process_event lib (Http, clearTemp (p\<lparr>request := (request p)\<lparr>req_uri := u\<rparr>\<rparr>)) rest"
proof -
  have "parse_loop process_event lib (Uri, p) (u @ CHR '' '' # rest) =
      parse_loop process_event lib (Uri, assign p (deref p @ u)) (CHR '' '' # rest)"
    using assms(2)
    by (intro loop_collect [OF assms(1)]) (auto simp: dispatch_cases uri_ok_def isValidUriChar_def)
  then show ?thesis
    using assms(3,4)
    by (simp add: loop_step [OF assms(1)] dispatch_cases assign_def deref_def del: parse_loop.simps)
qed

text \<open>The three parts of the protocol version are collected in \<open>temp_\<close> and then forgotten.\<close>

lemma loop_version:
  assumes "first_match process_event" "\<forall>c \<in> set scheme. isalpha c" "toLowerCase lib scheme = ''http''"
    "\<forall>c \<in> set major. isdigit c" "\<forall>c \<in> set minor. isdigit c" "buffer p = ToTemp" "temp p = []"
  shows "parse_loop process_event lib (Http, p)
      (scheme @ CHR ''/'' # major @ CHR ''.'' # minor @ CHR 0x0D # CHR 0x0A # rest) =
    parse_loop process_event lib (Header_line_start, p) rest"
proof -
  have reset: "clearTemp (assign p v) = p" for v
    using assms(6,7) by (simp add: assign_def clearTemp_def)
  have http: "isValidHttp lib (assign p scheme) CHR ''/''"
    using assms(3,6) by (simp add: isValidHttp_def assign_def)
  have deref: "deref p = []" using assms(6,7) by (simp add: deref_def)
  have "parse_loop process_event lib (Http, p)
      (scheme @ CHR ''/'' # major @ CHR ''.'' # minor @ CHR 0x0D # CHR 0x0A # rest) =
    parse_loop process_event lib (Http, assign p scheme)
      (CHR ''/'' # major @ CHR ''.'' # minor @ CHR 0x0D # CHR 0x0A # rest)"
    using loop_collect [OF assms(1), of Http scheme lib p] assms(2) deref by (simp add: dispatch_cases)
  also have "\<dots> = parse_loop process_event lib (Major, p)
      (major @ CHR ''.'' # minor @ CHR 0x0D # CHR 0x0A # rest)"
    using http by (simp add: loop_step [OF assms(1)] dispatch_cases reset del: parse_loop.simps)
  also have "\<dots> = parse_loop process_event lib (Minor, p) (minor @ CHR 0x0D # CHR 0x0A # rest)"
    using loop_collect [OF assms(1), of Major major lib p] assms(4) deref
    by (simp add: loop_step [OF assms(1)] dispatch_cases reset del: parse_loop.simps)
  also have "\<dots> = parse_loop process_event lib (Header_line_start, clearTemp p) rest"
    using loop_collect [OF assms(1), of Minor minor lib p] assms(5) deref
    by (simp add: loop_step [OF assms(1)] dispatch_cases reset del: parse_loop.simps)
  also have "clearTemp p = p" using reset [of "deref p"] by simp
  finally show ?thesis .
qed

lemma parse_request_line:
  assumes "first_match process_event" "m = ''GET'' \<or> m = ''POST''" "uri_ok u"
    "req_method (default_Request lib) = []" "req_uri (default_Request lib) = []"
    "\<forall>c \<in> set scheme. isalpha c" "toLowerCase lib scheme = ''http''"
    "\<forall>c \<in> set major. isdigit c" "\<forall>c \<in> set minor. isdigit c"
  shows "parse_request process_event lib (request_line m u scheme major minor @ rest) =
    parse_loop process_event lib
      (Header_line_start, \<lparr>request = (default_Request lib)\<lparr>req_method := m, req_uri := u\<rparr>,
         temp = [], buffer = ToTemp\<rparr>) rest"
proof -
  let ?m = "(default_Request lib)\<lparr>req_method := m\<rparr>"
  let ?version = "scheme @ CHR ''/'' # major @ CHR ''.'' # minor @ CHR 0x0D # CHR 0x0A # rest"
  have "parse_request process_event lib (request_line m u scheme major minor @ rest) =
      parse_loop process_event lib (Method, \<lparr>request = ?m, temp = [], buffer = ToMethod\<rparr>)
        (CHR '' '' # u @ CHR '' '' # ?version)"
    using loop_method [OF assms(1,2,4)]
    by (simp add: parse_request_def request_line_def crlf_def)
  also have "\<dots> = parse_loop process_event lib (Uri, \<lparr>request = ?m, temp = [], buffer = ToUri\<rparr>)
      (u @ CHR '' '' # ?version)"
    using assms(2)
    by (intro loop_step [OF assms(1)]) (auto simp: dispatch_cases isValidMethod_def)
  also have "\<dots> = parse_loop process_event lib
      (Http, \<lparr>request = ?m\<lparr>req_uri := u\<rparr>, temp = [], buffer = ToTemp\<rparr>) ?version"
    using loop_uri [OF assms(1,3)] assms(5) by (simp add: clearTemp_def del: parse_loop.simps)
  finally show ?thesis
    using loop_version [OF assms(1,6,7,8,9)] by (simp del: parse_loop.simps)
qed

section \<open>Header lines\<close>

text \<open>
  The header list after the lines \<open>ls\<close>, when \<open>temp_\<close> holds \<open>t\<close> before the first of them: nothing
  clears \<open>temp_\<close> between two lines, so line \<open>k\<close> is read as the concatenation of the first \<open>k\<close>.
\<close>

fun parsed_headers :: "('h, 'b) http_lib \<Rightarrow> 'h \<Rightarrow> string \<Rightarrow> string list \<Rightarrow> 'h" where
  "parsed_headers lib h t [] = h"
| "parsed_headers lib h t (l # ls) =
     parsed_headers lib (add_header_line lib h (t @ l)) (t @ l) ls"

lemma onHeaderLineFinish_eq:
  "onHeaderLineFinish lib p c =
     p\<lparr>request := (request p)\<lparr>headerList := add_header_line lib (headerList (request p)) (deref p)\<rparr>\<rparr>"
  by (simp add: onHeaderLineFinish_def add_header_line_def Let_def split: list.split)

lemma loop_header_line:
  assumes "first_match process_event" "header_line_ok l" "buffer p = ToTemp"
  shows "parse_loop process_event lib (Header_line_start, p) (l @ crlf @ rest) =
    parse_loop process_event lib
      (Header_line_start, p\<lparr>temp := temp p @ l, request := (request p)
         \<lparr>headerList := add_header_line lib (headerList (request p)) (temp p @ l)\<rparr>\<rparr>) rest"
proof -
  obtain c cs where l: "l = c # cs" "isalpha c" "c \<noteq> CHR 0x0D" "CHR 0x0D \<notin> set cs" "CHR 0x0A \<notin> set cs"
    using assms(2) by (cases l) (auto simp: header_line_ok_def)
  have append: "assign p v = p\<lparr>temp := v\<rparr>" for v using assms(3) by (simp add: assign_def)
  have "parse_loop process_event lib (Header_line_start, p) (l @ crlf @ rest) =
      parse_loop process_event lib (Header_line, appendToBuffer p c) (cs @ crlf @ rest)"
    using l by (simp add: loop_step [OF assms(1)] dispatch_cases del: parse_loop.simps)
  also have "\<dots> = parse_loop process_event lib
      (Header_line, assign (appendToBuffer p c) (deref (appendToBuffer p c) @ cs)) (crlf @ rest)"
    using l by (intro loop_collect [OF assms(1)]) (auto simp: dispatch_cases)
  also have "assign (appendToBuffer p c) (deref (appendToBuffer p c) @ cs) = assign p (deref p @ l)"
    using l(1) by (simp add: appendToBuffer_def)
  also have "parse_loop process_event lib (Header_line, assign p (deref p @ l)) (crlf @ rest) =
      parse_loop process_event lib
        (Header_line_start, onHeaderLineFinish lib (assign p (deref p @ l)) CHR 0x0A) rest"
    by (simp add: crlf_def loop_step [OF assms(1)] dispatch_cases del: parse_loop.simps)
  finally show ?thesis
    using assms(3) by (simp add: onHeaderLineFinish_eq append deref_def del: parse_loop.simps)
qed

lemma loop_header_lines:
  assumes "first_match process_event" "\<forall>l \<in> set ls. header_line_ok l" "buffer p = ToTemp"
  shows "parse_loop process_event lib (Header_line_start, p) (concat (map (\<lambda>l. l @ crlf) ls) @ rest) =
    parse_loop process_event lib
      (Header_line_start, p\<lparr>temp := temp p @ concat ls, request := (request p)
         \<lparr>headerList := parsed_headers lib (headerList (request p)) (temp p) ls\<rparr>\<rparr>) rest"
  using assms(2,3)
proof (induction ls arbitrary: p)
  case (Cons l ls)
  then show ?case
    using loop_header_line [OF assms(1), of l p lib "concat (map (\<lambda>l. l @ crlf) ls) @ rest"]
    by (simp del: parse_loop.simps)
qed simp

text \<open>The empty line that ends the headers.\<close>

lemma loop_headers_end:
  assumes "first_match process_event"
  shows "parse_loop process_event lib (Header_line_start, p) (crlf @ rest) =
    (if req_method (request p) = POST lib \<and> 0 < bodySize lib p
     then parse_loop process_event lib (Expecting_body, clearTemp p) rest
     else (False, Finish, p))"
proof -
  have "parse_loop process_event lib (Header_line_start, p) (crlf @ rest) =
      parse_loop process_event lib (Expecting_newline_3, p) (CHR 0x0A # rest)"
    by (simp add: crlf_def loop_step [OF assms] dispatch_cases del: parse_loop.simps)
  then show ?thesis
    using dispatch_engine [OF assms, of lib Expecting_newline_3 p "CHR 0x0A"]
    by (simp add: dispatch_cases isNeedBody_def)
qed

lemma loop_body:
  assumes "first_match process_event" "buffer p = ToTemp" "b \<noteq> []"
    "bodySize lib p = int (length (temp p) + length b)" "bodySize lib p < 2 ^ 64"
  shows "parse_loop process_event lib (Expecting_body, p) (b @ rest) =
    (False, Finish, onBodyFinish lib (p\<lparr>temp := temp p @ butlast b\<rparr>) (last b))"
  using assms(2-)
proof (induction b arbitrary: p)
  case (Cons c b)
  have more: "needMoreBody lib p c \<longleftrightarrow> b \<noteq> []"
    using Cons.prems by (simp add: needMoreBody_def deref_def)
  show ?case
  proof (cases "b = []")
    case True
    then show ?thesis
      using more dispatch_engine [OF assms(1), of lib Expecting_body p c]
      by (simp add: dispatch_cases)
  next
    case False
    have append: "appendToBuffer p c = p\<lparr>temp := temp p @ [c]\<rparr>"
      using Cons.prems(1) by (simp add: appendToBuffer_def assign_def deref_def)
    have "parse_loop process_event lib (Expecting_body, p) ((c # b) @ rest) =
        parse_loop process_event lib (Expecting_body, p\<lparr>temp := temp p @ [c]\<rparr>) (b @ rest)"
      using more False append
      by (simp add: loop_step [OF assms(1)] dispatch_cases del: parse_loop.simps)
    also have "\<dots> = (False, Finish,
        onBodyFinish lib (p\<lparr>temp := temp p @ [c], temp := (temp p @ [c]) @ butlast b\<rparr>) (last b))"
      using Cons.IH [of "p\<lparr>temp := temp p @ [c]\<rparr>"] Cons.prems False
      by (simp add: bodySize_def del: parse_loop.simps)
    finally show ?thesis using False by simp
  qed
qed simp

section \<open>Instances of the libraries\<close>

text \<open>
  What the parser relies on: a default request has an empty method and URI, the constant
  \<open>Request::POST\<close> is the method's name, \<open>StrSplit\<close> by the first colon cuts there, and \<open>setBody\<close>
  leaves the protocol version alone. The instances below satisfy it.
\<close>

definition lib_relied_on :: "('h, 'b) http_lib \<Rightarrow> bool" where
  "lib_relied_on lib \<longleftrightarrow>
     req_method (default_Request lib) = [] \<and> req_uri (default_Request lib) = [] \<and>
     POST lib = ''POST''"

definition split_colon_law :: "('h, 'b) http_lib \<Rightarrow> bool" where
  "split_colon_law lib \<longleftrightarrow>
     (\<forall>n v. CHR '':'' \<notin> set n \<longrightarrow> StrSplitColon1 lib (n @ CHR '':'' # v) = [n, v])"

definition setBody_keeps_version :: "('h, 'b) http_lib \<Rightarrow> bool" where
  "setBody_keeps_version lib \<longleftrightarrow>
     (\<forall>r b t. http_version_major (setBody lib r b t) = http_version_major r \<and>
              http_version_minor (setBody lib r b t) = http_version_minor r)"

definition demo_engine :: "('h, 'b) engine" where
  "demo_engine rows sp c =
     (case find (row_matches (fst sp) (snd sp) c) rows of
        None \<Rightarrow> sp
      | Some r \<Rightarrow> (row_target r, row_action r (snd sp) c))"

definition lower :: "char \<Rightarrow> char" where
  "lower c = (if 65 \<le> code c \<and> code c \<le> 90 then char_of (code c + 32) else c)"

definition demo_lib :: "((string \<times> string) list, string) http_lib" where
  "demo_lib =
     \<lparr>default_Request = \<lparr>req_method = '''', req_uri = '''', http_version_major = 1,
        http_version_minor = 1, headerList = [], req_body = ''''\<rparr>,
      POST = ''POST'',
      headerList_add = (\<lambda>h n v. h @ [(n, v)]),
      contentLength = (\<lambda>h. case map_of h ''Content-Length'' of None \<Rightarrow> '''' | Some v \<Rightarrow> v),
      headerList_get = map_of,
      setBody = (\<lambda>r b t. r\<lparr>req_body := b\<rparr>),
      trim = (\<lambda>s. rev (dropWhile isspace (rev (dropWhile isspace s)))),
      toLowerCase = map lower,
      StrSplitColon1 = (\<lambda>s.
        if CHR '':'' \<in> set s
        then [takeWhile (\<lambda>c. c \<noteq> CHR '':'') s, tl (dropWhile (\<lambda>c. c \<noteq> CHR '':'') s)]
        else [s])\<rparr>"

lemma demo_engine_first_match: "first_match demo_engine"
  by (simp add: first_match_def demo_engine_def)

lemma takeWhile_dropWhile_colon:
  "CHR '':'' \<notin> set n \<Longrightarrow> takeWhile (\<lambda>c. c \<noteq> CHR '':'') (n @ CHR '':'' # v) = n \<and>
     dropWhile (\<lambda>c. c \<noteq> CHR '':'') (n @ CHR '':'' # v) = CHR '':'' # v"
  by (induction n) auto

lemma demo_lib_laws: "lib_relied_on demo_lib" "split_colon_law demo_lib" "setBody_keeps_version demo_lib"
  by (simp_all add: lib_relied_on_def split_colon_law_def setBody_keeps_version_def demo_lib_def
      takeWhile_dropWhile_colon)

lemma demo_scheme: "toLowerCase demo_lib ''HTTP'' = ''http''"
  by code_simp

section \<open>The protocol version\<close>

definition versions :: "('h, 'b) Request \<Rightarrow> int \<times> int" where
  "versions r = (http_version_major r, http_version_minor r)"

lemma versions_assign [simp]: "versions (request (assign p v)) = versions (request p)"
  by (cases "buffer p") (simp_all add: assign_def versions_def)

lemma versions_append [simp]: "versions (request (appendToBuffer p c)) = versions (request p)"
  by (simp add: appendToBuffer_def)

lemma versions_clearTemp [simp]: "request (clearTemp p) = request p"
  by (simp add: clearTemp_def)

lemma versions_header [simp]: "versions (request (onHeaderLineFinish lib p c)) = versions (request p)"
  by (simp add: onHeaderLineFinish_eq versions_def)

lemma versions_setBody: "setBody_keeps_version lib \<Longrightarrow> versions (setBody lib r b t) = versions r"
  by (simp add: setBody_keeps_version_def versions_def)

lemma versions_body:
  "setBody_keeps_version lib \<Longrightarrow> versions (request (onBodyFinish lib p c)) = versions (request p)"
  by (simp add: onBodyFinish_def Let_def versions_setBody)

lemma dispatch_versions:
  assumes "setBody_keeps_version lib" "dispatch lib st p c = Some (st', p')"
  shows "versions (request p') = versions (request p)"
proof (cases "st = Error \<or> st = Finish")
  case True
  with assms(2) show ?thesis by (auto simp: dispatch_def transition_table_def row_matches_def)
next
  case False
  with assms show ?thesis
    by (cases st) (auto simp: dispatch_cases versions_body split: if_splits)
qed

section \<open>Properties\<close>

text \<open>
  C17: The parser never blocks: in every state but \<open>Error\<close> and \<open>Finish\<close>, where the loop has
  stopped, some row takes any character, so that the parse is determined by the table alone, and
  the error flag that the loop returns tells exactly whether it ended in \<open>Error\<close>.
\<close>
theorem parser_total:
  assumes "first_match process_event" and "first_match process_event'"
    and "st \<noteq> Error" and "st \<noteq> Finish"
  shows "parse_loop process_event lib (st, p) cs = parse_loop process_event' lib (st, p) cs \<and>
    (fst (parse_loop process_event lib (st, p) cs) \<longleftrightarrow>
       fst (snd (parse_loop process_event lib (st, p) cs)) = Error) \<and>
    (\<exists>r \<in> set (transition_table lib). row_matches st p c r)"
proof (intro conjI)
  show "parse_loop process_event lib (st, p) cs = parse_loop process_event' lib (st, p) cs"
    using assms(3,4)
  proof (induction cs arbitrary: st p)
    case (Cons c cs)
    obtain st' p' where "dispatch lib st p c = Some (st', p')"
      using dispatch_total [OF Cons.prems] by fastforce
    from dispatch_engine [OF assms(1) this] dispatch_engine [OF assms(2) this] Cons.IH [of st' p']
    show ?case by (auto simp: Let_def)
  qed simp
  show "fst (parse_loop process_event lib (st, p) cs) \<longleftrightarrow>
      fst (snd (parse_loop process_event lib (st, p) cs)) = Error"
    using assms(3,4)
  proof (induction cs arbitrary: st p)
    case (Cons c cs)
    obtain st' p' where "dispatch lib st p c = Some (st', p')"
      using dispatch_total [OF Cons.prems] by fastforce
    from dispatch_engine [OF assms(1) this] Cons.IH [of st' p'] show ?case by (auto simp: Let_def)
  qed simp
  obtain q where "dispatch lib st p c = Some q" using dispatch_total [OF assms(3,4)] by blast
  then show "\<exists>r \<in> set (transition_table lib). row_matches st p c r"
    by (auto simp: dispatch_def find_Some_iff)
qed

theorem parser_total_witness:
  "(fst (parse_loop demo_engine demo_lib (Start, new_parser demo_lib) ''GET'') \<longleftrightarrow>
     fst (snd (parse_loop demo_engine demo_lib (Start, new_parser demo_lib) ''GET'')) = Error) \<and>
   (\<exists>r \<in> set (transition_table demo_lib). row_matches Start (new_parser demo_lib) CHR ''7'' r)"
  by (rule conjunct2 [OF parser_total [OF demo_engine_first_match demo_engine_first_match]]) simp_all

text \<open>
  C14: A well-formed request with no body is parsed to the end without error: the method and the
  URI are the ones in the text, and the header list is the one the header lines give
  (\<open>parsed_headers\<close>); whatever follows the empty line is left unread.
\<close>
theorem parse_request_without_body:
  assumes "first_match process_event" and "lib_relied_on lib"
    and "m = ''GET'' \<or> m = ''POST''" and "uri_ok u"
    and "\<forall>c \<in> set scheme. isalpha c" and "toLowerCase lib scheme = ''http''"
    and "\<forall>c \<in> set major. isdigit c" and "\<forall>c \<in> set minor. isdigit c"
    and "\<forall>l \<in> set ls. header_line_ok l"
    and "h = parsed_headers lib (headerList (default_Request lib)) [] ls"
    and "m = ''GET'' \<or> atoi (contentLength lib h) \<le> 0"
  shows "parse_request process_event lib
      (request_line m u scheme major minor @ header_section ls @ rest) =
    (False, Finish,
     \<lparr>request = (default_Request lib)\<lparr>req_method := m, req_uri := u, headerList := h\<rparr>,
      temp = concat ls, buffer = ToTemp\<rparr>)"
  using assms(2,10,11) parse_request_line [OF assms(1,3,4) _ _ assms(5,6,7,8)]
  by (auto simp: lib_relied_on_def header_section_def loop_header_lines [OF assms(1,9)]
      loop_headers_end [OF assms(1)] bodySize_def simp del: parse_loop.simps)

theorem parse_request_without_body_witness:
  "parse_request demo_engine demo_lib
      (request_line ''GET'' ''/get'' ''HTTP'' ''1'' ''1'' @ header_section [''Host: a''] @ []) =
    (False, Finish,
     \<lparr>request = (default_Request demo_lib)\<lparr>req_method := ''GET'', req_uri := ''/get'',
        headerList := [(''Host'', ''a'')]\<rparr>,
      temp = ''Host: a'', buffer = ToTemp\<rparr>)"
proof -
  have h: "[(''Host'', ''a'')] =
      parsed_headers demo_lib (headerList (default_Request demo_lib)) [] [''Host: a'']"
    by (simp add: demo_lib_def add_header_line_def isspace_def code_def)
  show ?thesis
    using parse_request_without_body [OF demo_engine_first_match demo_lib_laws(1) _ _ _
        demo_scheme _ _ _ h, of "''GET''" "''/get''" "''1''" "''1''" "[]"]
    by (simp add: uri_ok_def isalpha_def isnumber_def isdigit_def ispunct_def code_def
        header_line_ok_def)
qed

text \<open>
  C8: A POST request whose header lines announce a body of \<open>n > 0\<close> characters is parsed to the
  end without error: the \<open>n\<close> characters after the empty line become the body, with the type of
  the \<open>Content-Type\<close> header or \<open>text/plain\<close>, and nothing beyond them is read.
\<close>
theorem parse_request_with_body:
  assumes "first_match process_event" and "lib_relied_on lib" and "uri_ok u"
    and "\<forall>c \<in> set scheme. isalpha c" and "toLowerCase lib scheme = ''http''"
    and "\<forall>c \<in> set major. isdigit c" and "\<forall>c \<in> set minor. isdigit c"
    and "\<forall>l \<in> set ls. header_line_ok l"
    and "h = parsed_headers lib (headerList (default_Request lib)) [] ls"
    and "atoi (contentLength lib h) = int (length b)" and "b \<noteq> []" and "in_int (int (length b))"
  shows "parse_request process_event lib
      (request_line ''POST'' u scheme major minor @ header_section ls @ b @ rest) =
    (False, Finish,
     \<lparr>request = setBody lib
        ((default_Request lib)\<lparr>req_method := ''POST'', req_uri := u, headerList := h\<rparr>) b
        (case headerList_get lib h ''Content-Type'' of None \<Rightarrow> ''text/plain'' | Some v \<Rightarrow> v),
      temp = [], buffer = ToTemp\<rparr>)"
proof -
  let ?r = "(default_Request lib)\<lparr>req_method := ''POST'', req_uri := u, headerList := h\<rparr>"
  have "parse_request process_event lib
      (request_line ''POST'' u scheme major minor @ header_section ls @ b @ rest) =
    parse_loop process_event lib (Expecting_body, \<lparr>request = ?r, temp = [], buffer = ToTemp\<rparr>)
      (b @ rest)"
    using assms(2,9,10,11) parse_request_line [OF assms(1) _ assms(3) _ _ assms(4,5,6,7)]
    by (simp add: lib_relied_on_def header_section_def loop_header_lines [OF assms(1,8)]
        loop_headers_end [OF assms(1)] bodySize_def clearTemp_def del: parse_loop.simps)
  also have "\<dots> = (False, Finish,
      onBodyFinish lib \<lparr>request = ?r, temp = butlast b, buffer = ToTemp\<rparr> (last b))"
    using loop_body [OF assms(1), of "\<lparr>request = ?r, temp = [], buffer = ToTemp\<rparr>" b lib rest] assms(10-12)
    by (simp add: bodySize_def int_range)
  finally show ?thesis
    using assms(11) by (simp add: onBodyFinish_def assign_def deref_def Let_def)
qed

theorem parse_request_with_body_witness:
  "req_body (request (snd (snd (parse_request demo_engine demo_lib
      (request_line ''POST'' ''/post'' ''HTTP'' ''1'' ''1'' @
       header_section [''Content-Length: 2''] @ ''{}'' @ ''rest''))))) = ''{}''"
proof -
  have h: "[(''Content-Length'', ''2'')] =
      parsed_headers demo_lib (headerList (default_Request demo_lib)) [] [''Content-Length: 2'']"
    by (simp add: demo_lib_def add_header_line_def isspace_def code_def)
  have "atoi (contentLength demo_lib [(''Content-Length'', ''2'')]) = int (length ''{}'')"
    by (simp add: demo_lib_def atoi_def isspace_def isdigit_def code_def)
  then show ?thesis
    using parse_request_with_body [OF demo_engine_first_match demo_lib_laws(1) _ _
        demo_scheme _ _ _ h, of "''/post''" "''1''" "''1''" "''{}''" "''rest''"]
    by (simp add: uri_ok_def isalpha_def isnumber_def isdigit_def ispunct_def code_def
        header_line_ok_def int_range) (simp add: demo_lib_def)
qed

text \<open>
  C39: Only the first header line is parsed as a line of its own: with two header lines, the
  second entry added to the header list has again the first line's name, and the first line's
  value with the whole second line glued to it.
\<close>
theorem second_header_line_glued_to_first:
  assumes "first_match process_event" and "lib_relied_on lib" and "split_colon_law lib"
    and "uri_ok u" and "\<forall>c \<in> set scheme. isalpha c" and "toLowerCase lib scheme = ''http''"
    and "\<forall>c \<in> set major. isdigit c" and "\<forall>c \<in> set minor. isdigit c"
    and "header_line_ok (n @ '':'' @ v)" and "header_line_ok l" and "CHR '':'' \<notin> set n"
    and "trim lib n \<noteq> []"
  shows "headerList (request (snd (snd (parse_request process_event lib
      (request_line ''GET'' u scheme major minor @ header_section [n @ '':'' @ v, l]))))) =
    headerList_add lib
      (headerList_add lib (headerList (default_Request lib)) (trim lib n) (trim lib v))
      (trim lib n) (trim lib (v @ l))"
proof -
  have split: "StrSplitColon1 lib (n @ CHR '':'' # w) = [n, w]" for w
    using assms(3,11) by (simp add: split_colon_law_def)
  have "\<forall>l' \<in> set [n @ '':'' @ v, l]. header_line_ok l'" using assms(9,10) by simp
  note lines = loop_header_lines [OF assms(1) this]
  show ?thesis
    using assms(2,12) parse_request_line [OF assms(1) _ assms(4) _ _ assms(5,6,7,8), of "''GET''"]
    by (simp add: lib_relied_on_def header_section_def lines [simplified] split
        loop_headers_end [OF assms(1), of _ _ "[]", simplified] add_header_line_def
        del: parse_loop.simps)
qed

theorem second_header_line_glued_to_first_witness:
  "headerList (request (snd (snd (parse_request demo_engine demo_lib
      (request_line ''GET'' ''/get'' ''HTTP'' ''1'' ''1'' @
       header_section [''Host'' @ '':'' @ '' a'', ''Connection: close'']))))) =
   [(''Host'', ''a''), (''Host'', ''aConnection: close'')]"
  using second_header_line_glued_to_first [OF demo_engine_first_match demo_lib_laws(1,2) _ _
      demo_scheme, of "''/get''" "''1''" "''1''" "''Host''" "'' a''" "''Connection: close''"]
  by (simp add: uri_ok_def isalpha_def isnumber_def isdigit_def ispunct_def code_def
      header_line_ok_def) (simp add: demo_lib_def isspace_def code_def)

text \<open>
  The version numbers of the parsed request are never assigned: whatever the input, they
  keep the values of a default request, although the two guards read them from the text.
\<close>
lemma parsed_version_never_set:
  assumes "first_match process_event" and "setBody_keeps_version lib"
  shows "http_version_major (request (snd (snd (parse_request process_event lib cs)))) =
      http_version_major (default_Request lib) \<and>
    http_version_minor (request (snd (snd (parse_request process_event lib cs)))) =
      http_version_minor (default_Request lib)"
proof -
  have "versions (request (snd (snd (parse_loop process_event lib (st, p) cs)))) =
      versions (request p)" if "st \<noteq> Error" "st \<noteq> Finish" for st p
    using that
  proof (induction cs arbitrary: st p)
    case (Cons c cs)
    obtain st' p' where d: "dispatch lib st p c = Some (st', p')"
      using dispatch_total [OF Cons.prems] by fastforce
    with dispatch_engine [OF assms(1) d] Cons.IH [of st' p'] dispatch_versions [OF assms(2) d]
    show ?case by (auto simp: Let_def)
  qed simp
  from this [of Start "new_parser lib"] show ?thesis
    by (simp add: parse_request_def new_parser_def versions_def)
qed

lemma parsed_version_never_set_witness:
  "http_version_minor (request (snd (snd (parse_request demo_engine demo_lib
      (request_line ''GET'' ''/get'' ''HTTP'' ''1'' ''0'' @ header_section []))))) = 1"
  using parsed_version_never_set [OF demo_engine_first_match demo_lib_laws(3)]
  by (simp add: demo_lib_def)

end
