(* ===== verification/Printing.thy ===== *)
theory Printing
  imports Prelude
begin

text \<open>
  How a stream of the standard library prints an integer: the decimal digits of a number, with a minus sign in front of
  those of a negative one. The demonstration programs print numbers; their models share this theory.
\<close>

definition digit_char :: "nat \<Rightarrow> char" where
  "digit_char d = char_of (48 + d mod 10)"

fun show_nat :: "nat \<Rightarrow> string" where
  "show_nat n = (if n < 10 then [digit_char n] else show_nat (n div 10) @ [digit_char n])"

declare show_nat.simps [simp del]

definition show_int :: "int \<Rightarrow> string" where
  "show_int x = (if x < 0 then ''-'' @ show_nat (nat (- x)) else show_nat (nat x))"

text \<open>Reading the digits back.\<close>

fun read_nat :: "nat \<Rightarrow> string \<Rightarrow> nat" where
  "read_nat k [] = k"
| "read_nat k (c # cs) = read_nat (10 * k + (of_char c - 48)) cs"

lemma read_nat_append: "read_nat k (xs @ ys) = read_nat (read_nat k xs) ys"
  by (induction k xs rule: read_nat.induct) simp_all

lemma of_digit_char: "of_char (digit_char d) = (48 + d mod 10 :: nat)"
proof -
  have "48 + d mod 10 < 256" by (rule less_le_trans [of _ 58]) simp_all
  then show ?thesis by (simp add: digit_char_def)
qed

lemma read_show_nat: "read_nat 0 (show_nat n) = n"
proof (induction n rule: less_induct)
  case (less n)
  show ?case
  proof (cases "n < 10")
    case True
    then show ?thesis by (simp add: show_nat.simps [of n] of_digit_char)
  next
    case False
    then have "read_nat 0 (show_nat (n div 10)) = n div 10" by (intro less) simp
    then show ?thesis using False by (simp add: show_nat.simps [of n] read_nat_append of_digit_char)
  qed
qed

lemma show_nat_inject: "show_nat m = show_nat n \<longleftrightarrow> m = n"
  by (metis read_show_nat)

end
