(* ===== verification/Parser_Typing.thy ===== *)
theory Parser_Typing
  imports Http_Parser Printing
begin

text \<open>
  A discipline for the state of the parser of \<open>src/misc/fsmlite_test.cpp\<close>: for each state of the machine, which string
  \<open>buffer_\<close> points to and what is known of the method, the URI and the collected text. Every event keeps it, whatever the
  input, so that the guards and actions only ever see what they are written for. The last section is the rest of
  \<open>main\<close>, what it formats and what it prints.
\<close>

section \<open>The discipline\<close>

definition all_alpha :: "string \<Rightarrow> bool" where
  "all_alpha s \<longleftrightarrow> (\<forall>c \<in> set s. isalpha c)"

definition all_digits :: "string \<Rightarrow> bool" where
  "all_digits s \<longleftrightarrow> (\<forall>c \<in> set s. isdigit c)"

definition one_line :: "string \<Rightarrow> bool" where
  "one_line s \<longleftrightarrow> CHR 0x0D \<notin> set s \<and> CHR 0x0A \<notin> set s"

definition line_ok :: "('h, 'b) Request \<Rightarrow> bool" where
  "line_ok r \<longleftrightarrow> (req_method r = ''GET'' \<or> req_method r = ''POST'') \<and> uri_ok (req_uri r)"

text \<open>Which string the buffer is, by state.\<close>

fun buffer_at :: "ParseState \<Rightarrow> buffer_ref" where
  "buffer_at Start = ToMethod"
| "buffer_at Method = ToMethod"
| "buffer_at Uri = ToUri"
| "buffer_at _ = ToTemp"

text \<open>
  A finished request is the one that was collected, or that request with a body as long as its header announces (in
  the range of \<open>int\<close>, in which the code reads the number).
\<close>

definition has_body :: "('h, 'b) http_lib \<Rightarrow> ('h, 'b) Request \<Rightarrow> bool" where
  "has_body lib r' \<longleftrightarrow> (\<exists>r b t. line_ok r \<and> req_method r = ''POST'' \<and> r' = setBody lib r b t \<and>
     0 < length b \<and> int (length b) \<le> atoi (contentLength lib (headerList r)) \<and>
     (in_int (atoi (contentLength lib (headerList r))) \<longrightarrow> int (length b) = atoi (contentLength lib (headerList r))))"

fun content_ok :: "('h, 'b) http_lib \<Rightarrow> ParseState \<Rightarrow> ('h, 'b) parser \<Rightarrow> bool" where
  "content_ok lib Error p = True"
| "content_ok lib Start p = (req_method (request p) = [] \<and> req_uri (request p) = [])"
| "content_ok lib Method p = (all_alpha (req_method (request p)) \<and> req_method (request p) \<noteq> [] \<and> req_uri (request p) = [])"
| "content_ok lib Uri p = line_ok (request p)"
| "content_ok lib Http p = (line_ok (request p) \<and> all_alpha (temp p))"
| "content_ok lib Major p = (line_ok (request p) \<and> all_digits (temp p))"
| "content_ok lib Minor p = (line_ok (request p) \<and> all_digits (temp p))"
| "content_ok lib Expecting_newline_1 p = (line_ok (request p) \<and> temp p = [])"
| "content_ok lib Header_line_start p = (line_ok (request p) \<and> one_line (temp p))"
| "content_ok lib Header_line p = (line_ok (request p) \<and> one_line (temp p) \<and> temp p \<noteq> [])"
| "content_ok lib Expecting_newline_2 p = (line_ok (request p) \<and> one_line (temp p) \<and> temp p \<noteq> [])"
| "content_ok lib Expecting_newline_3 p = (line_ok (request p) \<and> one_line (temp p))"
| "content_ok lib Expecting_body p =
     (line_ok (request p) \<and> req_method (request p) = ''POST'' \<and> int (length (temp p)) < bodySize lib p)"
| "content_ok lib Finish p = (line_ok (request p) \<and> one_line (temp p) \<or> has_body lib (request p) \<and> temp p = [])"

definition parser_typed :: "('h, 'b) http_lib \<Rightarrow> ParseState \<times> ('h, 'b) parser \<Rightarrow> bool" where
  "parser_typed lib sp \<longleftrightarrow>
     (fst sp \<noteq> Error \<longrightarrow> buffer (snd sp) = buffer_at (fst sp)) \<and> content_ok lib (fst sp) (snd sp)"

section \<open>Every event keeps it\<close>

lemma text_simps [simp]:
  "all_alpha []" "all_alpha [c] \<longleftrightarrow> isalpha c" "all_digits []" "one_line []" "uri_ok []"
  "all_alpha (s @ [c]) \<longleftrightarrow> all_alpha s \<and> isalpha c"
  "all_digits (s @ [c]) \<longleftrightarrow> all_digits s \<and> isdigit c"
  "one_line (s @ [c]) \<longleftrightarrow> one_line s \<and> c \<noteq> CHR 0x0D \<and> c \<noteq> CHR 0x0A"
  "uri_ok (s @ [c]) \<longleftrightarrow> uri_ok s \<and> (isalpha c \<or> isnumber c \<or> ispunct c)"
  by (auto simp: all_alpha_def all_digits_def one_line_def uri_ok_def)

lemma append_at:
  "buffer p = ToMethod \<Longrightarrow> appendToBuffer p c = p\<lparr>request := (request p)\<lparr>req_method := req_method (request p) @ [c]\<rparr>\<rparr>"
  "buffer p = ToUri \<Longrightarrow> appendToBuffer p c = p\<lparr>request := (request p)\<lparr>req_uri := req_uri (request p) @ [c]\<rparr>\<rparr>"
  "buffer p = ToTemp \<Longrightarrow> appendToBuffer p c = p\<lparr>temp := temp p @ [c]\<rparr>"
  by (simp_all add: appendToBuffer_def assign_def deref_def)

lemma isalpha_no_newline: "isalpha c \<Longrightarrow> c \<noteq> CHR 0x0D \<and> c \<noteq> CHR 0x0A"
  by (auto simp: isalpha_def code_def)

lemma header_finish_typed:
  "req_method (request (onHeaderLineFinish lib p c)) = req_method (request p)"
  "req_uri (request (onHeaderLineFinish lib p c)) = req_uri (request p)"
  "temp (onHeaderLineFinish lib p c) = temp p" "buffer (onHeaderLineFinish lib p c) = buffer p"
  by (simp_all add: onHeaderLineFinish_eq)

lemma body_finish_typed:
  assumes "buffer p = ToTemp" "content_ok lib Expecting_body p" "\<not> needMoreBody lib p c"
  shows "has_body lib (request (onBodyFinish lib p c)) \<and> temp (onBodyFinish lib p c) = [] \<and>
    buffer (onBodyFinish lib p c) = ToTemp"
proof -
  have "0 \<le> bodySize lib p" "int (length (temp p)) < bodySize lib p" using assms(2) by auto
  then have "int (length (temp p @ [c])) \<le> bodySize lib p"
    "in_int (bodySize lib p) \<longrightarrow> int (length (temp p @ [c])) = bodySize lib p"
    using assms(1,3) by (auto simp: needMoreBody_def deref_def int_range)
  then have "has_body lib (setBody lib (request p) (temp p @ [c]) t)" for t
    using assms(2) unfolding has_body_def bodySize_def
    by (intro exI [of _ "request p"] exI [of _ "temp p @ [c]"] exI [of _ t]) simp
  then show ?thesis using assms(1) by (simp add: onBodyFinish_def assign_def deref_def Let_def)
qed

lemma body_more_typed:
  assumes "buffer p = ToTemp" "content_ok lib Expecting_body p" "needMoreBody lib p c"
  shows "content_ok lib Expecting_body (appendToBuffer p c) \<and> buffer (appendToBuffer p c) = ToTemp"
proof -
  have "int (length (temp p)) + 1 < bodySize lib p mod 2 ^ 64" "0 \<le> bodySize lib p"
    using assms by (auto simp: needMoreBody_def deref_def)
  moreover from this(2) have "bodySize lib p mod 2 ^ 64 \<le> bodySize lib p" by (rule zmod_le_nonneg_dividend)
  ultimately show ?thesis using assms(1,2) by (simp add: append_at bodySize_def)
qed

lemma dispatch_typed:
  assumes "POST lib = ''POST''" "parser_typed lib (st, p)" "dispatch lib st p c = Some q"
  shows "parser_typed lib q"
proof (cases "st = Error \<or> st = Finish \<or> st = Expecting_body")
  case True
  with assms body_finish_typed [of p lib c] body_more_typed [of p lib c] show ?thesis
    by (auto simp: dispatch_def transition_table_def row_matches_def parser_typed_def split: if_splits)
next
  case False
  have typed: "buffer p = buffer_at st" "content_ok lib st p"
    using assms(2) False by (simp_all add: parser_typed_def)
  from False typed assms(1,3) show ?thesis
    by (cases st)
      (auto simp: dispatch_cases parser_typed_def append_at clearTemp_def header_finish_typed isalpha_no_newline
        line_ok_def isValidMethod_def isValidUriChar_def isNeedBody_def bodySize_def split: if_splits)
qed

lemma start_typed: "lib_relied_on lib \<Longrightarrow> parser_typed lib (Start, new_parser lib)"
  by (simp add: parser_typed_def new_parser_def lib_relied_on_def)

lemma event_typed:
  assumes "first_match process_event" "lib_relied_on lib" "parser_typed lib (st, p)" "st \<noteq> Error" "st \<noteq> Finish"
  shows "parser_typed lib (process_event (transition_table lib) (st, p) c)"
proof -
  obtain q where q: "dispatch lib st p c = Some q" using dispatch_total [OF assms(4,5)] by blast
  from dispatch_typed [OF _ assms(3) q] dispatch_engine [OF assms(1) q] assms(2) show ?thesis
    by (simp add: lib_relied_on_def)
qed

lemma loop_typed:
  assumes "first_match process_event" "lib_relied_on lib" "parser_typed lib (st, p)" "st \<noteq> Error" "st \<noteq> Finish"
  shows "parser_typed lib (snd (parse_loop process_event lib (st, p) cs))"
  using assms(3-5)
proof (induction cs arbitrary: st p)
  case (Cons c cs)
  obtain st' p' where e: "process_event (transition_table lib) (st, p) c = (st', p')" by fastforce
  from event_typed [OF assms(1,2) Cons.prems, of c] Cons.IH [of st' p'] show ?case by (auto simp: e Let_def)
qed simp

section \<open>The program\<close>

text \<open>
  What \<open>main\<close> calls to build and format its request. It prints the fields of the request it has built, not those the
  parser has collected, of which only the error flag reaches the output.
\<close>

record ('h, 'b) request_builder =
  new_Request :: "string \<Rightarrow> string \<Rightarrow> ('h, 'b) Request"
  setHost :: "'h \<Rightarrow> string \<Rightarrow> 'h"
  setConnectionClose :: "'h \<Rightarrow> 'h"
  setJSONBody :: "('h, 'b) Request \<Rightarrow> string \<Rightarrow> ('h, 'b) Request"
  format :: "('h, 'b) Request \<Rightarrow> string"
  headers_of :: "'h \<Rightarrow> (string \<times> string) list"
  body_of :: "('h, 'b) Request \<Rightarrow> string"

definition main_request :: "('h, 'b) http_lib \<Rightarrow> ('h, 'b) request_builder \<Rightarrow> ('h, 'b) Request" where
  "main_request lib rb =
     (let r0 = new_Request rb ''/post'' (POST lib);
          r1 = r0\<lparr>headerList := setHost rb (headerList r0) ''httpbin.org''\<rparr>;
          r2 = r1\<lparr>headerList := setConnectionClose rb (headerList r1)\<rparr>
      in setJSONBody rb r2 ''{}'')"

definition report_lines :: "('h, 'b) http_lib \<Rightarrow> ('h, 'b) request_builder \<Rightarrow> bool \<Rightarrow> ('h, 'b) Request \<Rightarrow> string list" where
  "report_lines lib rb failed r =
     [''error: '' @ (if failed then ''1'' else ''0''), ''method: '' @ req_method r, ''uri: '' @ req_uri r,
      ''major: '' @ show_int (http_version_major r), ''minor: '' @ show_int (http_version_minor r), ''headers: ''] @
     map (\<lambda>(n, v). ''  '' @ n @ '': '' @ v) (headers_of rb (headerList r)) @
     (if req_method r = POST lib then [''body: '', body_of rb r] else [])"

definition fsmlite_main :: "('h, 'b) engine \<Rightarrow> ('h, 'b) http_lib \<Rightarrow> ('h, 'b) request_builder \<Rightarrow> string list" where
  "fsmlite_main process_event lib rb =
     (let r = main_request lib rb; reqBuf = format rb r
      in [''-------'', reqBuf, ''-------''] @ report_lines lib rb (fst (parse_request process_event lib reqBuf)) r)"

text \<open>Two runs on the same formatted request that agree on the error print the same.\<close>

lemma fsmlite_main_output:
  assumes "fst (parse_request process_event lib (format rb (main_request lib rb))) = failed"
  shows "fsmlite_main process_event lib rb =
    [''-------'', format rb (main_request lib rb), ''-------''] @ report_lines lib rb failed (main_request lib rb)"
  using assms by (simp add: fsmlite_main_def Let_def)

text \<open>An instance of the request classes, and the output of the program with it.\<close>

definition demo_builder :: "((string \<times> string) list, string) request_builder" where
  "demo_builder =
     \<lparr>new_Request = (\<lambda>u m. (default_Request demo_lib)\<lparr>req_method := m, req_uri := u\<rparr>),
      setHost = (\<lambda>h v. h @ [(''Host'', v)]), setConnectionClose = (\<lambda>h. h @ [(''Connection'', ''close'')]),
      setJSONBody = (\<lambda>r b. r\<lparr>headerList := headerList r @ [(''Content-Length'', show_nat (length b))], req_body := b\<rparr>),
      format = (\<lambda>r. request_line (req_method r) (req_uri r) ''HTTP'' ''1'' ''1'' @
        header_section (map (\<lambda>(n, v). n @ '': '' @ v) (headerList r)) @ req_body r),
      headers_of = id, body_of = req_body\<rparr>"

lemma demo_builder_output:
  "fsmlite_main demo_engine demo_lib demo_builder =
     [''-------'', format demo_builder (main_request demo_lib demo_builder), ''-------'',
      ''error: 0'', ''method: POST'', ''uri: /post'', ''major: 1'', ''minor: 1'', ''headers: '',
      ''  Host: httpbin.org'', ''  Connection: close'', ''  Content-Length: 2'', ''body: '', ''{}'']"
  by code_simp

section \<open>Properties\<close>

text \<open>
  C7: The parser's state is well typed. It is when the parser starts, and every event, whatever the character, keeps it: \<open>buffer_\<close>
  points to the method, the URI or the scratch string as the state demands, the method is made of letters and is \<open>GET\<close> or \<open>POST\<close> from
  the URI on, the URI holds only valid characters, the version fields are digits, a header line holds no line break and
  the body is never longer than announced. So every text that is parsed to the end gives a request with a
  valid method and URI, or such a \<open>POST\<close> request with a body of exactly the announced length.
\<close>
theorem parser_well_typed:
  assumes "first_match process_event" and "lib_relied_on lib"
  shows "parser_typed lib (Start, new_parser lib) \<and>
    (\<forall>st p c. parser_typed lib (st, p) \<longrightarrow> st \<noteq> Error \<longrightarrow> st \<noteq> Finish \<longrightarrow>
       parser_typed lib (process_event (transition_table lib) (st, p) c)) \<and>
    (\<forall>input p. parse_request process_event lib input = (False, Finish, p) \<longrightarrow>
       line_ok (request p) \<or> has_body lib (request p))"
proof (intro conjI allI impI)
  show "parser_typed lib (Start, new_parser lib)" by (rule start_typed [OF assms(2)])
  show "parser_typed lib (process_event (transition_table lib) (st, p) c)"
    if "parser_typed lib (st, p)" "st \<noteq> Error" "st \<noteq> Finish" for st p c
    by (rule event_typed [OF assms that])
  show "line_ok (request p) \<or> has_body lib (request p)"
    if "parse_request process_event lib input = (False, Finish, p)" for input p
    using loop_typed [OF assms start_typed [OF assms(2)], of input] that
    by (auto simp: parse_request_def parser_typed_def)
qed

theorem parser_well_typed_witness:
  "parser_typed demo_lib (demo_engine (transition_table demo_lib) (Start, new_parser demo_lib) CHR ''G'') \<and>
   parse_request demo_engine demo_lib (request_line ''GET'' ''/'' ''http'' ''1'' ''1'' @ crlf) =
     (False, Finish, snd (snd (parse_request demo_engine demo_lib (request_line ''GET'' ''/'' ''http'' ''1'' ''1'' @ crlf))))"
proof -
  have "parse_request demo_engine demo_lib (request_line ''GET'' ''/'' ''http'' ''1'' ''1'' @ crlf) =
     (False, Finish, snd (snd (parse_request demo_engine demo_lib (request_line ''GET'' ''/'' ''http'' ''1'' ''1'' @ crlf))))"
    by code_simp
  with parser_well_typed [OF demo_engine_first_match demo_lib_laws(1)] show ?thesis by auto
qed

end
