(* ===== verification/Fibonacci.thy ===== *)
theory Fibonacci
  imports Printing
begin

text \<open>
  The two Fibonacci programs: the matrix power \<open>f4\<close> of \<open>src/misc/matrix_fast_power.cpp\<close> and the
  doubly recursive \<open>f1\<close>, \<open>f2\<close> of \<open>src/misc/const_expr.cpp\<close>. Both compute on \<open>int\<close>, whose overflow is
  undefined in C++ and an error here; \<open>fib\<close> is the reference they are compared with.
\<close>

fun fib :: "nat \<Rightarrow> nat" where
  "fib 0 = 0"
| "fib (Suc 0) = 1"
| "fib (Suc (Suc n)) = fib (Suc n) + fib n"

section \<open>Matrix power\<close>

record matrix =
  a00 :: int
  a01 :: int
  a10 :: int
  a11 :: int

definition dot :: "int \<Rightarrow> int \<Rightarrow> int \<Rightarrow> int \<Rightarrow> int checked" where
  "dot x y u v = bind_checked (int_mul x y) (\<lambda>p. bind_checked (int_mul u v) (\<lambda>q. int_add p q))"

definition matrix_times :: "matrix \<Rightarrow> matrix \<Rightarrow> matrix checked" where
  "matrix_times a b =
     bind_checked (dot (a00 a) (a00 b) (a01 a) (a10 b)) (\<lambda>r00.
     bind_checked (dot (a00 a) (a01 b) (a01 a) (a11 b)) (\<lambda>r01.
     bind_checked (dot (a10 a) (a00 b) (a11 a) (a10 b)) (\<lambda>r10.
     bind_checked (dot (a10 a) (a01 b) (a11 a) (a11 b)) (\<lambda>r11.
       Inr \<lparr>a00 = r00, a01 = r01, a10 = r10, a11 = r11\<rparr>))))"

lemma bind_checked_cong [fundef_cong]:
  "m = m' \<Longrightarrow> (\<And>x. m' = Inr x \<Longrightarrow> f x = g x) \<Longrightarrow> bind_checked m f = bind_checked m' g"
  by (cases m') simp_all

text \<open>
  The loop of \<open>f4\<close>; \<open>out\<close> holds the matrices it prints. The division and the remainder are
  those of C++, which agree with \<open>div\<close> and \<open>mod\<close> on a positive \<open>n\<close>.
\<close>

function f4_loop :: "int \<Rightarrow> matrix \<Rightarrow> matrix \<Rightarrow> matrix list \<Rightarrow> (matrix \<times> matrix list) checked" where
  "f4_loop n r a out =
     (if n > 0
      then bind_checked (if n mod 2 = 1 then matrix_times r a else Inr r) (\<lambda>r'.
           bind_checked (matrix_times a a) (\<lambda>a'.
             f4_loop (n div 2) r' a' (out @ [r, a])))
      else Inr (r, out))"
  by pat_completeness auto
termination
  by (relation "measure (\<lambda>(n, _). nat n)") auto

definition f4 :: "int \<Rightarrow> (int \<times> matrix list) checked" where
  "f4 n =
     (if n \<le> 0 then Inr (0, [])
      else bind_checked
        (f4_loop (n - 1) \<lparr>a00 = 1, a01 = 0, a10 = 0, a11 = 1\<rparr> \<lparr>a00 = 1, a01 = 1, a10 = 1, a11 = 0\<rparr> [])
        (\<lambda>(r, out). Inr (a00 r, out @ [r])))"

text \<open>What \<open>print\<close> writes for a matrix, and the output of \<open>main\<close>, which calls \<open>f4\<close> with 6.\<close>

definition matrix_print :: "matrix \<Rightarrow> string" where
  "matrix_print m = ''[ '' @ show_int (a00 m) @ '', '' @ show_int (a01 m) @ [CHR 0x0A] @ ''  '' @ show_int (a10 m) @ '', '' @
     show_int (a11 m) @ '' ]'' @ [CHR 0x0A]"

definition matrix_main :: "(int \<times> string) checked" where
  "matrix_main = bind_checked (f4 6) (\<lambda>(value, out). Inr (0, concat (map matrix_print out)))"

section \<open>Double recursion\<close>

function f1 :: "int \<Rightarrow> u64 checked" where
  "f1 n =
     (if n = 1 \<or> n = 2 then Inr 1
      else bind_checked (int_sub n 1) (\<lambda>m. bind_checked (f1 m) (\<lambda>x.
           bind_checked (int_sub n 2) (\<lambda>k. bind_checked (f1 k) (\<lambda>y. Inr (x + y))))))"
  by pat_completeness auto
termination
  by (relation "measure (\<lambda>n. nat (n - INT_MIN + 1))") (auto simp: int_sub_def int_range)

function f2 :: "int \<Rightarrow> u64 checked" where
  "f2 n =
     (if n = 1 \<or> n = 2 then Inr 1
      else bind_checked (int_sub n 1) (\<lambda>m. bind_checked (f2 m) (\<lambda>x.
           bind_checked (int_sub n 2) (\<lambda>k. bind_checked (f2 k) (\<lambda>y. Inr (x + y))))))"
  by pat_completeness auto
termination
  by (relation "measure (\<lambda>n. nat (n - INT_MIN + 1))") (auto simp: int_sub_def int_range)

text \<open>A timed block of \<open>main\<close>: one hundred additions of \<open>f(25)\<close> to a 64-bit sum.\<close>

fun add_times :: "nat \<Rightarrow> u64 checked \<Rightarrow> u64 \<Rightarrow> u64 checked" where
  "add_times 0 x v = Inr v"
| "add_times (Suc k) x v = bind_checked x (\<lambda>y. add_times k x (v + y))"

definition main_block :: "(int \<Rightarrow> u64 checked) \<Rightarrow> u64 checked" where
  "main_block f = add_times 100 (f 25) 0"

section \<open>Facts on \<open>fib\<close>\<close>

declare f4_loop.simps [simp del] f1.simps [simp del] f2.simps [simp del]

lemma fib_add: "fib (Suc (j + k)) = fib (Suc j) * fib (Suc k) + fib j * fib k"
proof (induction k rule: fib.induct)
  case (3 k)
  have "fib (Suc (j + Suc (Suc k))) = fib (Suc (j + Suc k)) + fib (Suc (j + k))" by simp
  with 3 show ?case by (simp add: algebra_simps)
qed simp_all

lemma fib_mono_Suc: "fib n \<le> fib (Suc n)"
  by (cases n) simp_all

lemma fib_mono: "m \<le> n \<Longrightarrow> fib m \<le> fib n"
  by (rule lift_Suc_mono_le [of fib]) (rule fib_mono_Suc)

lemma fib_values:
  "fib 11 = 89" "fib 12 = 144" "fib 13 = 233" "fib 22 = 17711" "fib 23 = 28657" "fib 24 = 46368"
  "fib 25 = 75025"
proof -
  have small: "fib 5 = 5" "fib 6 = 8" "fib 7 = 13" by (simp_all add: numeral_eq_Suc)
  show mid: "fib 11 = 89" "fib 12 = 144" "fib 13 = 233"
    using fib_add [of 5 5] fib_add [of 5 6] fib_add [of 6 6] by (simp_all add: small)
  show big: "fib 23 = 28657" "fib 24 = 46368" "fib 25 = 75025"
    using fib_add [of 11 11] fib_add [of 11 12] fib_add [of 12 12] by (simp_all add: mid)
  show "fib 22 = 17711" using fib.simps(3) [of 22] by (simp add: big)
qed

lemma fib_limit: "fib 46 = 1836311903" "fib 47 = 2971215073"
  using fib_add [of 22 23] fib_add [of 23 23] by (simp_all add: fib_values)

text \<open>The powers of the matrix \<open>[1, 1; 1, 0]\<close>.\<close>

definition fib_matrix :: "nat \<Rightarrow> matrix" where
  "fib_matrix k =
     \<lparr>a00 = int (fib (Suc k)), a01 = int (fib k), a10 = int (fib k),
      a11 = int (fib (Suc k)) - int (fib k)\<rparr>"

definition fits :: "nat \<Rightarrow> bool" where
  "fits k \<longleftrightarrow> int (fib (Suc k)) \<le> INT_MAX"

section \<open>The checked product\<close>

lemma in_int_le: "0 \<le> x \<Longrightarrow> x \<le> y \<Longrightarrow> in_int y \<Longrightarrow> in_int x"
  by (simp add: int_range)

lemma in_int_nonneg: "0 \<le> x \<Longrightarrow> in_int x \<longleftrightarrow> x \<le> INT_MAX"
  by (simp add: int_range)

text \<open>On operands that are not negative a sum of products fits exactly when its value does.\<close>

lemma dot_nonneg:
  assumes "0 \<le> x" "0 \<le> y" "0 \<le> u" "0 \<le> v"
  shows "dot x y u v = to_int (x * y + u * v)"
proof (cases "in_int (x * y + u * v)")
  case True
  moreover from True have "in_int (x * y)" "in_int (u * v)"
    using assms by (auto intro: in_int_le [of _ "x * y + u * v"])
  ultimately show ?thesis by (simp add: dot_def int_ops to_int_in)
next
  case False
  then show ?thesis by (cases "in_int (x * y)"; cases "in_int (u * v)")
      (simp_all add: dot_def int_ops checked_simps)
qed

lemma int_fib_diff: "0 \<le> int (fib (Suc k)) - int (fib k)"
  using fib_mono_Suc [of k] by simp

lemma fib_add_int:
  "int (fib (Suc j)) * int (fib (Suc k)) + int (fib j) * int (fib k) = int (fib (Suc (j + k)))"
  by (simp add: fib_add)

lemma fib_add_int':
  "int (fib (Suc j)) * int (fib k) + int (fib j) * (int (fib (Suc k)) - int (fib k)) =
     int (fib (j + k))"
proof (cases k)
  case (Suc i)
  then show ?thesis using fib_add_int [of j i] by (simp add: algebra_simps)
qed simp

lemma matrix_times_fib:
  "matrix_times (fib_matrix j) (fib_matrix k) =
     (if fits (j + k) then Inr (fib_matrix (j + k)) else Inl SignedOverflow)"
proof -
  have eqs: "dot (int (fib (Suc j))) (int (fib (Suc k))) (int (fib j)) (int (fib k)) =
      to_int (int (fib (Suc (j + k))))"
    "dot (int (fib (Suc j))) (int (fib k)) (int (fib j)) (int (fib (Suc k)) - int (fib k)) =
      to_int (int (fib (j + k)))"
    "dot (int (fib j)) (int (fib (Suc k))) (int (fib (Suc j)) - int (fib j)) (int (fib k)) =
      to_int (int (fib (j + k)))"
    "dot (int (fib j)) (int (fib k)) (int (fib (Suc j)) - int (fib j))
        (int (fib (Suc k)) - int (fib k)) =
      to_int (int (fib (Suc (j + k))) - int (fib (j + k)))"
    using fib_add_int [of j k] fib_add_int' [of j k] fib_add_int' [of k j]
      int_fib_diff [of j] int_fib_diff [of k]
    by (simp_all add: dot_nonneg algebra_simps)
  show ?thesis
  proof (cases "fits (j + k)")
    case True
    then have "in_int (int (fib (Suc (j + k))))" by (simp add: fits_def in_int_nonneg)
    moreover from this have "in_int (int (fib (j + k)))"
      "in_int (int (fib (Suc (j + k))) - int (fib (j + k)))"
      using fib_mono_Suc [of "j + k"] by (simp_all add: int_range)
    ultimately show ?thesis using True eqs
      by (simp add: matrix_times_def fib_matrix_def to_int_in)
  next
    case False
    then show ?thesis using eqs(1)
      by (simp add: matrix_times_def fib_matrix_def to_int_out fits_def in_int_nonneg)
  qed
qed

lemma fits_mono: "fits k \<Longrightarrow> j \<le> k \<Longrightarrow> fits j"
  using fib_mono [of "Suc j" "Suc k"] by (simp add: fits_def)

section \<open>The loop\<close>

lemma nat_halves: "0 \<le> n \<Longrightarrow> nat n = 2 * nat (n div 2) + (if n mod 2 = 1 then 1 else 0)"
proof -
  assume "0 \<le> n"
  then have "int (nat n) = int (2 * nat (n div 2) + (if n mod 2 = 1 then 1 else 0))"
    by (simp split: if_split) presburger
  then show ?thesis by (simp only: of_nat_eq_iff)
qed

lemma f4_loop_ok:
  assumes "0 \<le> n" "n < 2 ^ k" "q < p" "fits (p * 2 ^ k)"
  shows "\<exists>out'. f4_loop n (fib_matrix q) (fib_matrix p) out = Inr (fib_matrix (q + nat n * p), out')"
  using assms
proof (induction k arbitrary: n q p out)
  case 0
  then show ?case by (simp add: f4_loop.simps [of n])
next
  case (Suc k)
  show ?case
  proof (cases "n > 0")
    case True
    let ?q = "if n mod 2 = 1 then q + p else q"
    have le: "2 * p \<le> p * 2 ^ Suc k" "?q \<le> 2 * p"
      using Suc.prems(3) by simp_all
    have fits: "fits ?q" "fits (2 * p)"
      using fits_mono [OF Suc.prems(4) order_trans [OF le(2,1)]] fits_mono [OF Suc.prems(4) le(1)] by simp_all
    have r: "(if n mod 2 = 1 then matrix_times (fib_matrix q) (fib_matrix p) else Inr (fib_matrix q)) =
        Inr (fib_matrix ?q)"
      using fits(1) by (cases "n mod 2 = 1") (simp_all add: matrix_times_fib)
    have a: "matrix_times (fib_matrix p) (fib_matrix p) = Inr (fib_matrix (2 * p))"
      using fits(2) by (simp add: matrix_times_fib mult_2)
    have half: "n div 2 < 2 ^ k" using Suc.prems(2) by simp
    have "nat n = 2 * nat (n div 2) + (if n mod 2 = 1 then 1 else 0)"
      using Suc.prems(1) by (rule nat_halves)
    then have "q + nat n * p = ?q + nat (n div 2) * (2 * p)" by (simp add: algebra_simps)
    moreover have "\<exists>out'. f4_loop (n div 2) (fib_matrix ?q) (fib_matrix (2 * p))
        (out @ [fib_matrix q, fib_matrix p]) =
        Inr (fib_matrix (?q + nat (n div 2) * (2 * p)), out')"
      using Suc.prems True half by (intro Suc.IH) (simp_all add: ac_simps)
    ultimately show ?thesis
      using True r a by (simp add: f4_loop.simps [of n])
  next
    case False
    then show ?thesis using Suc.prems(1) by (simp add: f4_loop.simps [of 0])
  qed
qed

lemma f4_loop_overflow:
  assumes "2 ^ k \<le> n" "q < p" "fits (p * 2 ^ k)" "\<not> fits (p * 2 ^ Suc k)"
  shows "f4_loop n (fib_matrix q) (fib_matrix p) out = Inl SignedOverflow"
  using assms
proof (induction k arbitrary: n q p out)
  case 0
  then have "matrix_times (fib_matrix p) (fib_matrix p) = Inl SignedOverflow"
    by (simp add: matrix_times_fib mult_2_right)
  with 0 show ?case by (simp add: f4_loop.simps [of n] matrix_times_fib)
next
  case (Suc k)
  let ?q = "if n mod 2 = 1 then q + p else q"
  have pos: "n > 0" using Suc.prems(1) by (smt (verit) zero_less_power)
  have le: "2 * p \<le> p * 2 ^ Suc k" "?q \<le> 2 * p" using Suc.prems(2) by simp_all
  have fits: "fits ?q" "fits (2 * p)"
    using fits_mono [OF Suc.prems(3) order_trans [OF le(2,1)]] fits_mono [OF Suc.prems(3) le(1)] by simp_all
  have "f4_loop (n div 2) (fib_matrix ?q) (fib_matrix (2 * p))
      (out @ [fib_matrix q, fib_matrix p]) = Inl SignedOverflow"
    using Suc.prems by (intro Suc.IH) (simp_all add: ac_simps)
  moreover have "(if n mod 2 = 1 then matrix_times (fib_matrix q) (fib_matrix p) else Inr (fib_matrix q)) =
      Inr (fib_matrix ?q)"
    "matrix_times (fib_matrix p) (fib_matrix p) = Inr (fib_matrix (2 * p))"
    using fits by (cases "n mod 2 = 1"; simp add: matrix_times_fib mult_2)+
  ultimately show ?case using pos by (simp add: f4_loop.simps [of n])
qed

lemma fib_matrix_start:
  "\<lparr>a00 = 1, a01 = 0, a10 = 0, a11 = 1\<rparr> = fib_matrix 0"
  "\<lparr>a00 = 1, a01 = 1, a10 = 1, a11 = 0\<rparr> = fib_matrix 1"
  by (simp_all add: fib_matrix_def)

lemma fits_32: "fits 32"
  using fib_mono [of "Suc 32" 46] by (simp add: fits_def fib_limit int_range)

lemma not_fits_64: "\<not> fits 64"
  using fib_mono [of 47 "Suc 64"] by (simp add: fits_def fib_limit int_range)

lemma f1_f2: "f1 n = f2 n"
proof (induction n rule: f1.induct)
  case (1 n)
  show ?case unfolding f1.simps [of n] f2.simps [of n]
    by (intro if_cong bind_checked_cong refl) (fact "1.IH", metis "1.IH")
qed

lemma f1_pos: "1 \<le> n \<Longrightarrow> n \<le> INT_MAX \<Longrightarrow> f1 n = Inr (word_of_nat (fib (nat n)))"
proof (induction n rule: f1.induct)
  case (1 n)
  show ?case
  proof (cases "n = 1 \<or> n = 2")
    case True
    then show ?thesis by (auto simp: f1.simps numeral_2_eq_2)
  next
    case False
    with "1.prems" have n: "3 \<le> n" by linarith
    have sub: "int_sub n 1 = Inr (n - 1)" "int_sub n 2 = Inr (n - 2)"
      using n "1.prems"(2) by (simp_all add: int_sub_def to_int_in int_range)
    have IH: "f1 (n - 1) = Inr (word_of_nat (fib (nat (n - 1))))"
      "f1 (n - 2) = Inr (word_of_nat (fib (nat (n - 2))))"
      using "1.IH"(1) [OF False sub(1)] "1.IH"(2) [OF False sub(1) _ sub(2)] n "1.prems"(2) by simp_all
    have "nat n = Suc (Suc (nat (n - 2)))" "nat (n - 1) = Suc (nat (n - 2))" using n by simp_all
    then show ?thesis using False by (simp add: f1.simps [of n] sub IH)
  qed
qed

lemma f1_nonpos: "n \<le> 0 \<Longrightarrow> f1 n = Inl SignedOverflow"
proof (induction n rule: f1.induct)
  case (1 n)
  from "1.prems" have n: "\<not> (n = 1 \<or> n = 2)" by auto
  show ?case
  proof (cases "in_int (n - 1)")
    case True
    then have sub: "int_sub n 1 = Inr (n - 1)" by (simp add: int_sub_def to_int_in)
    have "f1 (n - 1) = Inl SignedOverflow" using "1.IH"(1) [OF n sub] "1.prems" by simp
    then show ?thesis using n by (subst f1.simps) (simp add: sub)
  next
    case False
    then show ?thesis using n by (subst f1.simps) (simp add: int_sub_def to_int_out)
  qed
qed

section \<open>Properties\<close>

text \<open>
  C28: for every \<open>n\<close> up to 32 \<open>f4\<close> terminates without overflow and returns the \<open>n\<close>-th Fibonacci
  number (0 for an argument that is not positive).
\<close>

theorem f4_correct:
  assumes "n \<le> 32"
  shows "\<exists>out. f4 n = Inr (int (fib (nat n)), out)"
proof (cases "n \<le> 0")
  case True
  then show ?thesis by (simp add: f4_def)
next
  case False
  have "\<exists>out. f4_loop (n - 1) (fib_matrix 0) (fib_matrix 1) [] =
      Inr (fib_matrix (0 + nat (n - 1) * 1), out)"
    by (rule f4_loop_ok [where k = 5]) (use assms False fits_32 in simp_all)
  moreover have "Suc (nat (n - 1)) = nat n" using False by simp
  moreover have "a00 (fib_matrix (nat (n - 1))) = int (fib (Suc (nat (n - 1))))"
    by (simp add: fib_matrix_def)
  ultimately show ?thesis using False
    by (auto simp: f4_def fib_matrix_start)
qed

theorem f4_correct_witness: "\<exists>out. f4 6 = Inr (8, out)"
  using f4_correct [of 6] by (simp add: numeral_eq_Suc)

text \<open>
  From \<open>n = 33\<close> on the squaring of the base overflows. For \<open>n\<close> up to 46 the result itself
  would fit in an \<open>int\<close>: the overflow is in a square that the loop does not use any more.
\<close>

lemma f4_overflows:
  assumes "33 \<le> n"
  shows "f4 n = Inl SignedOverflow \<and> (n \<le> 46 \<longrightarrow> in_int (int (fib (nat n))))"
proof (intro conjI impI)
  have "f4_loop (n - 1) (fib_matrix 0) (fib_matrix 1) [] = Inl SignedOverflow"
    by (rule f4_loop_overflow [where k = 5]) (use assms fits_32 not_fits_64 in simp_all)
  then show "f4 n = Inl SignedOverflow" using assms by (simp add: f4_def fib_matrix_start)
next
  assume "n \<le> 46"
  then have "fib (nat n) \<le> fib 46" by (intro fib_mono) simp
  then show "in_int (int (fib (nat n)))" by (simp add: fib_limit int_range)
qed

lemma f4_overflows_witness: "f4 46 = Inl SignedOverflow \<and> in_int (int (fib 46))"
  using f4_overflows [of 46] by simp

text \<open>
  The two recursive versions agree everywhere; on a positive argument they return the Fibonacci
  number modulo \<open>2 ^ 64\<close>, and on any other one the recursion runs down to the overflow of \<open>n - 1\<close>.
\<close>

lemma f1_f2_correct:
  assumes "in_int n"
  shows "f2 n = f1 n \<and>
    f1 n = (if 1 \<le> n then Inr (word_of_nat (fib (nat n))) else Inl SignedOverflow)"
  using assms f1_pos [of n] f1_nonpos [of n] by (simp add: f1_f2 in_int_def)

lemma f1_f2_correct_witness: "f2 25 = f1 25 \<and> f1 25 = Inr 75025 \<and> f1 0 = Inl SignedOverflow"
  using f1_f2_correct [of 25] f1_f2_correct [of 0] by (simp add: fib_values int_range)

text \<open>The timed blocks of \<open>main\<close> all sum up to \<open>7502500\<close>.\<close>

lemma main_blocks: "main_block f1 = Inr 7502500 \<and> main_block f2 = Inr 7502500"
proof -
  have "f1 25 = Inr 75025" using f1_pos [of 25] by (simp add: fib_values int_range)
  then show ?thesis by (simp add: main_block_def numeral_eq_Suc flip: f1_f2)
qed

text \<open>The seven matrices that \<open>main\<close> prints: the result so far and the power in each of three rounds, then the result.\<close>

lemma matrix_main_output:
  "matrix_main = Inr (0, concat (map (\<lambda>(a, b, c, d). matrix_print \<lparr>a00 = a, a01 = b, a10 = c, a11 = d\<rparr>)
     [(1, 0, 0, 1), (1, 1, 1, 0), (1, 1, 1, 0), (2, 1, 1, 1), (1, 1, 1, 0), (5, 3, 3, 2), (8, 5, 5, 3)]))"
  by code_simp

end
