(* ===== verification/Handler_Memory.thy ===== *)
theory Handler_Memory
  imports Prelude
begin

text \<open>
  The handler allocator of \<open>src/asio/allocation/allocation.cpp\<close> and
  \<open>src/asio/buffer/reference_counted_buffer.cpp\<close> (the same code in both): \<open>handler_memory\<close>, one block
  of 1024 bytes inside each connection with the heap behind it, and \<open>handler_allocator\<close>, the typed
  view of it that asio uses. The interface \<open>block_allocator\<close> says what a client may rely on.

  The heap is the C++ free store: \<open>::operator new\<close> returns a block that is not in use and
  \<open>::operator delete\<close> takes back a block it gave out; deleting anything else is undefined behaviour,
  the error \<open>BadFree\<close>. Running out of memory (\<open>std::bad_alloc\<close>) is not modelled.
\<close>

section \<open>The free store\<close>

datatype pointer = Storage | Heap nat

record free_store =
  live :: "nat list"
  fresh :: nat

definition operator_new :: "u64 \<Rightarrow> free_store \<Rightarrow> pointer \<times> free_store" where
  "operator_new sz h = (Heap (fresh h), h\<lparr>live := fresh h # live h, fresh := fresh h + 1\<rparr>)"

definition operator_delete :: "pointer \<Rightarrow> free_store \<Rightarrow> free_store checked" where
  "operator_delete p h =
     (case p of
        Storage \<Rightarrow> Inl BadFree
      | Heap a \<Rightarrow> if a \<in> set (live h) then Inr (h\<lparr>live := remove1 a (live h)\<rparr>) else Inl BadFree)"

section \<open>\<open>handler_memory\<close>\<close>

record handler_memory =
  in_use :: bool

definition new_handler_memory :: handler_memory where
  "new_handler_memory = \<lparr>in_use = False\<rparr>"

definition storage_size :: u64 where
  "storage_size = 1024"

type_synonym memory = "handler_memory \<times> free_store"

definition mem_allocate :: "u64 \<Rightarrow> memory \<Rightarrow> pointer \<times> memory" where
  "mem_allocate sz mh =
     (case mh of (m, h) \<Rightarrow>
        if \<not> in_use m \<and> sz < storage_size
        then (Storage, m\<lparr>in_use := True\<rparr>, h)
        else let (p, h') = operator_new sz h in (p, m, h'))"

definition mem_deallocate :: "pointer \<Rightarrow> memory \<Rightarrow> memory checked" where
  "mem_deallocate p mh =
     (case mh of (m, h) \<Rightarrow>
        if p = Storage then Inr (m\<lparr>in_use := False\<rparr>, h)
        else bind_checked (operator_delete p h) (\<lambda>h'. Inr (m, h')))"

section \<open>\<open>handler_allocator\<close>\<close>

text \<open>
  An allocator is a reference to the memory of its connection, here its address \<open>memory_at\<close>, and the size
  of its value type. The product \<open>sizeof(T) * n\<close> is that of \<open>std::size_t\<close> and wraps.
\<close>

record handler_allocator =
  memory_at :: nat
  sizeof_T :: u64

definition allocator_eq :: "handler_allocator \<Rightarrow> handler_allocator \<Rightarrow> bool" where
  "allocator_eq a b \<longleftrightarrow> memory_at a = memory_at b"

definition allocator_neq :: "handler_allocator \<Rightarrow> handler_allocator \<Rightarrow> bool" where
  "allocator_neq a b \<longleftrightarrow> memory_at a \<noteq> memory_at b"

definition rebind :: "u64 \<Rightarrow> handler_allocator \<Rightarrow> handler_allocator" where
  "rebind sizeof_U a = \<lparr>memory_at = memory_at a, sizeof_T = sizeof_U\<rparr>"

definition alloc_allocate :: "handler_allocator \<Rightarrow> u64 \<Rightarrow> memory \<Rightarrow> pointer \<times> memory" where
  "alloc_allocate a n mh = mem_allocate (sizeof_T a * n) mh"

definition alloc_deallocate :: "handler_allocator \<Rightarrow> pointer \<Rightarrow> u64 \<Rightarrow> memory \<Rightarrow> memory checked" where
  "alloc_deallocate a p n mh = mem_deallocate p mh"

section \<open>The contract of an allocator\<close>

locale block_allocator =
  fixes ok :: "'s \<Rightarrow> bool"
    and blocks :: "'s \<Rightarrow> 'p set"
    and alloc :: "u64 \<Rightarrow> 's \<Rightarrow> 'p \<times> 's"
    and free :: "'p \<Rightarrow> 's \<Rightarrow> 's checked"
  assumes alloc_ok: "ok s \<Longrightarrow> alloc n s = (p, t) \<Longrightarrow> ok t"
    and alloc_fresh: "ok s \<Longrightarrow> alloc n s = (p, t) \<Longrightarrow> p \<notin> blocks s"
    and alloc_blocks: "ok s \<Longrightarrow> alloc n s = (p, t) \<Longrightarrow> blocks t = insert p (blocks s)"
    and free_block: "ok s \<Longrightarrow> p \<in> blocks s \<Longrightarrow> \<exists>t. free p s = Inr t \<and> ok t \<and> blocks t = blocks s - {p}"
begin

lemma alloc_free:
  assumes "ok s" "alloc n s = (p, t)"
  shows "\<exists>u. free p t = Inr u \<and> ok u \<and> blocks u = blocks s"
  using free_block [OF alloc_ok [OF assms], of p] alloc_blocks [OF assms] alloc_fresh [OF assms] by auto

lemma free_alloc_blocks:
  assumes "ok s" "p \<in> blocks s" "free p s = Inr t" "alloc n t = (q, u)"
  shows "ok u \<and> blocks u = insert q (blocks s - {p})"
  using free_block [OF assms(1,2)] assms(3,4) alloc_ok alloc_blocks by auto

end

section \<open>The contract holds\<close>

definition mem_ok :: "memory \<Rightarrow> bool" where
  "mem_ok mh \<longleftrightarrow> distinct (live (snd mh)) \<and> (\<forall>a \<in> set (live (snd mh)). a < fresh (snd mh))"

definition mem_blocks :: "memory \<Rightarrow> pointer set" where
  "mem_blocks mh = (if in_use (fst mh) then {Storage} else {}) \<union> Heap ` set (live (snd mh))"

lemmas mem_defs =
  mem_allocate_def mem_deallocate_def operator_new_def operator_delete_def mem_ok_def mem_blocks_def

lemma mem_allocate_spec:
  assumes "mem_ok mh" "mem_allocate n mh = (p, t)"
  shows "mem_ok t" "p \<notin> mem_blocks mh" "mem_blocks t = insert p (mem_blocks mh)"
proof -
  obtain m h where mh: "mh = (m, h)" by (cases mh)
  show "mem_ok t" "p \<notin> mem_blocks mh" "mem_blocks t = insert p (mem_blocks mh)"
    using assms by (fastforce simp: mh mem_defs split: if_splits)+
qed

lemma mem_deallocate_spec:
  assumes "mem_ok mh" "p \<in> mem_blocks mh"
  shows "\<exists>t. mem_deallocate p mh = Inr t \<and> mem_ok t \<and> mem_blocks t = mem_blocks mh - {p}"
  using assms by (cases mh; cases p) (auto simp: mem_defs set_remove1_eq dest: notin_set_remove1)

interpretation handler: block_allocator mem_ok mem_blocks mem_allocate mem_deallocate
  by unfold_locales (fact mem_allocate_spec mem_deallocate_spec)+

lemma new_memory_ok: "mem_ok (new_handler_memory, \<lparr>live = [], fresh = k\<rparr>)"
  by (simp add: mem_ok_def)

section \<open>Properties\<close>

text \<open>
  C27: the block a handler gets is not in use by any other handler, the block inside the connection is
  given out exactly when it is free and the request is below 1024 bytes, and giving the block back
  succeeds and restores the blocks in use.
\<close>

theorem handler_memory_contract:
  assumes "mem_ok mh" "alloc_allocate a n mh = (p, t)"
  shows "p \<notin> mem_blocks mh \<and> mem_blocks t = insert p (mem_blocks mh) \<and>
    (p = Storage \<longleftrightarrow> Storage \<notin> mem_blocks mh \<and> unat (sizeof_T a * n) < 1024) \<and>
    (\<exists>u. alloc_deallocate b p n t = Inr u \<and> mem_ok u \<and> mem_blocks u = mem_blocks mh)"
proof -
  note alloc = assms(2) [unfolded alloc_allocate_def]
  have "p = Storage \<longleftrightarrow> Storage \<notin> mem_blocks mh \<and> sizeof_T a * n < 1024"
    using alloc by (cases mh) (auto simp: mem_defs storage_size_def split: if_splits)
  then show ?thesis
    using handler.alloc_fresh [OF assms(1) alloc] handler.alloc_blocks [OF assms(1) alloc]
      handler.alloc_free [OF assms(1) alloc]
    by (simp add: alloc_deallocate_def word_less_nat_alt)
qed

theorem handler_memory_contract_witness:
  "alloc_allocate \<lparr>memory_at = 7, sizeof_T = 8\<rparr> 3 (new_handler_memory, \<lparr>live = [], fresh = 0\<rparr>) =
     (Storage, \<lparr>in_use = True\<rparr>, \<lparr>live = [], fresh = 0\<rparr>) \<and>
   Storage \<notin> mem_blocks (new_handler_memory, \<lparr>live = [], fresh = 0\<rparr>) \<and>
   (\<exists>u. alloc_deallocate \<lparr>memory_at = 7, sizeof_T = 8\<rparr> Storage 3
           (\<lparr>in_use = True\<rparr>, \<lparr>live = [], fresh = 0\<rparr>) = Inr u \<and>
      mem_blocks u = mem_blocks (new_handler_memory, \<lparr>live = [], fresh = 0\<rparr>))"
proof -
  have alloc: "alloc_allocate \<lparr>memory_at = 7, sizeof_T = 8\<rparr> 3 (new_handler_memory, \<lparr>live = [], fresh = 0\<rparr>) =
     (Storage, \<lparr>in_use = True\<rparr>, \<lparr>live = [], fresh = 0\<rparr>)"
    by (simp add: alloc_allocate_def mem_defs new_handler_memory_def storage_size_def)
  show ?thesis
    using alloc handler_memory_contract [OF new_memory_ok alloc, of "\<lparr>memory_at = 7, sizeof_T = 8\<rparr>"] by blast
qed

end
