(* ===== verification/Connection.thy ===== *)
theory Connection
  imports Handler_Memory
begin

text \<open>
  The class \<open>connection\<close> and the accepting \<open>server\<close> of \<open>src/asio/allocation/allocation.cpp\<close> and
  \<open>src/asio/buffer/reference_counted_buffer.cpp\<close>. A connection alternates between writing a line and
  reading one; the two programs differ in \<open>doWrite\<close> only, so the loop is modelled over it and the
  interface \<open>responder\<close> says what the loop needs of it.

  Asio is not part of the repository. Its documented behaviour is the step relation \<open>conn_step\<close>: an
  operation gets its memory from the allocator of its handler, the memory is given back before the
  handler runs, a write may take several rounds, a read returns at most as many bytes as its buffer
  holds. \<open>op_size\<close> is the size asio asks for, \<open>StrCat\<close> is Abseil's. The time of day is an input: \<open>ctime\<close> returns 25 characters.
\<close>

section \<open>The connection\<close>

datatype async_op = WriteOp string | ReadOp

record connection =
  memory :: memory
  data :: string
  pending :: "(async_op \<times> pointer) option"

definition data_size :: nat where
  "data_size = 1024"

definition new_connection :: "string \<Rightarrow> nat \<Rightarrow> connection" where
  "new_connection garbage k =
     \<lparr>memory = (new_handler_memory, \<lparr>live = [], fresh = k\<rparr>), data = garbage, pending = None\<rparr>"

definition make_custom_alloc_handler :: "u64 \<Rightarrow> connection \<Rightarrow> handler_allocator" where
  "make_custom_alloc_handler sizeof_handler c = \<lparr>memory_at = 0, sizeof_T = sizeof_handler\<rparr>"

definition initiate :: "(async_op \<Rightarrow> u64) \<Rightarrow> async_op \<Rightarrow> connection \<Rightarrow> connection" where
  "initiate op_size k c =
     (let (p, mh) = alloc_allocate (make_custom_alloc_handler (op_size k) c) 1 (memory c)
      in c\<lparr>memory := mh, pending := Some (k, p)\<rparr>)"

definition release :: "connection \<Rightarrow> connection checked" where
  "release c =
     (case pending c of
        None \<Rightarrow> Inr c
      | Some (k, p) \<Rightarrow>
          bind_checked (alloc_deallocate (make_custom_alloc_handler 0 c) p 1 (memory c))
            (\<lambda>mh. Inr (c\<lparr>memory := mh, pending := None\<rparr>)))"

definition doRead :: "(async_op \<Rightarrow> u64) \<Rightarrow> connection \<Rightarrow> connection" where
  "doRead op_size c = initiate op_size ReadOp c"

definition response :: "(string list \<Rightarrow> string) \<Rightarrow> string \<Rightarrow> string \<Rightarrow> string" where
  "response StrCat daytime text = StrCat [''got '', text, '' on '', daytime]"

text \<open>\<open>allocation.cpp\<close>: the response is copied into \<open>data_\<close> and sent from there.\<close>

definition doWrite_memcpy ::
  "(async_op \<Rightarrow> u64) \<Rightarrow> (string list \<Rightarrow> string) \<Rightarrow> string \<Rightarrow> nat \<Rightarrow> connection \<Rightarrow> connection checked" where
  "doWrite_memcpy op_size StrCat daytime len c =
     (if data_size < len then Inl OutOfBounds
      else let r = response StrCat daytime (take len (data c)) in
        if data_size < length r then Inl OutOfBounds
        else let data' = r @ drop (length r) (data c)
          in Inr (initiate op_size (WriteOp (take (length r) data')) (c\<lparr>data := data'\<rparr>)))"

text \<open>\<open>reference_counted_buffer.cpp\<close>: the response is kept in a buffer of its own.\<close>

definition shared_const_buffer :: "string \<Rightarrow> string" where
  "shared_const_buffer str = str"

definition doWrite_shared ::
  "(async_op \<Rightarrow> u64) \<Rightarrow> (string list \<Rightarrow> string) \<Rightarrow> string \<Rightarrow> nat \<Rightarrow> connection \<Rightarrow> connection checked" where
  "doWrite_shared op_size StrCat daytime len c =
     (if data_size < len then Inl OutOfBounds
      else let buffer = shared_const_buffer (response StrCat daytime (take len (data c)))
        in Inr (initiate op_size (WriteOp buffer) c))"

type_synonym doWrite = "string \<Rightarrow> nat \<Rightarrow> connection \<Rightarrow> connection checked"

definition start :: "doWrite \<Rightarrow> string \<Rightarrow> connection \<Rightarrow> connection checked" where
  "start doWrite daytime c = doWrite daytime 0 c"

definition on_written :: "(async_op \<Rightarrow> u64) \<Rightarrow> bool \<Rightarrow> connection \<Rightarrow> connection" where
  "on_written op_size ec c = (if \<not> ec then doRead op_size c else c)"

definition on_read :: "doWrite \<Rightarrow> string \<Rightarrow> bool \<Rightarrow> nat \<Rightarrow> connection \<Rightarrow> connection checked" where
  "on_read doWrite daytime ec len c = (if \<not> ec then doWrite daytime len c else Inr c)"

definition receive :: "string \<Rightarrow> connection \<Rightarrow> connection" where
  "receive bytes c = c\<lparr>data := bytes @ drop (length bytes) (data c)\<rparr>"

section \<open>The conversation\<close>

inductive conn_step ::
  "(async_op \<Rightarrow> u64) \<Rightarrow> doWrite \<Rightarrow> connection checked \<Rightarrow> connection checked \<Rightarrow> bool"
  for op_size :: "async_op \<Rightarrow> u64" and doWrite :: doWrite where
  bad_release:
    "pending c = Some op \<Longrightarrow> release c = Inl e \<Longrightarrow> conn_step op_size doWrite (Inr c) (Inl e)"
| write_more:
    "pending c = Some (WriteOp t, p) \<Longrightarrow> release c = Inr c' \<Longrightarrow>
     conn_step op_size doWrite (Inr c) (Inr (initiate op_size (WriteOp t) c'))"
| write_done:
    "pending c = Some (WriteOp t, p) \<Longrightarrow> release c = Inr c' \<Longrightarrow>
     conn_step op_size doWrite (Inr c) (Inr (on_written op_size ec c'))"
| read_done:
    "pending c = Some (ReadOp, p) \<Longrightarrow> release c = Inr c' \<Longrightarrow> length bytes \<le> data_size \<Longrightarrow>
     length daytime = 25 \<Longrightarrow>
     conn_step op_size doWrite (Inr c) (on_read doWrite daytime ec (length bytes) (receive bytes c'))"

definition conn_init :: "doWrite \<Rightarrow> connection checked \<Rightarrow> bool" where
  "conn_init doWrite r \<longleftrightarrow>
     (\<exists>garbage k daytime. length garbage = data_size \<and> length daytime = 25 \<and>
        r = start doWrite daytime (new_connection garbage k))"

inductive_cases conn_stepE: "conn_step op_size doWrite (Inr c) r"
inductive_cases conn_step_InlE: "conn_step op_size doWrite (Inl e) r"

section \<open>The accepting server\<close>

record 'c server =
  accepting :: bool
  connections :: "'c list"

definition doAccept :: "'c server \<Rightarrow> 'c server" where
  "doAccept s = s\<lparr>accepting := True\<rparr>"

definition new_server :: "'c server" where
  "new_server = doAccept \<lparr>accepting = False, connections = []\<rparr>"

text \<open>The handler of one accept: \<open>ec\<close> is its error, \<open>c\<close> the connection made from its socket.\<close>

definition on_accept :: "doWrite \<Rightarrow> bool \<times> string \<times> connection \<Rightarrow>
    connection checked server \<Rightarrow> connection checked server" where
  "on_accept doWrite e s =
     (case e of (ec, daytime, c) \<Rightarrow>
        let s0 = s\<lparr>accepting := False\<rparr>;
            s1 = (if \<not> ec then s0\<lparr>connections := connections s0 @ [start doWrite daytime c]\<rparr> else s0)
        in doAccept s1)"

section \<open>One operation, one block\<close>

definition owns :: "connection \<Rightarrow> pointer set" where
  "owns c = (case pending c of None \<Rightarrow> {} | Some (k, p) \<Rightarrow> {p})"

definition conn_ok :: "(async_op \<Rightarrow> u64) \<Rightarrow> connection \<Rightarrow> bool" where
  "conn_ok op_size c \<longleftrightarrow> mem_ok (memory c) \<and> mem_blocks (memory c) = owns c \<and>
     length (data c) = data_size \<and>
     (case pending c of
        None \<Rightarrow> True
      | Some (k, p) \<Rightarrow> p = Storage \<longleftrightarrow> op_size k < storage_size)"

definition conn_inv :: "(async_op \<Rightarrow> u64) \<Rightarrow> connection checked \<Rightarrow> bool" where
  "conn_inv op_size r = (case r of Inl e \<Rightarrow> e = OutOfBounds | Inr c \<Rightarrow> conn_ok op_size c)"

lemma conn_inv_simps [simp]:
  "conn_inv op_size (Inr c) = conn_ok op_size c" "conn_inv op_size (Inl e) \<longleftrightarrow> e = OutOfBounds"
  by (simp_all add: conn_inv_def)

lemma release_ok:
  assumes "conn_ok op_size c"
  shows "\<exists>c'. release c = Inr c' \<and> conn_ok op_size c' \<and> pending c' = None \<and> data c' = data c"
proof (cases "pending c")
  case None
  then show ?thesis using assms by (simp add: release_def)
next
  case (Some kp)
  obtain k p where kp: "kp = (k, p)" by (cases kp)
  then obtain mh where "mem_deallocate p (memory c) = Inr mh" "mem_ok mh" "mem_blocks mh = {}"
    using handler.free_block [of "memory c" p] assms Some by (auto simp: conn_ok_def owns_def)
  then show ?thesis
    using assms Some kp by (simp add: release_def alloc_deallocate_def conn_ok_def owns_def)
qed

lemma initiate_ok:
  assumes "conn_ok op_size c" "pending c = None"
  shows "conn_ok op_size (initiate op_size k c)"
proof -
  obtain p mh where a: "mem_allocate (op_size k) (memory c) = (p, mh)" by (meson surj_pair)
  have blocks: "mem_blocks (memory c) = {}" using assms by (simp add: conn_ok_def owns_def)
  then have "p = Storage \<longleftrightarrow> op_size k < storage_size"
    using a by (cases "memory c") (auto simp: mem_defs split: if_splits)
  then show ?thesis
    using a assms blocks handler.alloc_ok [OF _ a] handler.alloc_blocks [OF _ a]
    by (simp add: initiate_def alloc_allocate_def make_custom_alloc_handler_def conn_ok_def owns_def)
qed

lemma initiate_pending [simp]: "\<exists>p. pending (initiate op_size k c) = Some (k, p)"
  by (simp add: initiate_def split: prod.split)

lemma receive_simps [simp]: "pending (receive b c) = pending c" "memory (receive b c) = memory c"
  by (simp_all add: receive_def)

lemma receive_take [simp]: "take (length b) (data (receive b c)) = b"
  by (simp add: receive_def)

lemma receive_ok: "conn_ok op_size c \<Longrightarrow> length b \<le> data_size \<Longrightarrow> conn_ok op_size (receive b c)"
  by (simp add: conn_ok_def receive_def owns_def)

lemma new_connection_ok:
  "length garbage = data_size \<Longrightarrow> conn_ok op_size (new_connection garbage k)"
  "pending (new_connection garbage k) = None"
  by (simp_all add: new_connection_def conn_ok_def owns_def mem_ok_def mem_blocks_def new_handler_memory_def)


section \<open>What the loop needs of \<open>doWrite\<close>\<close>

locale responder =
  fixes op_size :: "async_op \<Rightarrow> u64"
    and doWrite :: doWrite
  assumes doWrite_ok:
    "conn_ok op_size c \<Longrightarrow> pending c = None \<Longrightarrow> doWrite daytime len c = Inr c' \<Longrightarrow> conn_ok op_size c'"
    and doWrite_error: "doWrite daytime len c = Inl e \<Longrightarrow> e = OutOfBounds"
begin

lemma doWrite_inv:
  "conn_ok op_size c \<Longrightarrow> pending c = None \<Longrightarrow> conn_inv op_size (doWrite daytime len c)"
  using doWrite_ok doWrite_error by (auto simp: conn_inv_def split: sum.split)

lemma conn_step_inv:
  assumes "conn_inv op_size r" "conn_step op_size doWrite r r'"
  shows "conn_inv op_size r'"
proof (cases r)
  case (Inl e)
  then show ?thesis using assms(2) by (auto elim: conn_step_InlE)
next
  case (Inr c)
  then have "conn_ok op_size c" using assms(1) by (simp add: conn_inv_def)
  then obtain c' where c': "release c = Inr c'" "conn_ok op_size c'" "pending c' = None"
    using release_ok by blast
  from assms(2) [unfolded Inr] show ?thesis
    by (cases rule: conn_stepE)
      (use c' in \<open>auto simp: on_written_def doRead_def on_read_def initiate_ok receive_ok doWrite_inv\<close>)
qed

end

text \<open>The step relation of a responder keeps its invariant, so that it holds in every reachable state.\<close>

sublocale responder \<subseteq> conversation: invariant_system "conn_init doWrite" "conn_step op_size doWrite" "conn_inv op_size"
proof
  fix r assume "conn_init doWrite r"
  then show "conn_inv op_size r"
    by (auto simp: conn_init_def start_def intro!: doWrite_inv new_connection_ok)
qed (rule conn_step_inv)

locale safe_responder = responder +
  assumes doWrite_safe:
    "conn_ok op_size c \<Longrightarrow> pending c = None \<Longrightarrow> len \<le> data_size \<Longrightarrow> \<exists>c'. doWrite daytime len c = Inr c'"
begin

lemma doWrite_not_Inl:
  "conn_ok op_size c \<Longrightarrow> pending c = None \<Longrightarrow> len \<le> data_size \<Longrightarrow> doWrite daytime len c \<noteq> Inl e"
  using doWrite_safe [of c len daytime] by auto

lemma never_fails: "reachable (conn_init doWrite) (conn_step op_size doWrite) r \<Longrightarrow> r \<noteq> Inl e"
proof (induction rule: reachable.induct)
  case (reachable_init r)
  then show ?case
    by (auto simp: conn_init_def start_def doWrite_not_Inl new_connection_ok)
next
  case (reachable_step r r')
  then obtain c where c: "r = Inr c" by (cases r) (auto elim: conn_step_InlE)
  have "conn_ok op_size c"
    using conversation.reachable_inv [OF reachable_step.hyps(1)] c by (simp add: conn_inv_def)
  then obtain c' where c': "release c = Inr c'" "conn_ok op_size c'" "pending c' = None"
    using release_ok by blast
  from reachable_step.hyps(2) [unfolded c] show ?case
    by (cases rule: conn_stepE) (use c' in \<open>auto simp: on_read_def doWrite_not_Inl receive_ok split: if_splits\<close>)
qed

end

lemma set_data_ok:
  "conn_ok op_size c \<Longrightarrow> length d = data_size \<Longrightarrow> conn_ok op_size (c\<lparr>data := d\<rparr>)"
  by (simp add: conn_ok_def owns_def)

interpretation memcpy: responder op_size "doWrite_memcpy op_size StrCat" for op_size StrCat
proof
  fix c daytime len c'
  assume "conn_ok op_size c" "pending c = None" "doWrite_memcpy op_size StrCat daytime len c = Inr c'"
  then show "conn_ok op_size c'"
    by (auto simp: doWrite_memcpy_def Let_def intro!: initiate_ok set_data_ok split: if_splits)
      (simp add: conn_ok_def)
qed (simp add: doWrite_memcpy_def Let_def split: if_splits)

interpretation shared: safe_responder op_size "doWrite_shared op_size StrCat" for op_size StrCat
  by unfold_locales (auto simp: doWrite_shared_def Let_def intro: initiate_ok split: if_splits)

lemma response_eq:
  "strcat_law StrCat \<Longrightarrow> response StrCat daytime text = ''got '' @ text @ '' on '' @ daytime"
  by (simp add: response_def strcat_law_def)

lemma doWrite_memcpy_eq:
  "doWrite_memcpy op_size StrCat daytime len c =
     (if data_size < len \<or> data_size < length (response StrCat daytime (take len (data c))) then Inl OutOfBounds
      else Inr (initiate op_size (WriteOp (response StrCat daytime (take len (data c))))
             (receive (response StrCat daytime (take len (data c))) c)))"
  by (simp add: doWrite_memcpy_def Let_def receive_def)

lemma receive_receive:
  "length b \<le> length r \<Longrightarrow> receive r (receive b c) = receive r c"
  by (simp add: receive_def)

lemma conn_ok_no_heap:
  assumes "conn_ok op_size c" "\<forall>k. op_size k < storage_size"
  shows "live (snd (memory c)) = []"
proof -
  have "Heap ` set (live (snd (memory c))) \<subseteq> {Storage}"
    using assms by (auto simp: conn_ok_def owns_def mem_blocks_def split: option.splits if_splits)
  then show ?thesis by (cases "live (snd (memory c))") auto
qed


lemma on_accept_fold:
  "accepting s \<Longrightarrow> accepting (fold (on_accept doWrite) es s) \<and>
     connections (fold (on_accept doWrite) es s) =
       connections s @ map (\<lambda>(ec, daytime, c). start doWrite daytime c) (filter (Not \<circ> fst) es)"
  by (induction es arbitrary: s) (auto simp: on_accept_def doAccept_def Let_def)

section \<open>Properties\<close>

text \<open>
  A connection of \<open>reference_counted_buffer.cpp\<close> never reads or writes out of bounds and never frees
  a block it does not own: in every reachable state it owns exactly one block when an operation is
  pending and none otherwise, and when asio's requests are below 1024 bytes it never uses the heap.
\<close>

lemma shared_connection_safe:
  assumes "reachable (conn_init (doWrite_shared op_size StrCat))
      (conn_step op_size (doWrite_shared op_size StrCat)) r"
  shows "\<exists>c. r = Inr c \<and> mem_blocks (memory c) = owns c \<and>
    ((\<forall>k. op_size k < 1024) \<longrightarrow> live (snd (memory c)) = [])"
proof -
  obtain c where c: "r = Inr c" using shared.never_fails [OF assms] by (cases r) auto
  then have "conn_ok op_size c" using shared.conversation.reachable_inv [OF assms] by simp
  then show ?thesis
    using c conn_ok_no_heap [of op_size c] by (simp add: conn_ok_def storage_size_def)
qed

lemma shared_connection_safe_witness:
  "\<exists>c. doWrite_shared (\<lambda>_. 64) concat (replicate 25 CHR ''x'') 0 (new_connection (replicate 1024 CHR 0x00) 0) = Inr c \<and>
     mem_blocks (memory c) = owns c \<and> live (snd (memory c)) = []"
proof -
  have "conn_init (doWrite_shared (\<lambda>_. 64) concat)
      (doWrite_shared (\<lambda>_. 64) concat (replicate 25 CHR ''x'') 0 (new_connection (replicate 1024 CHR 0x00) 0))"
    unfolding conn_init_def start_def data_size_def
    by (intro exI conjI) (rule length_replicate, rule length_replicate, rule refl)
  from shared_connection_safe [OF reachable_init [where init = "conn_init (doWrite_shared (\<lambda>_. 64) concat)", OF this]] show ?thesis by auto
qed

text \<open>
  In \<open>allocation.cpp\<close> the reply to a message of up to 1024 bytes overflows the 1024 bytes of
  \<open>data_\<close> exactly when the message is longer than 991 bytes; up to there both programs reply with
  the same text.
\<close>

lemma memcpy_overflow_iff:
  assumes "strcat_law StrCat" "length daytime = 25" "length bytes \<le> 1024" "length (data c) = 1024"
  shows "on_read (doWrite_memcpy op_size StrCat) daytime False (length bytes) (receive bytes c) =
    (if length bytes \<le> 991
     then Inr (initiate op_size (WriteOp (''got '' @ bytes @ '' on '' @ daytime))
            (receive (''got '' @ bytes @ '' on '' @ daytime) c))
     else Inl OutOfBounds) \<and>
    on_read (doWrite_shared op_size StrCat) daytime False (length bytes) (receive bytes c) =
      Inr (initiate op_size (WriteOp (''got '' @ bytes @ '' on '' @ daytime)) (receive bytes c))"
  using assms(2-4)
  by (simp add: on_read_def doWrite_memcpy_eq doWrite_shared_def shared_const_buffer_def
      response_eq [OF assms(1)] data_size_def Let_def receive_receive)

lemma memcpy_overflow_iff_witness:
  "on_read (doWrite_memcpy (\<lambda>_. 64) concat) (replicate 25 CHR ''x'') False 992
     (receive (replicate 992 CHR ''y'') (new_connection (replicate 1024 CHR 0x00) 0)) = Inl OutOfBounds"
proof -
  have "strcat_law concat" by (simp add: strcat_law_def)
  from memcpy_overflow_iff [OF this, of "replicate 25 CHR ''x''" "replicate 992 CHR ''y''"
      "new_connection (replicate 1024 CHR 0x00) 0"]
  show ?thesis by (simp add: new_connection_def)
qed

text \<open>
  C33: a client reaches that overflow: the first message of 992 bytes or more takes the connection
  of \<open>allocation.cpp\<close> to the error.
\<close>

theorem memcpy_overflow_reachable:
  assumes "strcat_law StrCat" "991 < length (bytes :: string)" "length bytes \<le> 1024"
  shows "reachable (conn_init (doWrite_memcpy op_size StrCat))
    (conn_step op_size (doWrite_memcpy op_size StrCat)) (Inl OutOfBounds)"
proof -
  let ?step = "conn_step op_size (doWrite_memcpy op_size StrCat)"
  define daytime where "daytime = replicate 25 CHR ''x''"
  define c0 where "c0 = new_connection (replicate 1024 CHR 0x00) 0"
  define c1 where "c1 = initiate op_size (WriteOp (''got '' @ '' on '' @ daytime))
    (receive (''got '' @ '' on '' @ daytime) c0)"
  have ok0: "conn_ok op_size c0" "pending c0 = None" "length (data c0) = 1024"
    by (simp_all add: c0_def new_connection_ok data_size_def)
      (simp add: new_connection_def)
  have start: "start (doWrite_memcpy op_size StrCat) daytime c0 = Inr c1"
    using ok0(3) by (simp add: start_def doWrite_memcpy_eq response_eq [OF assms(1)] data_size_def
        daytime_def c1_def)
  have init: "conn_init (doWrite_memcpy op_size StrCat) (Inr c1)"
    unfolding conn_init_def start [symmetric] c0_def daytime_def data_size_def
    by (intro exI conjI) (rule length_replicate, rule length_replicate, rule refl)
  have ok1: "conn_ok op_size c1" using memcpy.conversation.inv_init [OF init] by simp
  then obtain c2 where c2: "release c1 = Inr c2" "conn_ok op_size c2" "pending c2 = None"
    using release_ok by blast
  obtain p where "pending c1 = Some (WriteOp (''got '' @ '' on '' @ daytime), p)"
    using initiate_pending by (fastforce simp: c1_def)
  then have step1: "?step (Inr c1) (Inr (on_written op_size False c2))" using c2(1) by (rule write_done)
  define c3 where "c3 = initiate op_size ReadOp c2"
  have "conn_ok op_size c3" using c2(2,3) by (simp add: c3_def initiate_ok)
  then obtain c4 where c4: "release c3 = Inr c4" "conn_ok op_size c4" using release_ok by blast
  obtain q where "pending c3 = Some (ReadOp, q)"
    using initiate_pending by (fastforce simp: c3_def)
  then have "?step (Inr c3) (on_read (doWrite_memcpy op_size StrCat) daytime False (length bytes) (receive bytes c4))"
    using c4(1) by (rule read_done) (use assms(3) in \<open>simp_all add: data_size_def daytime_def\<close>)
  moreover have "on_read (doWrite_memcpy op_size StrCat) daytime False (length bytes) (receive bytes c4) = Inl OutOfBounds"
    using assms(2,3) by (simp add: on_read_def doWrite_memcpy_eq response_eq [OF assms(1)] data_size_def
        daytime_def)
  ultimately have "?step (Inr c3) (Inl OutOfBounds)" by simp
  moreover have "reachable (conn_init (doWrite_memcpy op_size StrCat)) ?step (Inr c1)"
    using init by (rule reachable_init)
  then have "reachable (conn_init (doWrite_memcpy op_size StrCat)) ?step (Inr c3)"
    using step1 reachable_step by (fastforce simp add: on_written_def doRead_def c3_def)
  ultimately show ?thesis by (auto intro: reachable_step)
qed

theorem memcpy_overflow_reachable_witness:
  "reachable (conn_init (doWrite_memcpy (\<lambda>_. 64) concat))
     (conn_step (\<lambda>_. 64) (doWrite_memcpy (\<lambda>_. 64) concat)) (Inl OutOfBounds)"
  by (rule memcpy_overflow_reachable [of _ "replicate 1000 CHR ''z''"]) (simp_all add: strcat_law_def)

text \<open>
  The server always has an accept pending, and starts exactly the connections of the
  successful accepts, in their order.
\<close>

lemma server_accepts_all:
  "accepting (fold (on_accept doWrite) es new_server) \<and>
   connections (fold (on_accept doWrite) es new_server) =
     map (\<lambda>(ec, daytime, c). start doWrite daytime c) (filter (Not \<circ> fst) es)"
  using on_accept_fold [of new_server doWrite es] by (simp add: new_server_def doAccept_def)

end
