(* ===== verification/Echo_Program.thy ===== *)
theory Echo_Program
  imports Connection
begin

text \<open>
  The whole program of \<open>src/asio/buffer/reference_counted_buffer.cpp\<close>: the \<open>server\<close>, all the connections it has
  accepted, the free store they share, and what \<open>handler_memory\<close> prints. A connection is held by the
  \<open>shared_ptr\<close> that the handler of its pending operation captures, so that it is destroyed when a handler
  returns without starting another operation; a map from the numbers of the connections to their objects holds those that
  are alive. Every operation names the connection it runs on, and a block inside a connection carries the number of
  that connection, so that giving it back to another one would be an error.

  Asio is not part of the repository: an event is one completion it reports, \<open>enabled\<close> says when it may, and \<open>run_event\<close> is
  what the program does with it. The memory of an operation is given back before its handler runs. \<open>op_size\<close>,
  \<open>StrCat\<close> and the time of day are as in the theory of the connection.
\<close>

section \<open>The state\<close>

datatype block = Storage_of nat | Heap_block nat

datatype printed = UseMemory u64 | NewMemory u64 | Deuse | Deleted

record rc_connection =
  inner_used :: bool
  char_data :: string
  pending_op :: "(async_op \<times> block) option"

record program =
  store :: free_store
  conns :: "nat \<Rightarrow> rc_connection option"
  next_conn :: nat
  accept_pending :: bool
  stdout :: "printed list"

definition set_conn :: "nat \<Rightarrow> rc_connection option \<Rightarrow> program \<Rightarrow> program" where
  "set_conn i c s = s\<lparr>conns := (conns s)(i := c)\<rparr>"

section \<open>\<open>handler_memory\<close> and its allocator\<close>

definition rc_allocate :: "nat \<Rightarrow> rc_connection \<Rightarrow> u64 \<Rightarrow> program \<Rightarrow> block \<times> program" where
  "rc_allocate i c sz s =
     (if \<not> inner_used c \<and> sz < storage_size
      then (Storage_of i, set_conn i (Some (c\<lparr>inner_used := True\<rparr>)) (s\<lparr>stdout := stdout s @ [UseMemory sz]\<rparr>))
      else (Heap_block (fresh (store s)),
            s\<lparr>stdout := stdout s @ [NewMemory sz],
              store := \<lparr>live = fresh (store s) # live (store s), fresh = fresh (store s) + 1\<rparr>\<rparr>))"

definition rc_deallocate :: "nat \<Rightarrow> rc_connection \<Rightarrow> block \<Rightarrow> program \<Rightarrow> program checked" where
  "rc_deallocate i c p s =
     (if p = Storage_of i
      then Inr (set_conn i (Some (c\<lparr>inner_used := False\<rparr>)) (s\<lparr>stdout := stdout s @ [Deuse]\<rparr>))
      else case p of
        Storage_of j \<Rightarrow> Inl BadFree
      | Heap_block n \<Rightarrow>
          if n \<in> set (live (store s))
          then Inr (s\<lparr>stdout := stdout s @ [Deleted], store := (store s)\<lparr>live := remove1 n (live (store s))\<rparr>\<rparr>)
          else Inl BadFree)"

definition rc_alloc_allocate :: "nat \<Rightarrow> rc_connection \<Rightarrow> u64 \<Rightarrow> u64 \<Rightarrow> program \<Rightarrow> block \<times> program" where
  "rc_alloc_allocate i c sizeof n s = rc_allocate i c (sizeof * n) s"

definition rc_alloc_deallocate :: "nat \<Rightarrow> rc_connection \<Rightarrow> block \<Rightarrow> u64 \<Rightarrow> program \<Rightarrow> program checked" where
  "rc_alloc_deallocate i c p n s = rc_deallocate i c p s"

section \<open>The connection\<close>

text \<open>Starting an operation, with the handler of \<open>make_custom_alloc_handler\<close>; a dead connection cannot start one.\<close>

definition rc_initiate :: "(async_op \<Rightarrow> u64) \<Rightarrow> nat \<Rightarrow> async_op \<Rightarrow> program \<Rightarrow> program checked" where
  "rc_initiate op_size i k s =
     (case conns s i of
        None \<Rightarrow> Inl NullPointer
      | Some c \<Rightarrow>
          let (p, s1) = rc_alloc_allocate i c (op_size k) 1 s in
          (case conns s1 i of
             None \<Rightarrow> Inl NullPointer
           | Some c1 \<Rightarrow> Inr (set_conn i (Some (c1\<lparr>pending_op := Some (k, p)\<rparr>)) s1)))"

definition rc_release :: "nat \<Rightarrow> program \<Rightarrow> program checked" where
  "rc_release i s =
     (case conns s i of
        None \<Rightarrow> Inl NullPointer
      | Some c \<Rightarrow>
          (case pending_op c of
             None \<Rightarrow> Inl NullPointer
           | Some (k, p) \<Rightarrow>
               let c0 = c\<lparr>pending_op := None\<rparr> in rc_alloc_deallocate i c0 p 1 (set_conn i (Some c0) s)))"

definition rc_doWrite ::
  "(async_op \<Rightarrow> u64) \<Rightarrow> (string list \<Rightarrow> string) \<Rightarrow> string \<Rightarrow> nat \<Rightarrow> nat \<Rightarrow> program \<Rightarrow> program checked" where
  "rc_doWrite op_size StrCat daytime i len s =
     (case conns s i of
        None \<Rightarrow> Inl NullPointer
      | Some c \<Rightarrow>
          if data_size < len then Inl OutOfBounds
          else let buffer = shared_const_buffer (StrCat [''got '', take len (char_data c), '' on '', daytime])
            in rc_initiate op_size i (WriteOp buffer) s)"

definition rc_doRead :: "(async_op \<Rightarrow> u64) \<Rightarrow> nat \<Rightarrow> program \<Rightarrow> program checked" where
  "rc_doRead op_size i s = rc_initiate op_size i ReadOp s"

definition rc_on_written :: "(async_op \<Rightarrow> u64) \<Rightarrow> bool \<Rightarrow> nat \<Rightarrow> program \<Rightarrow> program checked" where
  "rc_on_written op_size ec i s = (if \<not> ec then rc_doRead op_size i s else Inr s)"

definition rc_on_read ::
  "(async_op \<Rightarrow> u64) \<Rightarrow> (string list \<Rightarrow> string) \<Rightarrow> string \<Rightarrow> bool \<Rightarrow> nat \<Rightarrow> nat \<Rightarrow> program \<Rightarrow> program checked" where
  "rc_on_read op_size StrCat daytime ec len i s =
     (if \<not> ec then rc_doWrite op_size StrCat daytime i len s else Inr s)"

definition rc_start ::
  "(async_op \<Rightarrow> u64) \<Rightarrow> (string list \<Rightarrow> string) \<Rightarrow> string \<Rightarrow> nat \<Rightarrow> program \<Rightarrow> program checked" where
  "rc_start op_size StrCat daytime i s = rc_doWrite op_size StrCat daytime i 0 s"

definition rc_connection_new :: "string \<Rightarrow> rc_connection" where
  "rc_connection_new garbage = \<lparr>inner_used = False, char_data = garbage, pending_op = None\<rparr>"

text \<open>The handler returns: its \<open>self\<close> goes, and with it the connection when no other operation holds one.\<close>

definition drop_self :: "nat \<Rightarrow> program \<Rightarrow> program" where
  "drop_self i s =
     (case conns s i of
        None \<Rightarrow> s
      | Some c \<Rightarrow> if pending_op c = None then set_conn i None s else s)"

section \<open>The server\<close>

definition rc_doAccept :: "program \<Rightarrow> program" where
  "rc_doAccept s = s\<lparr>accept_pending := True\<rparr>"

definition rc_server_new :: "nat \<Rightarrow> program" where
  "rc_server_new k =
     rc_doAccept \<lparr>store = \<lparr>live = [], fresh = k\<rparr>, conns = (\<lambda>_. None), next_conn = 0, accept_pending = False, stdout = []\<rparr>"

definition rc_on_accept ::
  "(async_op \<Rightarrow> u64) \<Rightarrow> (string list \<Rightarrow> string) \<Rightarrow> bool \<Rightarrow> string \<Rightarrow> string \<Rightarrow> program \<Rightarrow> program checked" where
  "rc_on_accept op_size StrCat ec garbage daytime s =
     bind_checked
       (if \<not> ec
        then let i = next_conn s in
          bind_checked
            (rc_start op_size StrCat daytime i (set_conn i (Some (rc_connection_new garbage)) (s\<lparr>next_conn := i + 1\<rparr>)))
            (\<lambda>s1. Inr (drop_self i s1))
        else Inr s)
       (\<lambda>s2. Inr (rc_doAccept s2))"

section \<open>The event loop\<close>

datatype event =
    Accepted bool string string
  | WrotePart nat
  | Written nat bool
  | GotSome nat bool string string

definition pending_kind :: "nat \<Rightarrow> program \<Rightarrow> async_op option" where
  "pending_kind i s = (case conns s i of None \<Rightarrow> None | Some c \<Rightarrow> map_option fst (pending_op c))"

fun enabled :: "event \<Rightarrow> program \<Rightarrow> bool" where
  "enabled (Accepted ec garbage daytime) s \<longleftrightarrow> accept_pending s \<and> length garbage = data_size \<and> length daytime = 25"
| "enabled (WrotePart i) s \<longleftrightarrow> (case pending_kind i s of Some (WriteOp t) \<Rightarrow> True | _ \<Rightarrow> False)"
| "enabled (Written i ec) s \<longleftrightarrow> (case pending_kind i s of Some (WriteOp t) \<Rightarrow> True | _ \<Rightarrow> False)"
| "enabled (GotSome i ec bytes daytime) s \<longleftrightarrow> pending_kind i s = Some ReadOp \<and> length bytes \<le> data_size \<and> length daytime = 25"

definition rc_receive :: "nat \<Rightarrow> string \<Rightarrow> program \<Rightarrow> program" where
  "rc_receive i bytes s =
     (case conns s i of
        None \<Rightarrow> s
      | Some c \<Rightarrow> set_conn i (Some (c\<lparr>char_data := bytes @ drop (length bytes) (char_data c)\<rparr>)) s)"

fun run_event ::
  "(async_op \<Rightarrow> u64) \<Rightarrow> (string list \<Rightarrow> string) \<Rightarrow> event \<Rightarrow> program \<Rightarrow> program checked" where
  "run_event op_size StrCat (Accepted ec garbage daytime) s =
     rc_on_accept op_size StrCat ec garbage daytime (s\<lparr>accept_pending := False\<rparr>)"
| "run_event op_size StrCat (WrotePart i) s =
     (case pending_kind i s of
        None \<Rightarrow> Inl NullPointer
      | Some k \<Rightarrow> bind_checked (rc_release i s) (rc_initiate op_size i k))"
| "run_event op_size StrCat (Written i ec) s =
     bind_checked (rc_release i s) (\<lambda>s1.
     bind_checked (rc_on_written op_size ec i s1) (\<lambda>s2. Inr (drop_self i s2)))"
| "run_event op_size StrCat (GotSome i ec bytes daytime) s =
     bind_checked (rc_release i s) (\<lambda>s1.
     bind_checked (rc_on_read op_size StrCat daytime ec (length bytes) i (rc_receive i bytes s1)) (\<lambda>s2.
       Inr (drop_self i s2)))"

inductive program_step ::
  "(async_op \<Rightarrow> u64) \<Rightarrow> (string list \<Rightarrow> string) \<Rightarrow> program checked \<Rightarrow> program checked \<Rightarrow> bool"
  for op_size :: "async_op \<Rightarrow> u64" and StrCat :: "string list \<Rightarrow> string" where
  "enabled e s \<Longrightarrow> program_step op_size StrCat (Inr s) (run_event op_size StrCat e s)"

inductive_cases program_stepE: "program_step op_size StrCat r r'"

definition program_init :: "program checked \<Rightarrow> bool" where
  "program_init r \<longleftrightarrow> (\<exists>k. r = Inr (rc_server_new k))"

section \<open>The invariant\<close>

text \<open>The block of the free store that a connection holds.\<close>

definition heap_of :: "rc_connection \<Rightarrow> nat option" where
  "heap_of c = (case pending_op c of Some (k, Heap_block n) \<Rightarrow> Some n | _ \<Rightarrow> None)"

definition holder :: "program \<Rightarrow> nat \<Rightarrow> nat option" where
  "holder s i = (case conns s i of None \<Rightarrow> None | Some c \<Rightarrow> heap_of c)"

definition inner :: "program \<Rightarrow> nat set" where
  "inner s = {i. \<exists>c. conns s i = Some c \<and> inner_used c}"

definition conn_rest :: "(async_op \<Rightarrow> u64) \<Rightarrow> nat \<Rightarrow> rc_connection \<Rightarrow> bool" where
  "conn_rest op_size i c \<longleftrightarrow> length (char_data c) = data_size \<and>
     (case pending_op c of
        None \<Rightarrow> \<not> inner_used c
      | Some (k, p) \<Rightarrow> (inner_used c \<longleftrightarrow> op_size k < storage_size) \<and>
          (if inner_used c then p = Storage_of i else \<exists>n. p = Heap_block n))"

text \<open>The connections of \<open>B\<close> are in the middle of a handler: they may have no operation pending.\<close>

definition prog_inv :: "(async_op \<Rightarrow> u64) \<Rightarrow> nat set \<Rightarrow> program \<Rightarrow> bool" where
  "prog_inv op_size B s \<longleftrightarrow>
     (\<forall>i c. conns s i = Some c \<longrightarrow> i < next_conn s \<and> conn_rest op_size i c \<and> (pending_op c = None \<longrightarrow> i \<in> B)) \<and>
     inj_on (holder s) (dom (holder s)) \<and> ran (holder s) = set (live (store s)) \<and>
     distinct (live (store s)) \<and> (\<forall>n \<in> set (live (store s)). n < fresh (store s))"

definition printed_uses :: "printed list \<Rightarrow> nat" where
  "printed_uses out = length (filter (\<lambda>x. case x of UseMemory n \<Rightarrow> True | _ \<Rightarrow> False) out)"

definition printed_news :: "printed list \<Rightarrow> nat" where
  "printed_news out = length (filter (\<lambda>x. case x of NewMemory n \<Rightarrow> True | _ \<Rightarrow> False) out)"

definition log_inv :: "program \<Rightarrow> bool" where
  "log_inv s \<longleftrightarrow> finite (inner s) \<and> printed_uses (stdout s) = count_list (stdout s) Deuse + card (inner s) \<and>
     printed_news (stdout s) = count_list (stdout s) Deleted + length (live (store s))"

lemma set_conn_simps [simp]:
  "conns (set_conn i c s) = (conns s)(i := c)" "store (set_conn i c s) = store s"
  "stdout (set_conn i c s) = stdout s" "next_conn (set_conn i c s) = next_conn s"
  "accept_pending (set_conn i c s) = accept_pending s"
  by (simp_all add: set_conn_def)

lemma set_accept_simps [simp]:
  "prog_inv op_size B (s\<lparr>accept_pending := b\<rparr>) = prog_inv op_size B s" "log_inv (s\<lparr>accept_pending := b\<rparr>) = log_inv s"
proof -
  have "holder (s\<lparr>accept_pending := b\<rparr>) = holder s" by (rule ext) (simp add: holder_def)
  then show "prog_inv op_size B (s\<lparr>accept_pending := b\<rparr>) = prog_inv op_size B s" by (simp add: prog_inv_def)
qed (simp add: log_inv_def inner_def)

lemma holder_no_conns: "conns s = (\<lambda>_. None) \<Longrightarrow> holder s = Map.empty"
  by (rule ext) (simp add: holder_def)

lemma printed_append [simp]:
  "printed_uses (out @ [x]) = printed_uses out + (case x of UseMemory n \<Rightarrow> 1 | _ \<Rightarrow> 0)"
  "printed_news (out @ [x]) = printed_news out + (case x of NewMemory n \<Rightarrow> 1 | _ \<Rightarrow> 0)"
  by (simp_all add: printed_uses_def printed_news_def split: printed.split)

lemma holder_upd:
  "conns t = (conns s)(i := c) \<Longrightarrow> holder t = (holder s)(i := (case c of None \<Rightarrow> None | Some d \<Rightarrow> heap_of d))"
  by (rule ext) (simp add: holder_def)

lemma inner_upd:
  "conns t = (conns s)(i := c) \<Longrightarrow>
     inner t = (if (\<exists>d. c = Some d \<and> inner_used d) then insert i (inner s) else inner s - {i})"
  by (auto simp: inner_def split: if_splits)

lemma ran_None: "m i = None \<Longrightarrow> ran (m(i := None)) = ran m"
  by (simp add: fun_upd_idem)

lemma ran_remove:
  assumes "inj_on m (dom m)" "m i = Some n"
  shows "ran (m(i := None)) = ran m - {n}"
proof -
  have "m j = Some n \<longleftrightarrow> j = i" for j using inj_onD [OF assms(1), of j i] assms(2) by (auto simp: dom_def)
  then show ?thesis
    using assms(2) by (intro set_eqI iffI; clarsimp simp: ran_def split: if_splits) (metis option.inject)+
qed

lemma inj_upd_None: "inj_on m (dom m) \<Longrightarrow> inj_on (m(i := None)) (dom (m(i := None)))"
  by (auto simp: inj_on_def dom_def split: if_splits)

lemma inj_upd_Some:
  "inj_on m (dom m) \<Longrightarrow> m i = None \<Longrightarrow> n \<notin> ran m \<Longrightarrow> inj_on (m(i \<mapsto> n)) (dom (m(i \<mapsto> n)))"
  by (auto simp: inj_on_def dom_def ran_def split: if_splits)

lemma prog_inv_conn:
  assumes "prog_inv op_size B s" "conns s i = Some c"
  shows "conn_rest op_size i c" "i < next_conn s" "pending_op c = None \<Longrightarrow> i \<in> B"
  using assms unfolding prog_inv_def by blast+

lemma prog_inv_upd:
  assumes "prog_inv op_size B s" "conns t = (conns s)(i := Some c)" "next_conn t = next_conn s"
    "i < next_conn s" "conn_rest op_size i c" "pending_op c = None \<longrightarrow> i \<in> B'" "B \<subseteq> insert i B'"
    "inj_on (holder t) (dom (holder t))" "ran (holder t) = set (live (store t))"
    "distinct (live (store t))" "\<forall>n \<in> set (live (store t)). n < fresh (store t)"
  shows "prog_inv op_size B' t"
  unfolding prog_inv_def
proof (intro conjI allI impI)
  fix j d assume d: "conns t j = Some d"
  show "j < next_conn t" "conn_rest op_size j d"
    using d assms(2-5) prog_inv_conn [OF assms(1), of j d] by (cases "j = i"; simp)+
  show "pending_op d = None \<Longrightarrow> j \<in> B'"
    using d assms(2,6,7) prog_inv_conn [OF assms(1), of j d] by (cases "j = i") auto
qed (fact assms)+

lemmas prog_inv_heap = prog_inv_def [THEN iffD1, THEN conjunct2]

section \<open>One handler\<close>

text \<open>The operation that a connection in the middle of a handler starts gets a block nobody else holds.\<close>

lemma rc_initiate_inv:
  assumes "prog_inv op_size {i} s" "log_inv s" "conns s i = Some c" "pending_op c = None"
  shows "\<exists>t. rc_initiate op_size i k s = Inr t \<and> prog_inv op_size {} t \<and> log_inv t \<and>
    accept_pending t = accept_pending s \<and> pending_kind i t = Some k"
proof -
  have c: "length (char_data c) = data_size" "\<not> inner_used c" "i < next_conn s" "holder s i = None" "i \<notin> inner s"
    using prog_inv_conn [OF assms(1,3)] assms(3,4) by (simp_all add: conn_rest_def holder_def heap_of_def inner_def)
  show ?thesis
  proof (cases "op_size k < storage_size")
    case True
    define t where "t = set_conn i (Some (c\<lparr>inner_used := True, pending_op := Some (k, Storage_of i)\<rparr>))
      (s\<lparr>stdout := stdout s @ [UseMemory (op_size k)]\<rparr>)"
    have t: "rc_initiate op_size i k s = Inr t"
      using assms(3) c(2) True by (simp add: rc_initiate_def rc_alloc_allocate_def rc_allocate_def t_def set_conn_def)
    have conns: "conns t = (conns s)(i := Some (c\<lparr>inner_used := True, pending_op := Some (k, Storage_of i)\<rparr>))"
      by (simp add: t_def)
    have "prog_inv op_size {} t"
      by (rule prog_inv_upd [OF assms(1) conns])
        (use c True prog_inv_heap [OF assms(1)] in
          \<open>simp_all add: holder_upd [OF conns] conn_rest_def heap_of_def fun_upd_idem, simp_all add: t_def\<close>)
    moreover have "log_inv t"
      using assms(2) c(5) inner_upd [OF conns] by (simp add: log_inv_def t_def)
    ultimately show ?thesis using t by (simp add: t_def pending_kind_def)
  next
    case False
    let ?h = "store s"
    define t where "t = set_conn i (Some (c\<lparr>pending_op := Some (k, Heap_block (fresh ?h))\<rparr>))
      (s\<lparr>stdout := stdout s @ [NewMemory (op_size k)], store := \<lparr>live = fresh ?h # live ?h, fresh = fresh ?h + 1\<rparr>\<rparr>)"
    have t: "rc_initiate op_size i k s = Inr t"
      using assms(3) c(2) False by (simp add: rc_initiate_def rc_alloc_allocate_def rc_allocate_def t_def set_conn_def)
    have conns: "conns t = (conns s)(i := Some (c\<lparr>pending_op := Some (k, Heap_block (fresh ?h))\<rparr>))"
      by (simp add: t_def)
    have holder: "holder t = (holder s)(i \<mapsto> fresh ?h)"
      using holder_upd [OF conns] by (simp add: heap_of_def)
    have new: "fresh ?h \<notin> ran (holder s)" using assms(1) by (auto simp: prog_inv_def)
    have "prog_inv op_size {} t"
      by (rule prog_inv_upd [OF assms(1) conns])
        (use c False prog_inv_heap [OF assms(1)] inj_upd_Some [OF _ c(4) new] new in
          \<open>simp_all add: holder conn_rest_def, auto simp add: t_def less_Suc_eq\<close>)
    moreover have "log_inv t"
      using assms(2) c(2,5) inner_upd [OF conns] by (simp add: log_inv_def t_def)
    ultimately show ?thesis using t by (simp add: t_def pending_kind_def)
  qed
qed

text \<open>Before a handler runs, the connection gives back the block that it holds.\<close>

lemma rc_release_inv:
  assumes "prog_inv op_size {} s" "log_inv s" "pending_kind i s = Some k"
  shows "\<exists>t c. rc_release i s = Inr t \<and> prog_inv op_size {i} t \<and> log_inv t \<and>
    accept_pending t = accept_pending s \<and> conns t i = Some c \<and> pending_op c = None"
proof -
  obtain c p where c: "conns s i = Some c" "pending_op c = Some (k, p)"
    using assms(3) by (auto simp: pending_kind_def split: option.splits)
  note rest = prog_inv_conn [OF assms(1) c(1)]
  show ?thesis
  proof (cases "inner_used c")
    case True
    then have p: "p = Storage_of i" "holder s i = None" "i \<in> inner s"
      using rest c by (simp_all add: conn_rest_def holder_def heap_of_def inner_def)
    define d where "d = c\<lparr>pending_op := None, inner_used := False\<rparr>"
    define t where "t = set_conn i (Some d) (s\<lparr>stdout := stdout s @ [Deuse]\<rparr>)"
    have conns: "conns t = (conns s)(i := Some d)" by (simp add: t_def)
    have t: "rc_release i s = Inr t"
      using c p by (simp add: rc_release_def rc_alloc_deallocate_def rc_deallocate_def t_def d_def set_conn_def)
    have "prog_inv op_size {i} t"
      by (rule prog_inv_upd [OF assms(1) conns])
        (use rest p prog_inv_heap [OF assms(1)] in
          \<open>simp_all add: holder_upd [OF conns] conn_rest_def heap_of_def d_def fun_upd_idem, simp_all add: t_def\<close>)
    moreover have "card (inner s) = Suc (card (inner t))" "finite (inner t)"
      using inner_upd [OF conns] p(3) assms(2) card_Suc_Diff1 [of "inner s" i] by (simp_all add: d_def log_inv_def)
    then have "log_inv t" using assms(2) by (simp add: log_inv_def t_def)
    ultimately show ?thesis using t by (simp add: t_def d_def)
  next
    case False
    then obtain n where p: "p = Heap_block n" "holder s i = Some n" "i \<notin> inner s"
      using rest c by (auto simp: conn_rest_def holder_def heap_of_def inner_def)
    then have n: "n \<in> set (live (store s))" using prog_inv_heap [OF assms(1)] by (metis ranI)
    define d where "d = c\<lparr>pending_op := None\<rparr>"
    define t where "t = set_conn i (Some d)
      (s\<lparr>stdout := stdout s @ [Deleted], store := (store s)\<lparr>live := remove1 n (live (store s))\<rparr>\<rparr>)"
    have conns: "conns t = (conns s)(i := Some d)" by (simp add: t_def)
    have t: "rc_release i s = Inr t"
      using c p n by (simp add: rc_release_def rc_alloc_deallocate_def rc_deallocate_def t_def d_def set_conn_def)
    have holder: "holder t = (holder s)(i := None)" using holder_upd [OF conns] by (simp add: heap_of_def d_def)
    have "prog_inv op_size {i} t"
      by (rule prog_inv_upd [OF assms(1) conns])
        (use rest False p(2) prog_inv_heap [OF assms(1)] ran_remove [of "holder s" i n] inj_upd_None [of "holder s" i] in
          \<open>simp_all add: holder conn_rest_def d_def, auto simp add: t_def\<close>)
    moreover have "log_inv t"
      using assms(2) n p(3) False inner_upd [OF conns]
      by (simp add: log_inv_def t_def d_def length_remove1) (metis Suc_pred length_pos_if_in_set)
    ultimately show ?thesis using t by (simp add: t_def d_def)
  qed
qed

text \<open>A handler that started no other operation takes the connection with it.\<close>

lemma drop_self_inv:
  assumes "prog_inv op_size {i} s" "log_inv s"
  shows "prog_inv op_size {} (drop_self i s) \<and> log_inv (drop_self i s) \<and>
    accept_pending (drop_self i s) = accept_pending s"
proof (cases "\<exists>c. conns s i = Some c \<and> pending_op c = None")
  case True
  then obtain c where c: "conns s i = Some c" "pending_op c = None" by blast
  have conns: "conns (set_conn i None s) = (conns s)(i := None)" by simp
  have out: "holder s i = None" "i \<notin> inner s"
    using prog_inv_conn [OF assms(1) c(1)] c by (simp_all add: holder_def heap_of_def inner_def conn_rest_def)
  then have "holder (set_conn i None s) = holder s" "inner (set_conn i None s) = inner s"
    by (auto simp: holder_upd [OF conns] inner_upd [OF conns])
  then have "prog_inv op_size {} (set_conn i None s) \<and> log_inv (set_conn i None s)"
    using assms prog_inv_heap [OF assms(1)] prog_inv_conn [OF assms(1)]
    by (auto simp: prog_inv_def log_inv_def split: if_splits) (metis option.exhaust surj_pair)
  then show ?thesis using c by (simp add: drop_self_def)
next
  case False
  then have "drop_self i s = s" by (auto simp: drop_self_def split: option.splits)
  moreover have "prog_inv op_size {} s"
    using False assms(1) unfolding prog_inv_def by (metis singletonD)
  ultimately show ?thesis using assms(2) by simp
qed

text \<open>The handlers: each is a call of \<open>doRead\<close> or \<open>doWrite\<close>, or nothing.\<close>

definition handler_result :: "(async_op \<Rightarrow> u64) \<Rightarrow> nat set \<Rightarrow> bool \<Rightarrow> program checked \<Rightarrow> bool" where
  "handler_result op_size B acc r \<longleftrightarrow>
     (\<exists>t. r = Inr t \<and> prog_inv op_size B t \<and> log_inv t \<and> accept_pending t = acc)"

lemma handler_resultI:
  "prog_inv op_size B t \<Longrightarrow> log_inv t \<Longrightarrow> accept_pending t = acc \<Longrightarrow> handler_result op_size B acc (Inr t)"
  by (simp add: handler_result_def)

lemma handler_result_initiate:
  assumes "prog_inv op_size {i} s" "log_inv s" "conns s i = Some c" "pending_op c = None"
  shows "handler_result op_size {} (accept_pending s) (rc_initiate op_size i k s)"
  using rc_initiate_inv [OF assms] by (auto simp: handler_result_def)

lemma prog_inv_mono: "prog_inv op_size B s \<Longrightarrow> B \<subseteq> B' \<Longrightarrow> prog_inv op_size B' s"
  unfolding prog_inv_def by blast

lemma handler_result_mono:
  "handler_result op_size {} acc r \<Longrightarrow> handler_result op_size B acc r"
  by (auto simp: handler_result_def intro: prog_inv_mono)

lemma handler_result_drop:
  "handler_result op_size {i} acc r \<Longrightarrow> handler_result op_size {} acc (bind_checked r (\<lambda>s. Inr (drop_self i s)))"
  using drop_self_inv by (fastforce simp: handler_result_def)

lemma rc_on_written_inv:
  assumes "prog_inv op_size {i} s" "log_inv s" "conns s i = Some c" "pending_op c = None"
  shows "handler_result op_size {i} (accept_pending s) (rc_on_written op_size ec i s)"
  using assms handler_result_mono [OF handler_result_initiate [OF assms, of ReadOp], of "{i}"]
  by (simp add: rc_on_written_def rc_doRead_def handler_resultI)

lemma rc_doWrite_inv:
  assumes "prog_inv op_size {i} s" "log_inv s" "conns s i = Some c" "pending_op c = None" "len \<le> data_size"
  shows "handler_result op_size {i} (accept_pending s) (rc_doWrite op_size StrCat daytime i len s)"
  using assms(3,5) handler_result_mono [OF handler_result_initiate [OF assms(1-4)], where B = "{i}"]
  by (simp add: rc_doWrite_def Let_def)

lemma rc_receive_inv:
  assumes "prog_inv op_size {i} s" "log_inv s" "conns s i = Some c" "pending_op c = None" "length b \<le> data_size"
  shows "\<exists>d. prog_inv op_size {i} (rc_receive i b s) \<and> log_inv (rc_receive i b s) \<and>
    accept_pending (rc_receive i b s) = accept_pending s \<and> conns (rc_receive i b s) i = Some d \<and> pending_op d = None"
proof -
  define d where "d = c\<lparr>char_data := b @ drop (length b) (char_data c)\<rparr>"
  have r: "rc_receive i b s = set_conn i (Some d) s" using assms(3) by (simp add: rc_receive_def d_def)
  have conns: "conns (set_conn i (Some d) s) = (conns s)(i := Some d)" by simp
  have rest: "conn_rest op_size i c" "i < next_conn s" using prog_inv_conn [OF assms(1,3)] by simp_all
  have same: "holder (set_conn i (Some d) s) = holder s" "inner (set_conn i (Some d) s) = inner s"
    using assms(3) by (auto simp: holder_def inner_def heap_of_def d_def split: option.split)
  have "prog_inv op_size {i} (set_conn i (Some d) s)"
    by (rule prog_inv_upd [OF assms(1) conns])
      (use rest assms(4,5) prog_inv_heap [OF assms(1)] in \<open>simp_all add: same, simp_all add: conn_rest_def d_def\<close>)
  then show ?thesis using assms(2,4) same by (simp add: r log_inv_def d_def)
qed

lemma rc_on_read_inv:
  assumes "prog_inv op_size {i} s" "log_inv s" "conns s i = Some c" "pending_op c = None" "length b \<le> data_size"
  shows "handler_result op_size {i} (accept_pending s)
    (rc_on_read op_size StrCat daytime ec (length b) i (rc_receive i b s))"
proof -
  obtain d where d: "prog_inv op_size {i} (rc_receive i b s)" "log_inv (rc_receive i b s)"
    "accept_pending (rc_receive i b s) = accept_pending s" "conns (rc_receive i b s) i = Some d" "pending_op d = None"
    using rc_receive_inv [OF assms] by blast
  show ?thesis
    using rc_doWrite_inv [OF d(1,2,4,5) assms(5), of StrCat daytime] d(1-3)
    by (simp add: rc_on_read_def handler_resultI)
qed

lemma rc_on_accept_inv:
  assumes "prog_inv op_size {} s" "log_inv s" "length garbage = data_size"
  shows "handler_result op_size {} True (rc_on_accept op_size StrCat ec garbage daytime s)"
proof -
  let ?i = "next_conn s" and ?c = "rc_connection_new garbage"
  let ?t = "set_conn ?i (Some ?c) (s\<lparr>next_conn := ?i + 1\<rparr>)"
  have none: "conns s ?i = None" using prog_inv_conn(2) [OF assms(1), of ?i] by (cases "conns s ?i") auto
  have conns: "conns ?t = (conns s)(?i := Some ?c)" by simp
  have same: "holder ?t = holder s" "inner ?t = inner s"
    using none by (auto simp: holder_def inner_def heap_of_def rc_connection_new_def split: option.split)
  have rest: "j < next_conn ?t \<and> conn_rest op_size j d \<and> (pending_op d = None \<longrightarrow> j \<in> {?i})"
    if "conns ?t j = Some d" for j d
    using that prog_inv_conn [OF assms(1), of j d] assms(3)
    by (cases "j = ?i"; cases "pending_op d") (auto simp: conn_rest_def rc_connection_new_def)
  have "store ?t = store s" by simp
  then have "prog_inv op_size {?i} ?t"
    using prog_inv_heap [OF assms(1)] rest unfolding prog_inv_def same by metis
  moreover have "log_inv ?t" using assms(2) same by (simp add: log_inv_def)
  ultimately have "handler_result op_size {?i} (accept_pending s) (rc_start op_size StrCat daytime ?i ?t)"
    using rc_doWrite_inv [of op_size ?i ?t ?c 0 StrCat daytime] by (simp add: rc_start_def rc_connection_new_def)
  from handler_result_drop [OF this] show ?thesis
    using assms(1,2) unfolding handler_result_def rc_on_accept_def rc_doAccept_def
    by (auto simp: Let_def)
qed

lemma run_event_inv:
  assumes "prog_inv op_size {} s" "log_inv s" "accept_pending s" "enabled e s"
  shows "handler_result op_size {} True (run_event op_size StrCat e s)"
proof -
  have release: "\<exists>t c. rc_release i s = Inr t \<and> prog_inv op_size {i} t \<and> log_inv t \<and> accept_pending t \<and>
      conns t i = Some c \<and> pending_op c = None" if "pending_kind i s = Some k" for i k
    using rc_release_inv [OF assms(1,2) that] assms(3) by auto
  show ?thesis
  proof (cases e)
    case (Accepted ec garbage daytime)
    then show ?thesis
      using assms rc_on_accept_inv [of op_size "s\<lparr>accept_pending := False\<rparr>" garbage StrCat ec daytime]
      by simp
  next
    case (WrotePart i)
    then obtain k where k: "pending_kind i s = Some k" using assms(4) by (auto split: option.splits)
    then obtain t c where "rc_release i s = Inr t" "prog_inv op_size {i} t" "log_inv t" "accept_pending t"
      "conns t i = Some c" "pending_op c = None" using release by blast
    then show ?thesis using handler_result_initiate [of op_size i t c k] WrotePart k by simp
  next
    case (Written i ec)
    then obtain k where "pending_kind i s = Some k" using assms(4) by (auto split: option.splits)
    then obtain t c where t: "rc_release i s = Inr t" "prog_inv op_size {i} t" "log_inv t" "accept_pending t"
      "conns t i = Some c" "pending_op c = None" using release by blast
    then show ?thesis using handler_result_drop [OF rc_on_written_inv [OF t(2,3,5,6), of ec]] Written by simp
  next
    case (GotSome i ec b daytime)
    then have "pending_kind i s = Some ReadOp" "length b \<le> data_size" using assms(4) by simp_all
    moreover from this obtain t c where t: "rc_release i s = Inr t" "prog_inv op_size {i} t" "log_inv t"
      "accept_pending t" "conns t i = Some c" "pending_op c = None" using release by blast
    ultimately show ?thesis
      using handler_result_drop [OF rc_on_read_inv [OF t(2,3,5,6), of b StrCat daytime ec]] GotSome by simp
  qed
qed

interpretation echo_program: invariant_system program_init "program_step op_size StrCat" "handler_result op_size {} True"
  for op_size StrCat
proof
  fix r assume "program_init r"
  then obtain k where "r = Inr (rc_server_new k)" by (auto simp: program_init_def)
  then show "handler_result op_size {} True r"
    by (simp add: handler_result_def rc_server_new_def rc_doAccept_def prog_inv_def log_inv_def inner_def
        holder_no_conns printed_uses_def printed_news_def)
next
  fix r r' assume "handler_result op_size {} True r" "program_step op_size StrCat r r'"
  then show "handler_result op_size {} True r'"
    by (auto simp: handler_result_def [of _ _ _ r] elim!: program_stepE intro: run_event_inv)
qed

section \<open>Properties\<close>

text \<open>
  C11: The program of \<open>reference_counted_buffer.cpp\<close> with any number of connections and any order of completions never touches
  memory it does not own and never stops accepting. In every reachable state an accept is pending; every connection
  that is alive has exactly one operation pending, and holds its own inner block when the operation needs less than
  1024 bytes and a block of the free store otherwise; no two connections hold the same block and no block is
  lost; and the printed lines balance: each \<open>use memory\<close> is matched by a \<open>deuse\<close> or by an inner block still in use, each \<open>new memory\<close> by a
  \<open>delete\<close> or by a block still in use.
\<close>

theorem echo_program_safe:
  assumes "reachable program_init (program_step op_size StrCat) r"
  shows "\<exists>s. r = Inr s \<and> accept_pending s \<and>
    (\<forall>i c. conns s i = Some c \<longrightarrow>
       (\<exists>k p. pending_op c = Some (k, p) \<and>
          (if op_size k < 1024 then p = Storage_of i else \<exists>n \<in> set (live (store s)). p = Heap_block n))) \<and>
    inj_on (holder s) (dom (holder s)) \<and> ran (holder s) = set (live (store s)) \<and>
    printed_uses (stdout s) = count_list (stdout s) Deuse + card (inner s) \<and>
    printed_news (stdout s) = count_list (stdout s) Deleted + length (live (store s))"
proof -
  from echo_program.reachable_inv [OF assms] obtain s where
    s: "r = Inr s" "prog_inv op_size {} s" "log_inv s" "accept_pending s"
    by (auto simp: handler_result_def)
  have "\<exists>k p. pending_op c = Some (k, p) \<and>
      (if op_size k < 1024 then p = Storage_of i else \<exists>n \<in> set (live (store s)). p = Heap_block n)"
    if c: "conns s i = Some c" for i c
  proof -
    note rest = prog_inv_conn [OF s(2) c]
    obtain k p where p: "pending_op c = Some (k, p)" using rest(3) by (cases "pending_op c") auto
    moreover have "p = Heap_block n \<Longrightarrow> n \<in> set (live (store s))" for n
      using prog_inv_heap [OF s(2)] p c ranI [of "holder s" i n] by (simp add: holder_def heap_of_def)
    ultimately show ?thesis using rest(1) by (auto simp: conn_rest_def storage_size_def)
  qed
  then show ?thesis using s prog_inv_heap [OF s(2)] by (auto simp: log_inv_def)
qed

theorem echo_program_safe_witness:
  "\<exists>s. run_event (\<lambda>_. 2000) concat (Accepted False (replicate 1024 CHR 0x00) (replicate 25 CHR ''x'')) (rc_server_new 5) =
     Inr s \<and> conns s 0 \<noteq> None \<and> accept_pending s \<and> ran (holder s) = {5} \<and> printed_news (stdout s) = 1"
proof -
  let ?e = "Accepted False (replicate 1024 CHR 0x00) (replicate 25 CHR ''x'')"
  have "program_step (\<lambda>_. 2000) concat (Inr (rc_server_new 5)) (run_event (\<lambda>_. 2000) concat ?e (rc_server_new 5))"
    by (rule program_step.intros) (simp add: data_size_def rc_server_new_def rc_doAccept_def)
  moreover have "reachable program_init (program_step (\<lambda>_. 2000) concat) (Inr (rc_server_new 5))"
    by (rule reachable_init) (auto simp: program_init_def)
  ultimately have "reachable program_init (program_step (\<lambda>_. 2000) concat)
      (run_event (\<lambda>_. 2000) concat ?e (rc_server_new 5))"
    using reachable_step by metis
  from echo_program_safe [OF this] show ?thesis
    by (auto simp: rc_on_accept_def rc_server_new_def rc_doAccept_def rc_start_def rc_doWrite_def rc_initiate_def
        rc_alloc_allocate_def rc_allocate_def rc_connection_new_def set_conn_def drop_self_def Let_def storage_size_def
        printed_news_def)
qed

end
