(* ===== verification/Producer_Consumer.thy ===== *)
theory Producer_Consumer
  imports Prelude
begin

text \<open>
  The producer and the consumers of \<open>src/misc/producer_consumer.cpp\<close>, at the granularity of what
  they do between two operations on the mutex: a step relation over the shared queue, the flag
  \<open>notified\<close>, the owner of the mutex and the place of every thread. A blocked wait is left when the
  condition variable is notified, or spuriously at any time, as the C++ library allows; the mutex
  is taken again in a later step.
\<close>

section \<open>The threads\<close>

datatype owner = Nobody | Producer | Consumer nat

text \<open>Places of the producer: \<open>Sleeping\<close> (lines 18-19), then the critical section of lines 20-23.\<close>

datatype producer_pc = Sleeping | Pushing | Notifying | Leaving

text \<open>
  Places of a consumer: before line 29; at the test of line 30; in \<open>wait\<close>, blocked or woken but
  without the mutex; in the sleep of line 34; in the loop of line 36.
\<close>

datatype consumer_pc = Starting | Testing | Blocked | Woken | Pausing | Draining

record shop =
  queue :: "int list"
  notified :: bool
  mtx :: owner
  counter :: int
  producer :: producer_pc
  consumers :: "nat \<Rightarrow> consumer_pc"
  consumed :: "int list"

definition initial_shop :: shop where
  "initial_shop = \<lparr>queue = [], notified = False, mtx = Nobody, counter = 0, producer = Sleeping,
     consumers = (\<lambda>_. Starting), consumed = []\<rparr>"

definition notify_all :: "shop \<Rightarrow> shop" where
  "notify_all s = s\<lparr>consumers := (\<lambda>k. if consumers s k = Blocked then Woken else consumers s k)\<rparr>"

definition goto :: "nat \<Rightarrow> consumer_pc \<Rightarrow> shop \<Rightarrow> shop" where
  "goto k pc s = s\<lparr>consumers := (consumers s)(k := pc)\<rparr>"

inductive shop_step :: "shop \<Rightarrow> shop \<Rightarrow> bool" where
  produce_lock:
    "producer s = Sleeping \<Longrightarrow> mtx s = Nobody \<Longrightarrow> shop_step s (s\<lparr>mtx := Producer, producer := Pushing\<rparr>)"
| produce_push:
    "producer s = Pushing \<Longrightarrow>
     shop_step s (s\<lparr>queue := queue s @ [counter s], notified := True, producer := Notifying\<rparr>)"
| produce_notify:
    "producer s = Notifying \<Longrightarrow> shop_step s ((notify_all s)\<lparr>producer := Leaving\<rparr>)"
| produce_unlock:
    "producer s = Leaving \<Longrightarrow> int_add (counter s) 1 = Inr i \<Longrightarrow>
     shop_step s (s\<lparr>mtx := Nobody, counter := i, producer := Sleeping\<rparr>)"
| consume_lock:
    "consumers s k = Starting \<Longrightarrow> mtx s = Nobody \<Longrightarrow> shop_step s (goto k Testing (s\<lparr>mtx := Consumer k\<rparr>))"
| consume_wait:
    "consumers s k = Testing \<Longrightarrow> \<not> notified s \<Longrightarrow> shop_step s (goto k Blocked (s\<lparr>mtx := Nobody\<rparr>))"
| spurious_wakeup:
    "consumers s k = Blocked \<Longrightarrow> shop_step s (goto k Woken s)"
| consume_relock:
    "consumers s k = Woken \<Longrightarrow> mtx s = Nobody \<Longrightarrow> shop_step s (goto k Testing (s\<lparr>mtx := Consumer k\<rparr>))"
| consume_unlock:
    "consumers s k = Testing \<Longrightarrow> notified s \<Longrightarrow> shop_step s (goto k Pausing (s\<lparr>mtx := Nobody\<rparr>))"
| consume_lock_again:
    "consumers s k = Pausing \<Longrightarrow> mtx s = Nobody \<Longrightarrow> shop_step s (goto k Draining (s\<lparr>mtx := Consumer k\<rparr>))"
| consume_pop:
    "consumers s k = Draining \<Longrightarrow> queue s = i # q \<Longrightarrow>
     shop_step s (s\<lparr>queue := q, consumed := consumed s @ [i]\<rparr>)"
| consume_done:
    "consumers s k = Draining \<Longrightarrow> queue s = [] \<Longrightarrow>
     shop_step s (goto k Starting (s\<lparr>notified := False, mtx := Nobody\<rparr>))"

definition shop_init :: "shop \<Rightarrow> bool" where
  "shop_init s \<longleftrightarrow> s = initial_shop"

section \<open>The invariants\<close>

text \<open>Whoever is in a critical section owns the mutex.\<close>

definition mutex_inv :: "shop \<Rightarrow> bool" where
  "mutex_inv s \<longleftrightarrow> (producer s \<noteq> Sleeping \<longleftrightarrow> mtx s = Producer) \<and>
     (\<forall>k. consumers s k \<in> {Testing, Draining} \<longleftrightarrow> mtx s = Consumer k)"

text \<open>The values produced so far: those of the finished rounds, and that of a round past its push.\<close>

definition produced :: "shop \<Rightarrow> int list" where
  "produced s = (if producer s \<in> {Notifying, Leaving} then [0..counter s] else [0..counter s - 1])"

definition wakeup_inv :: "shop \<Rightarrow> bool" where
  "wakeup_inv s \<longleftrightarrow> mutex_inv s \<and> (queue s \<noteq> [] \<longrightarrow> notified s) \<and>
     (notified s \<and> producer s \<noteq> Notifying \<longrightarrow> (\<forall>k. consumers s k \<noteq> Blocked))"

lemmas shop_defs = goto_def notify_all_def shop_init_def initial_shop_def

lemma mutex_owner:
  "mutex_inv s \<Longrightarrow> consumers s k = Testing \<Longrightarrow> mtx s = Consumer k"
  "mutex_inv s \<Longrightarrow> consumers s k = Draining \<Longrightarrow> mtx s = Consumer k"
  "mutex_inv s \<Longrightarrow> producer s = Pushing \<Longrightarrow> mtx s = Producer"
  "mutex_inv s \<Longrightarrow> producer s = Notifying \<Longrightarrow> mtx s = Producer"
  "mutex_inv s \<Longrightarrow> producer s = Leaving \<Longrightarrow> mtx s = Producer"
  by (auto simp: mutex_inv_def)

lemma mutex_leave:
  assumes "mutex_inv s" "mtx s = Consumer k" "pc \<notin> {Testing, Draining}"
  shows "mutex_inv (goto k pc (s\<lparr>mtx := Nobody\<rparr>))"
proof -
  have "producer s = Sleeping" "\<And>j. consumers s j \<in> {Testing, Draining} \<Longrightarrow> j = k"
    using assms(1,2) by (auto simp: mutex_inv_def)
  then show ?thesis using assms(3) by (auto simp: mutex_inv_def goto_def)
qed

lemma mutex_enter:
  assumes "mutex_inv s" "mtx s = Nobody" "pc \<in> {Testing, Draining}"
  shows "mutex_inv (goto k pc (s\<lparr>mtx := Consumer k\<rparr>))"
  using assms by (auto simp: mutex_inv_def goto_def)

lemma mutex_inv_step: "shop_step s t \<Longrightarrow> mutex_inv s \<Longrightarrow> mutex_inv t"
proof (induction rule: shop_step.induct)
  case (consume_done s k)
  then have "mutex_inv (goto k Starting (s\<lparr>mtx := Nobody\<rparr>))" by (intro mutex_leave mutex_owner) simp_all
  then show ?case by (simp add: mutex_inv_def goto_def)
next
  case (spurious_wakeup s k)
  then have "consumers s k \<in> {Testing, Draining} \<longleftrightarrow> mtx s = Consumer k" unfolding mutex_inv_def by blast
  then have "mtx s \<noteq> Consumer k" using spurious_wakeup.hyps by simp
  then show ?case using spurious_wakeup by (auto simp: mutex_inv_def goto_def)
qed (auto simp: mutex_owner intro!: mutex_leave mutex_enter, (auto simp: mutex_inv_def shop_defs)+)

lemma wakeup_inv_step: "shop_step s t \<Longrightarrow> wakeup_inv s \<Longrightarrow> wakeup_inv t"
proof -
  assume step: "shop_step s t" and inv: "wakeup_inv s"
  have "mutex_inv t" using mutex_inv_step [OF step] inv by (simp add: wakeup_inv_def)
  moreover have "(queue t \<noteq> [] \<longrightarrow> notified t) \<and>
     (notified t \<and> producer t \<noteq> Notifying \<longrightarrow> (\<forall>k. consumers t k \<noteq> Blocked))"
    using step inv
    by (induction rule: shop_step.induct) (auto simp: wakeup_inv_def shop_defs)
  ultimately show ?thesis by (simp add: wakeup_inv_def)
qed

lemma wakeup_inv_init: "shop_init s \<Longrightarrow> wakeup_inv s"
  by (simp add: wakeup_inv_def mutex_inv_def shop_defs)

interpretation wakeup: invariant_system shop_init shop_step wakeup_inv
  by unfold_locales (blast intro: wakeup_inv_init wakeup_inv_step)+

text \<open>One round of the producer, for concrete instances of the properties.\<close>

definition after_one_round :: shop where
  "after_one_round = \<lparr>queue = [0], notified = True, mtx = Nobody, counter = 1, producer = Sleeping,
     consumers = (\<lambda>_. Starting), consumed = []\<rparr>"

lemma after_one_round_reachable: "reachable shop_init shop_step after_one_round"
proof -
  define s1 where "s1 = initial_shop\<lparr>mtx := Producer, producer := Pushing\<rparr>"
  define s2 where "s2 = s1\<lparr>queue := queue s1 @ [counter s1], notified := True, producer := Notifying\<rparr>"
  define s3 where "s3 = (notify_all s2)\<lparr>producer := Leaving\<rparr>"
  have "reachable shop_init shop_step initial_shop" by (rule reachable_init) (simp add: shop_init_def)
  moreover have "shop_step initial_shop s1"
    unfolding s1_def by (rule produce_lock) (simp_all add: initial_shop_def)
  moreover have "shop_step s1 s2" unfolding s2_def by (rule produce_push) (simp add: s1_def)
  moreover have "shop_step s2 s3" unfolding s3_def by (rule produce_notify) (simp add: s2_def)
  moreover have "shop_step s3 (s3\<lparr>mtx := Nobody, counter := 1, producer := Sleeping\<rparr>)"
    by (rule produce_unlock)
      (simp_all add: s3_def s2_def s1_def initial_shop_def notify_all_def int_ops int_range)
  moreover have "s3\<lparr>mtx := Nobody, counter := 1, producer := Sleeping\<rparr> = after_one_round"
    by (simp add: s3_def s2_def s1_def initial_shop_def notify_all_def after_one_round_def)
  ultimately show ?thesis by (metis reachable_step)
qed

section \<open>The channel\<close>

text \<open>
  What the two kinds of threads implement together: a channel that numbers what is put into it and gives it out in order. Its
  steps are atomic; the mutex, the condition variable, the flag and the places of the threads cannot be seen.
\<close>

record channel =
  next_value :: int
  held :: "int list"
  given :: "int list"

inductive channel_step :: "channel \<Rightarrow> channel \<Rightarrow> bool" where
  put: "next_value c \<le> INT_MAX \<Longrightarrow> channel_step c (c\<lparr>next_value := next_value c + 1, held := held c @ [next_value c]\<rparr>)"
| get: "held c = i # q \<Longrightarrow> channel_step c (c\<lparr>held := q, given := given c @ [i]\<rparr>)"

definition channel_init :: "channel \<Rightarrow> bool" where
  "channel_init c \<longleftrightarrow> c = \<lparr>next_value = 0, held = [], given = []\<rparr>"

definition channel_of :: "shop \<Rightarrow> channel" where
  "channel_of s = \<lparr>next_value = counter s + (if producer s \<in> {Notifying, Leaving} then 1 else 0),
     held = queue s, given = consumed s\<rparr>"

definition counter_inv :: "shop \<Rightarrow> bool" where
  "counter_inv s \<longleftrightarrow> in_int (counter s)"

lemma counter_inv_step: "shop_step s t \<Longrightarrow> counter_inv s \<Longrightarrow> counter_inv t"
  by (induction rule: shop_step.induct) (auto simp: counter_inv_def shop_defs int_ops)

lemma shop_step_channel:
  assumes "shop_step s t" "counter_inv s"
  shows "channel_step (channel_of s) (channel_of t) \<or> channel_of t = channel_of s"
  using assms(1)
proof cases
  case produce_push
  then show ?thesis using put [of "channel_of s"] assms(2) by (simp add: channel_of_def counter_inv_def in_int_def)
next
  case (consume_pop k i q)
  then show ?thesis using get [of "channel_of s" i q] by (simp add: channel_of_def)
qed (auto simp: channel_of_def shop_defs int_ops)

interpretation channel: refinement_mapping shop_init shop_step counter_inv channel_init channel_step channel_of
proof
  show "counter_inv s" "channel_init (channel_of s)" if "shop_init s" for s
    using that by (simp_all add: counter_inv_def channel_init_def channel_of_def shop_defs int_range)
  show "counter_inv t" if "counter_inv s" "shop_step s t" for s t
    using counter_inv_step that by blast
  show "channel_step (channel_of s) (channel_of t) \<or> channel_of t = channel_of s"
    if "counter_inv s" "shop_step s t" for s t
    using shop_step_channel that by blast
qed

text \<open>A channel never loses, doubles or reorders a value.\<close>

lemma channel_in_order:
  "reachable channel_init channel_step c \<Longrightarrow> 0 \<le> next_value c \<and> given c @ held c = [0..next_value c - 1]"
proof (induction rule: reachable.induct)
  case (reachable_step c d)
  from reachable_step.hyps(2) reachable_step.IH show ?case
    using upto_rec2 [of 0 "next_value c"] by cases auto
qed (simp add: channel_init_def)

section \<open>Properties\<close>

text \<open>
  C18: The producer and the consumers refine the channel: in every interleaving, with spurious wake-ups, what is queued and printed is a
  reachable state of the channel, every step is one \<open>put\<close> of the next number, one \<open>get\<close> of the oldest value or cannot be
  seen; so the consumers print the numbers from 0 on in order, each once, and what is not yet printed is in the queue.
\<close>

theorem shop_refines_channel:
  assumes "reachable shop_init shop_step s"
  shows "reachable channel_init channel_step (channel_of s) \<and>
    (\<forall>t. shop_step s t \<longrightarrow> channel_step (channel_of s) (channel_of t) \<or> channel_of t = channel_of s) \<and>
    consumed s @ queue s = produced s \<and> distinct (consumed s)"
proof (intro conjI allI impI)
  show run: "reachable channel_init channel_step (channel_of s)" by (rule channel.view_reachable [OF assms])
  show "channel_step (channel_of s) (channel_of t) \<or> channel_of t = channel_of s" if "shop_step s t" for t
    by (rule channel.view_square [OF assms that])
  show eq: "consumed s @ queue s = produced s"
    using channel_in_order [OF run] by (simp add: channel_of_def produced_def split: if_splits)
  have "distinct (produced s)" by (simp add: produced_def)
  then show "distinct (consumed s)" using eq by (metis distinct_append)
qed

theorem shop_refines_channel_witness:
  "reachable channel_init channel_step (channel_of after_one_round) \<and>
   consumed after_one_round @ queue after_one_round = [0..0] \<and> distinct (consumed after_one_round)"
  using shop_refines_channel [OF after_one_round_reachable] by (simp add: produced_def after_one_round_def)

text \<open>
  C19: no wake-up is lost and no two threads are in a critical section: while the producer is not
  about to notify, a queued value means that \<open>notified\<close> is set and that no consumer is blocked.
\<close>

theorem no_lost_wakeup:
  assumes "reachable shop_init shop_step s"
  shows "(mtx s = Nobody \<longrightarrow> queue s \<noteq> [] \<longrightarrow> notified s \<and> (\<forall>k. consumers s k \<noteq> Blocked)) \<and>
    (\<forall>k. consumers s k \<in> {Testing, Draining} \<longrightarrow> producer s = Sleeping \<and>
       (\<forall>j. consumers s j \<in> {Testing, Draining} \<longrightarrow> j = k))"
  using wakeup.reachable_inv [OF assms] by (auto simp: wakeup_inv_def mutex_inv_def)

theorem no_lost_wakeup_witness:
  "mtx after_one_round = Nobody \<and> queue after_one_round \<noteq> [] \<and> notified after_one_round \<and>
     (\<forall>k. consumers after_one_round k \<noteq> Blocked)"
  using no_lost_wakeup [OF after_one_round_reachable] by (simp add: after_one_round_def)

end
