(* ===== verification/Inventory.thy ===== *)
theory Inventory
  imports Prelude
begin

text \<open>
  The inventory of \<open>src/abseil/abseil_sync.cpp\<close>: ten producers and three consumers that change a
  shared \<open>int\<close> under an \<open>absl::Mutex\<close>. Abseil documents that \<open>LockWhenWithTimeout\<close> returns with the
  mutex held, and true exactly when its condition holds then; so one round of a thread is one
  atomic step, whose condition is the one the source passes.
\<close>

section \<open>The model\<close>

datatype worker = P nat | C nat

record stock =
  inventory :: int
  last :: int
  failures :: nat
  printed :: "(worker \<times> int) list"
  stop :: bool

definition initial_stock :: stock where
  "initial_stock = \<lparr>inventory = 0, last = 0, failures = 0, printed = [], stop = False\<rparr>"

definition print_inventory :: "worker \<Rightarrow> stock \<Rightarrow> stock checked" where
  "print_inventory c s =
     bind_checked (int_sub (last s) (inventory s)) (\<lambda>d.
       let s1 = (if \<bar>d\<bar> = 1 then s else s\<lparr>failures := failures s + 1\<rparr>)
       in Inr (s1\<lparr>last := inventory s1, printed := printed s1 @ [(c, inventory s1)]\<rparr>))"

definition producer_condition :: "stock \<Rightarrow> bool" where
  "producer_condition s \<longleftrightarrow> inventory s < 30"

definition consumer_condition :: "stock \<Rightarrow> bool" where
  "consumer_condition s \<longleftrightarrow> inventory s > 0"

text \<open>One round of a thread, once it holds the mutex: on a timeout it only unlocks.\<close>

definition producer_round :: "nat \<Rightarrow> stock \<Rightarrow> stock checked" where
  "producer_round i s =
     (if producer_condition s
      then bind_checked (int_add (inventory s) 1) (\<lambda>n. print_inventory (P i) (s\<lparr>inventory := n\<rparr>))
      else Inr s)"

definition consumer_round :: "nat \<Rightarrow> stock \<Rightarrow> stock checked" where
  "consumer_round i s =
     (if consumer_condition s
      then bind_checked (int_sub (inventory s) 1) (\<lambda>n. print_inventory (C i) (s\<lparr>inventory := n\<rparr>))
      else Inr s)"

text \<open>A thread may have read \<open>stop\<close> before it is set, so a round can still come after it.\<close>

inductive stock_step :: "stock checked \<Rightarrow> stock checked \<Rightarrow> bool" where
  produce: "i < 10 \<Longrightarrow> stock_step (Inr s) (producer_round i s)"
| consume: "i < 3 \<Longrightarrow> stock_step (Inr s) (consumer_round i s)"
| stop_all: "stock_step (Inr s) (Inr (s\<lparr>stop := True\<rparr>))"

definition stock_init :: "stock checked \<Rightarrow> bool" where
  "stock_init r \<longleftrightarrow> r = Inr initial_stock"

section \<open>The invariant\<close>

text \<open>The values printed, read from the start, move by one from each to the next.\<close>

fun unit_steps :: "int \<Rightarrow> int list \<Rightarrow> bool" where
  "unit_steps x [] = True"
| "unit_steps x (y # ys) = (\<bar>x - y\<bar> = 1 \<and> unit_steps y ys)"

definition stock_ok :: "stock \<Rightarrow> bool" where
  "stock_ok s \<longleftrightarrow> 0 \<le> inventory s \<and> inventory s \<le> 30 \<and> last s = inventory s \<and> failures s = 0 \<and>
     unit_steps 0 (map snd (printed s)) \<and> last s = List.last (0 # map snd (printed s))"

definition stock_inv :: "stock checked \<Rightarrow> bool" where
  "stock_inv r = (case r of Inl _ \<Rightarrow> False | Inr s \<Rightarrow> stock_ok s)"

lemma unit_steps_snoc:
  "unit_steps x (ys @ [y]) \<longleftrightarrow> unit_steps x ys \<and> \<bar>List.last (x # ys) - y\<bar> = 1"
  by (induction ys arbitrary: x) auto

lemma rounds_keep_inv:
  assumes "stock_ok s"
  shows "stock_inv (producer_round i s)" "stock_inv (consumer_round i s)"
  using assms
  by (auto simp: stock_ok_def stock_inv_def producer_round_def consumer_round_def producer_condition_def
      consumer_condition_def print_inventory_def Let_def int_ops checked_simps int_range unit_steps_snoc)

lemma stock_inv_step: "stock_step r r' \<Longrightarrow> stock_inv r \<Longrightarrow> stock_inv r'"
proof (induction rule: stock_step.induct)
  case (stop_all s)
  then show ?case by (simp add: stock_inv_def stock_ok_def)
qed (simp_all add: rounds_keep_inv stock_inv_def [of "Inr _"])

interpretation stock: invariant_system stock_init stock_step stock_inv
  by unfold_locales (simp add: stock_init_def stock_inv_def stock_ok_def initial_stock_def,
    blast intro: stock_inv_step)

section \<open>Properties\<close>

text \<open>
  C32: in every interleaving the inventory stays between 0 and 30, no arithmetic overflows, no
  \<open>EXPECT_EQ\<close> of \<open>print_inventory\<close> fails, and the printed values move by one from each to the next.
\<close>

theorem inventory_bounds:
  assumes "reachable stock_init stock_step r"
  shows "\<exists>s. r = Inr s \<and> 0 \<le> inventory s \<and> inventory s \<le> 30 \<and> failures s = 0 \<and>
    unit_steps 0 (map snd (printed s))"
  using stock.reachable_inv [OF assms] by (auto simp: stock_inv_def stock_ok_def split: sum.splits)

theorem inventory_bounds_witness:
  "\<exists>s. producer_round 4 initial_stock = Inr s \<and> inventory s \<le> 30 \<and> failures s = 0 \<and>
     unit_steps 0 (map snd (printed s))"
proof -
  have "reachable stock_init stock_step (Inr initial_stock)"
    by (rule reachable_init) (simp add: stock_init_def)
  moreover have "stock_step (Inr initial_stock) (producer_round 4 initial_stock)" by (rule produce) simp
  ultimately have "reachable stock_init stock_step (producer_round 4 initial_stock)" by (rule reachable_step)
  from inventory_bounds [OF this] show ?thesis by blast
qed

end
