(* ===== verification/Sync_Client.thy ===== *)
theory Sync_Client
  imports Service_Impl
begin

text \<open>
  The synchronous client of \<open>src/grpcdemo/client.cpp\<close>: its four calls and the lines it logs. The
  stub and the channel below it are gRPC's and so an argument: the record \<open>stub\<close> holds what each
  call of the client returns. \<open>connected\<close> says what gRPC promises of a working connection to
  \<open>ServiceImpl\<close>: calls reach the service and come back, streams arrive whole and in order. What
  \<open>timeCostInMilliseconds\<close>, of the base library, measures for the first call is the argument \<open>cost\<close>.
\<close>

record stub =
  call_SayHello :: "HelloRequest \<Rightarrow> status \<times> HelloResponse"
  SayHello1_Write :: "nat \<Rightarrow> bool"
  SayHello1_Finish :: "HelloRequest list \<Rightarrow> status \<times> HelloResponse"
  call_SayHello2 :: "HelloRequest \<Rightarrow> status \<times> HelloResponse list"
  SayHello3_Write :: "nat \<Rightarrow> bool"
  call_SayHello3 :: "HelloRequest list \<Rightarrow> status \<times> HelloResponse list"

datatype log_line =
    RpcFailed int string
  | ResponseMessage string string
  | WriteFailed
  | Cost nat

section \<open>The calls\<close>

definition double_quoted_tony :: HelloRequest where
  "double_quoted_tony =
     default_HelloRequest\<lparr>req_config := default_Config\<lparr>double_quote := True\<rparr>, req_name := ''tony''\<rparr>"

definition names :: "string list" where
  "names = [''tony'', ''tang'', ''chang'']"

definition log_result :: "status \<Rightarrow> log_line list \<Rightarrow> log_line list" where
  "log_result st success = (case st of StatusError code msg \<Rightarrow> [RpcFailed code msg] | StatusOK \<Rightarrow> success)"

definition client_SayHello :: "nat \<Rightarrow> stub \<Rightarrow> log_line list" where
  "client_SayHello cost stub =
     (let (st, response) = call_SayHello stub double_quoted_tony
      in log_result st [ResponseMessage ''response message: '' (resp_message response)] @ [Cost cost])"

text \<open>The loop over the names: the requests written and whether a write failed.\<close>

fun write_names :: "(nat \<Rightarrow> bool) \<Rightarrow> nat \<Rightarrow> string list \<Rightarrow> HelloRequest list \<times> log_line list" where
  "write_names Write_ok i [] = ([], [])"
| "write_names Write_ok i (name # ns) =
     (let req = default_HelloRequest\<lparr>req_name := name\<rparr> in
      if \<not> Write_ok i then ([], [WriteFailed])
      else let (reqs, log) = write_names Write_ok (i + 1) ns in (req # reqs, log))"

definition client_SayHello1 :: "stub \<Rightarrow> log_line list" where
  "client_SayHello1 stub =
     (let (written, log) = write_names (SayHello1_Write stub) 0 names;
          (st, response) = SayHello1_Finish stub written
      in log @ log_result st [ResponseMessage ''1 response message: '' (resp_message response)])"

definition client_SayHello2 :: "stub \<Rightarrow> log_line list" where
  "client_SayHello2 stub =
     (let (st, responses) = call_SayHello2 stub double_quoted_tony
      in map (\<lambda>r. ResponseMessage ''2 response message: '' (resp_message r)) responses @ log_result st [])"

text \<open>The writer is a thread of its own: its lines are returned apart from those of the reader.\<close>

definition client_SayHello3 :: "stub \<Rightarrow> log_line list \<times> log_line list" where
  "client_SayHello3 stub =
     (let (written, log) = write_names (SayHello3_Write stub) 0 names;
          (st, responses) = call_SayHello3 stub written
      in (log, map (\<lambda>r. ResponseMessage ''3 response message: '' (resp_message r)) responses @ log_result st []))"

definition client_main :: "nat \<Rightarrow> stub \<Rightarrow> log_line list \<times> log_line list" where
  "client_main cost stub =
     (let (writer, reader) = client_SayHello3 stub
      in (writer, client_SayHello cost stub @ client_SayHello1 stub @ client_SayHello2 stub @ reader))"

section \<open>A working connection\<close>

definition connected :: "stub \<Rightarrow> bool" where
  "connected stub \<longleftrightarrow>
     (\<forall>r. call_SayHello stub r = SayHello r) \<and>
     (\<forall>i. SayHello1_Write stub i) \<and> (\<forall>rs. SayHello1_Finish stub rs = SayHello1 rs) \<and>
     (\<forall>r. call_SayHello2 stub r = SayHello2 r (\<lambda>_. True)) \<and>
     (\<forall>i. SayHello3_Write stub i) \<and> (\<forall>rs. call_SayHello3 stub rs = SayHello3 rs)"

definition local_stub :: stub where
  "local_stub = \<lparr>call_SayHello = SayHello, SayHello1_Write = (\<lambda>_. True), SayHello1_Finish = SayHello1,
     call_SayHello2 = (\<lambda>r. SayHello2 r (\<lambda>_. True)), SayHello3_Write = (\<lambda>_. True), call_SayHello3 = SayHello3\<rparr>"

lemma local_stub_connected: "connected local_stub"
  by (simp add: connected_def local_stub_def)

lemma write_names_prefix:
  "\<exists>k \<le> length ns. fst (write_names ok i ns) = map (\<lambda>n. default_HelloRequest\<lparr>req_name := n\<rparr>) (take k ns) \<and>
     (snd (write_names ok i ns) = [] \<longleftrightarrow> k = length ns) \<and> (\<forall>j < k. ok (i + j)) \<and>
     (k < length ns \<longrightarrow> \<not> ok (i + k))"
proof (induction ns arbitrary: i)
  case (Cons n ns)
  show ?case
  proof (cases "ok i")
    case True
    obtain k where "k \<le> length ns"
      "fst (write_names ok (i + 1) ns) = map (\<lambda>n. default_HelloRequest\<lparr>req_name := n\<rparr>) (take k ns)"
      "snd (write_names ok (i + 1) ns) = [] \<longleftrightarrow> k = length ns" "\<forall>j < k. ok (i + 1 + j)"
      "k < length ns \<longrightarrow> \<not> ok (i + 1 + k)" using Cons.IH by blast
    with True show ?thesis
      by (intro exI [of _ "Suc k"]) (auto simp: less_Suc_eq_0_disj split: prod.split)
  next
    case False
    then show ?thesis by (intro exI [of _ 0]) simp
  qed
qed simp

section \<open>Properties\<close>

text \<open>
  On a working connection the client logs these greetings, with the cost of the first call after the first of them, and no failure.
\<close>

lemma client_end_to_end:
  assumes "connected stub"
  shows "client_main cost stub =
    ([],
     [ResponseMessage ''response message: '' (''hello '' @ [CHR 0x22] @ ''tony'' @ [CHR 0x22]),
      Cost cost,
      ResponseMessage ''1 response message: ''
        (''hello '' @ [CHR 0x27] @ ''tony'' @ [CHR 0x27] @ '' '' @ [CHR 0x27] @ ''tang'' @ [CHR 0x27] @ '' '' @
         [CHR 0x27] @ ''chang'' @ [CHR 0x27])] @
     replicate 3 (ResponseMessage ''2 response message: '' (''hello'' @ [CHR 0x22] @ ''tony'' @ [CHR 0x22])) @
     map (\<lambda>n. ResponseMessage ''3 response message: '' (''hello '' @ [CHR 0x27] @ n @ [CHR 0x27]))
       [''tony'', ''tang'', ''chang''])"
  using assms
  by (simp add: connected_def client_main_def client_SayHello_def client_SayHello1_def client_SayHello2_def
      client_SayHello3_def names_def double_quoted_tony_def log_result_def default_HelloRequest_def
      default_Config_def SayHello_def SayHello1_def SayHello2_def SayHello3_def quotedName_def
      numeral_eq_Suc Let_def)

lemma client_end_to_end_witness:
  "fst (client_main 5 local_stub) = [] \<and> length (snd (client_main 5 local_stub)) = 9"
  using client_end_to_end [OF local_stub_connected] by simp

text \<open>
  Whatever the stream does, the client writes the names in order up to the first write that
  fails, logs the failure exactly once if there is one, and finishes the call with what it wrote.
\<close>

lemma client_SayHello1_writes:
  "\<exists>k \<le> 3. (\<forall>j < k. SayHello1_Write stub j) \<and> (k < 3 \<longrightarrow> \<not> SayHello1_Write stub k) \<and>
     client_SayHello1 stub =
       (if k < 3 then [WriteFailed] else []) @
       (case SayHello1_Finish stub (map (\<lambda>n. default_HelloRequest\<lparr>req_name := n\<rparr>) (take k names)) of
          (StatusOK, r) \<Rightarrow> [ResponseMessage ''1 response message: '' (resp_message r)]
        | (StatusError c m, r) \<Rightarrow> [RpcFailed c m])"
proof -
  let ?w = "write_names (SayHello1_Write stub) 0 names"
  have log: "snd ?w \<in> {[], [WriteFailed]}"
    by (simp add: names_def split: prod.split)
  obtain k where k: "k \<le> length names" "fst ?w = map (\<lambda>n. default_HelloRequest\<lparr>req_name := n\<rparr>) (take k names)"
    "snd ?w = [] \<longleftrightarrow> k = length names" "\<forall>j < k. SayHello1_Write stub j"
    "k < length names \<longrightarrow> \<not> SayHello1_Write stub k"
    using write_names_prefix [of names "SayHello1_Write stub" 0] by auto
  have three: "length names = 3" by (simp add: names_def)
  have "snd ?w = (if k < 3 then [WriteFailed] else [])" using log k(1,3) three by auto
  then have "client_SayHello1 stub = (if k < 3 then [WriteFailed] else []) @
       (case SayHello1_Finish stub (map (\<lambda>n. default_HelloRequest\<lparr>req_name := n\<rparr>) (take k names)) of
          (StatusOK, r) \<Rightarrow> [ResponseMessage ''1 response message: '' (resp_message r)]
        | (StatusError c m, r) \<Rightarrow> [RpcFailed c m])"
    unfolding client_SayHello1_def k(2) [symmetric]
    by (auto simp: log_result_def split: prod.split status.split)
  then show ?thesis using k three by auto
qed

lemma client_SayHello1_writes_witness:
  "client_SayHello1 local_stub =
     [ResponseMessage ''1 response message: ''
        (resp_message (snd (SayHello1 (map (\<lambda>n. default_HelloRequest\<lparr>req_name := n\<rparr>) names))))]"
  using client_SayHello1_writes [of local_stub]
  by (auto simp: local_stub_def SayHello1_def names_def)

end
