(* ===== verification/Async_Client.thy ===== *)
theory Async_Client
  imports Prelude
begin

text \<open>
  The class \<open>GreeterClient\<close> of \<open>src/grpcdemo/client_async2.cpp\<close>: \<open>run\<close>, \<open>sendRequest\<close>, \<open>readNextNotify\<close>, \<open>stop\<close> and the loop of its
  callback thread, each cut into the statements between which another thread can see or change the client. gRPC completes an operation that was
  started, once, with a flag \<open>ok\<close>, and \<open>Next\<close> returns false when the queue is shut down and drained. No operation may
  be started on a queue that is shut down: that is the error \<open>DeadQueue\<close>.
  A \<open>RequestContext\<close> is named by the number of its request; deleting or using one that is not
  allocated is the error \<open>BadFree\<close>. \<open>closed_at\<close> only observes: how many requests had been made when \<open>running_\<close> was first cleared.
\<close>

section \<open>The client\<close>

datatype op_tag = Null | Ctx nat

text \<open>
  The callback thread: before the test of its loop, in \<open>Next\<close>, about to read the next notification, out of the loop but before
  \<open>running_\<close> is cleared, or finished.
\<close>

datatype thread_pc = NotStarted | LoopHead | InNext | ReadingNext | Breaking | Finished

record client =
  running :: bool
  has_stream :: bool
  thread :: thread_pc
  contexts :: "nat list"
  sending :: "nat option"
  pending :: "op_tag list"
  callbacks :: "(nat \<times> int) list"
  requests :: nat
  cancelled :: bool
  cq_shutdown :: bool
  closed_at :: "nat option"

definition new_client :: client where
  "new_client = \<lparr>running = False, has_stream = False, thread = NotStarted, contexts = [], sending = None, pending = [],
     callbacks = [], requests = 0, cancelled = False, cq_shutdown = False, closed_at = None\<rparr>"

definition start_op :: "op_tag \<Rightarrow> client \<Rightarrow> client checked" where
  "start_op tag c = (if cq_shutdown c then Inl DeadQueue else Inr (c\<lparr>pending := pending c @ [tag]\<rparr>))"

definition clear_running :: "client \<Rightarrow> client" where
  "clear_running c = c\<lparr>running := False, closed_at := (if running c then Some (requests c) else closed_at c)\<rparr>"

text \<open>\<open>run\<close>: the flag, the stream, the thread.\<close>

definition run_flag :: "client \<Rightarrow> client" where
  "run_flag c = c\<lparr>running := True\<rparr>"

definition run_stream :: "client \<Rightarrow> client checked" where
  "run_stream c = start_op Null (c\<lparr>has_stream := True\<rparr>)"

definition run_thread :: "client \<Rightarrow> client" where
  "run_thread c = c\<lparr>thread := LoopHead\<rparr>"

definition readNextNotify :: "client \<Rightarrow> client checked" where
  "readNextNotify c = start_op Null c"

text \<open>\<open>sendRequest\<close> up to the new context, and its call of \<open>Write\<close>.\<close>

definition sendRequest :: "client \<Rightarrow> client checked" where
  "sendRequest c =
     (let i = requests c; c = c\<lparr>requests := i + 1\<rparr> in
      if \<not> running c then Inr (c\<lparr>callbacks := callbacks c @ [(i, - 2)]\<rparr>)
      else if \<not> has_stream c then Inl AssertFailed
      else Inr (c\<lparr>contexts := contexts c @ [i], sending := Some i\<rparr>))"

definition sendRequest_write :: "client \<Rightarrow> client checked" where
  "sendRequest_write c =
     (case sending c of
        None \<Rightarrow> Inr c
      | Some i \<Rightarrow> start_op (Ctx i) (c\<lparr>sending := None\<rparr>))"

section \<open>The callback thread\<close>

text \<open>The body of the loop, for what \<open>Next\<close> returned: \<open>None\<close> when it returned false.\<close>

definition loop_body :: "(op_tag \<times> bool) option \<Rightarrow> client \<Rightarrow> client checked" where
  "loop_body next c =
     (case next of
        None \<Rightarrow> Inr (c\<lparr>thread := Breaking\<rparr>)
      | Some (tag, ok) \<Rightarrow>
          if \<not> ok then Inr (c\<lparr>thread := Breaking\<rparr>)
          else case tag of
            Null \<Rightarrow> Inr (c\<lparr>thread := ReadingNext\<rparr>)
          | Ctx i \<Rightarrow>
              if i \<notin> set (contexts c) then Inl BadFree
              else Inr (c\<lparr>callbacks := callbacks c @ [(i, if ok then 0 else - 1)],
                          contexts := remove1 i (contexts c), thread := LoopHead\<rparr>))"

inductive thread_step :: "client \<Rightarrow> client checked \<Rightarrow> bool" where
  loop_test: "thread c = LoopHead \<Longrightarrow> thread_step c (Inr (c\<lparr>thread := (if running c then InNext else Breaking)\<rparr>))"
| next_tag: "thread c = InNext \<Longrightarrow> tag \<in> set (pending c) \<Longrightarrow>
     thread_step c (loop_body (Some (tag, ok)) (c\<lparr>pending := remove1 tag (pending c)\<rparr>))"
| next_drained: "thread c = InNext \<Longrightarrow> cq_shutdown c \<Longrightarrow> pending c = [] \<Longrightarrow> thread_step c (loop_body None c)"
| reads: "thread c = ReadingNext \<Longrightarrow> thread_step c (readNextNotify (c\<lparr>thread := LoopHead\<rparr>))"
| leaves: "thread c = Breaking \<Longrightarrow> thread_step c (Inr ((clear_running c)\<lparr>thread := Finished\<rparr>))"

section \<open>\<open>stop\<close>\<close>

datatype stop_pc = StopTest | StopClear | StopCancel | StopShutdown | StopJoin | StopReturned

text \<open>The next statement of a call of \<open>stop\<close>; \<open>None\<close> when it waits in \<open>join\<close> or has returned.\<close>

definition joinable_done :: "client \<Rightarrow> bool" where
  "joinable_done c \<longleftrightarrow> thread c \<in> {NotStarted, Finished}"

fun stop_next :: "stop_pc \<Rightarrow> client \<Rightarrow> (client \<times> stop_pc) option" where
  "stop_next StopTest c = Some (c, if running c then StopClear else StopReturned)"
| "stop_next StopClear c = Some (clear_running c, StopCancel)"
| "stop_next StopCancel c = Some (c\<lparr>cancelled := True\<rparr>, StopShutdown)"
| "stop_next StopShutdown c = Some (c\<lparr>cq_shutdown := True\<rparr>, StopJoin)"
| "stop_next StopJoin c = (if joinable_done c then Some (c, StopReturned) else None)"
| "stop_next StopReturned c = None"

inductive_cases thread_stepE: "thread_step c r"

section \<open>What every statement keeps\<close>

text \<open>
  Every request made is either answered, once, or its context is allocated; a context whose write is pending or about to be called is
  allocated; and what was asked for after \<open>running_\<close> was cleared was answered with \<open>-2\<close>.
\<close>

definition answered :: "client \<Rightarrow> nat set" where
  "answered c = fst ` set (callbacks c)"

definition refused_from :: "nat \<Rightarrow> client \<Rightarrow> bool" where
  "refused_from m c \<longleftrightarrow> (\<forall>i. m \<le> i \<and> i < requests c \<longrightarrow> (i, - 2) \<in> set (callbacks c))"

definition client_ok :: "client \<Rightarrow> bool" where
  "client_ok c \<longleftrightarrow> distinct (contexts c) \<and> distinct (map fst (callbacks c)) \<and>
     answered c \<inter> set (contexts c) = {} \<and> answered c \<union> set (contexts c) = {..<requests c} \<and>
     snd ` set (callbacks c) \<subseteq> {0, - 2} \<and>
     (\<forall>i. Ctx i \<in> set (pending c) \<longrightarrow> i \<in> set (contexts c) \<and> sending c \<noteq> Some i) \<and>
     (\<forall>i. count (mset (pending c)) (Ctx i) \<le> 1) \<and>
     (\<forall>i. sending c = Some i \<longrightarrow> i \<in> set (contexts c)) \<and>
     (running c \<longrightarrow> closed_at c = None) \<and> (\<forall>m. closed_at c = Some m \<longrightarrow> refused_from m c)"

text \<open>The errors that can occur: an operation started on a queue that is shut down.\<close>

definition client_result :: "client checked \<Rightarrow> bool" where
  "client_result r = (case r of Inl e \<Rightarrow> e = DeadQueue | Inr c \<Rightarrow> client_ok c)"

lemma client_result_simps [simp]:
  "client_result (Inr c) = client_ok c" "client_result (Inl e) = (e = DeadQueue)"
  by (simp_all add: client_result_def)

lemma client_ok_other:
  "client_ok (c\<lparr>thread := t\<rparr>) = client_ok c" "client_ok (c\<lparr>has_stream := b\<rparr>) = client_ok c"
  "client_ok (c\<lparr>cancelled := b\<rparr>) = client_ok c" "client_ok (c\<lparr>cq_shutdown := b\<rparr>) = client_ok c"
  by (simp_all add: client_ok_def answered_def refused_from_def)

lemma new_client_ok: "client_ok new_client"
  by (simp add: client_ok_def new_client_def answered_def)

lemma clear_running_ok: "client_ok c \<Longrightarrow> client_ok (clear_running c)"
  by (auto simp: client_ok_def clear_running_def answered_def refused_from_def)

lemma start_null_ok: "client_ok c \<Longrightarrow> client_result (start_op Null c)"
  by (simp add: start_op_def client_ok_def answered_def refused_from_def)

lemma run_ok:
  "client_ok c \<Longrightarrow> closed_at c = None \<Longrightarrow> client_ok (run_flag c)" "client_ok c \<Longrightarrow> client_result (run_stream c)"
  "client_ok c \<Longrightarrow> client_ok (run_thread c)"
  by (simp_all add: run_flag_def run_stream_def run_thread_def start_null_ok client_ok_other)
    (simp add: client_ok_def answered_def refused_from_def)

lemma send_ok:
  assumes ok: "client_ok c" and stream: "running c \<Longrightarrow> has_stream c" and "sending c = None"
  shows "\<exists>d. sendRequest c = Inr d \<and> client_ok d \<and> requests d = requests c + 1"
proof -
  have new: "requests c \<notin> set (contexts c)" "requests c \<notin> answered c" using ok by (auto simp: client_ok_def)
  then have "Ctx (requests c) \<notin> set (pending c)" using ok by (auto simp: client_ok_def)
  then show ?thesis
    using ok new stream assms(3)
    by (auto simp: sendRequest_def client_ok_def lessThan_Suc answered_def image_iff Let_def refused_from_def less_Suc_eq)
qed

lemma write_ok: "client_ok c \<Longrightarrow> client_result (sendRequest_write c)"
  by (cases "sending c")
    (auto simp: sendRequest_write_def start_op_def client_ok_def answered_def refused_from_def count_eq_zero_iff)

lemma release_pending_ok: "client_ok c \<Longrightarrow> client_ok (c\<lparr>pending := remove1 t (pending c)\<rparr>)"
  by (auto simp: client_ok_def answered_def refused_from_def dest: notin_set_remove1 intro: order_trans [OF diff_le_self])

lemma next_tag_ok:
  assumes "client_ok c" "tag \<in> set (pending c)"
  shows "client_result (loop_body (Some (tag, ok)) (c\<lparr>pending := remove1 tag (pending c)\<rparr>))"
proof (cases "ok \<and> tag \<noteq> Null")
  case False
  then show ?thesis
    using release_pending_ok [OF assms(1), of tag]
    by (auto simp: loop_body_def client_ok_other split: op_tag.split)
next
  case True
  then obtain i where i: "tag = Ctx i" by (cases tag) auto
  have live: "i \<in> set (contexts c)" "i \<notin> answered c" "sending c \<noteq> Some i"
    using assms i by (auto simp: client_ok_def)
  have "count (mset (pending c)) (Ctx i) \<le> 1" using assms(1) by (simp add: client_ok_def)
  then have gone: "Ctx i \<notin> set (remove1 (Ctx i) (pending c))"
    by (metis count_mset_0_iff diff_is_0_eq mset_remove1 count_diff count_single)
  from True i live gone release_pending_ok [OF assms(1), of tag] show ?thesis
    by (auto simp: loop_body_def client_ok_def answered_def image_iff refused_from_def dest: notin_set_remove1)
qed

lemma thread_step_ok: "thread_step c r \<Longrightarrow> client_ok c \<Longrightarrow> client_result r"
  by (erule thread_stepE)
    (simp_all add: next_tag_ok loop_body_def [of None] client_ok_other readNextNotify_def start_null_ok clear_running_ok)

lemma stop_next_ok: "stop_next st c = Some (d, st') \<Longrightarrow> client_ok c \<Longrightarrow> client_ok d"
  by (cases st) (auto simp: clear_running_ok client_ok_other split: if_splits)

end
