(* ===== verification/Callback_Main.thy ===== *)
theory Callback_Main
  imports Async_Client
begin

text \<open>
  The program around the callback client: \<open>main\<close> and \<open>signalHandler\<close> of \<open>src/grpcdemo/client_async2.cpp\<close>, with the callback thread of the client.
  Each of them is a program counter over the statements of \<open>Async_Client\<close>. Signals may come at any time, any number of them, and each is handled on
  the main thread, on the callback thread or on one that gRPC runs; a handler may be interrupted by another on its own thread, and the
  thread below a handler does nothing until that returns (\<open>handlers\<close> has the handlers under way, the last to come first).

  The destructor of \<open>base::ThreadGroup\<close>, which is not part of the repository, is taken to join its threads, so that \<open>client.reset()\<close> waits for the
  callback thread even when \<open>stop\<close> in the destructor of the client returns at once. After \<open>client.reset()\<close> the client is gone, and using it is
  the error \<open>DanglingPointer\<close>. The model begins when the handler has been installed. \<open>sent_at_signal\<close> only observes: how many requests had been
  made when a handler first cleared \<open>g_running\<close> after it was set.
\<close>

section \<open>The model\<close>

datatype main_pc =
    AtAssign | AtRun | AtStream | AtThread | AtSet
  | AtLoop nat | Sleeping nat | AtSend nat | AtWrite nat
  | AtReset stop_pc | AtJoin | AtReturn | Returned

datatype host = MainHost | CallbackHost | OtherHost nat

datatype handler_pc = ClearFlag | ReadClient | InStop stop_pc | HandlerReturns

record main_state =
  cl :: client
  g_running :: bool
  main_pc :: main_pc
  handlers :: "(host \<times> handler_pc) list"
  sent_at_signal :: "nat option"

definition main_start :: main_state where
  "main_start = \<lparr>cl = new_client, g_running = False, main_pc = AtAssign, handlers = [], sent_at_signal = None\<rparr>"

definition with_client :: "main_state \<Rightarrow> client checked \<Rightarrow> main_pc \<Rightarrow> main_state checked" where
  "with_client s r pc = bind_checked r (\<lambda>c. Inr (s\<lparr>cl := c, main_pc := pc\<rparr>))"

definition destroyed :: "main_state \<Rightarrow> bool" where
  "destroyed s \<longleftrightarrow> main_pc s \<in> {AtReturn, Returned}"

text \<open>One statement of \<open>main\<close>; \<open>None\<close> when it waits for the callback thread or has returned.\<close>

definition main_next :: "main_state \<Rightarrow> main_state checked option" where
  "main_next s =
     (case main_pc s of
        AtAssign \<Rightarrow> Some (Inr (s\<lparr>main_pc := AtRun\<rparr>))
      | AtRun \<Rightarrow> Some (if running (cl s) then Inr (s\<lparr>main_pc := AtSet\<rparr>) else with_client s (Inr (run_flag (cl s))) AtStream)
      | AtStream \<Rightarrow> Some (with_client s (run_stream (cl s)) AtThread)
      | AtThread \<Rightarrow> Some (with_client s (Inr (run_thread (cl s))) AtSet)
      | AtSet \<Rightarrow> Some (Inr (s\<lparr>g_running := True, main_pc := AtLoop 0\<rparr>))
      | AtLoop i \<Rightarrow> Some (Inr (s\<lparr>main_pc := (if i < 100 \<and> g_running s then Sleeping i else AtReset StopTest)\<rparr>))
      | Sleeping i \<Rightarrow> Some (Inr (s\<lparr>main_pc := (if g_running s then AtSend i else AtReset StopTest)\<rparr>))
      | AtSend i \<Rightarrow> Some (with_client s (sendRequest (cl s)) (if running (cl s) then AtWrite i else AtLoop (Suc i)))
      | AtWrite i \<Rightarrow> Some (with_client s (sendRequest_write (cl s)) (AtLoop (Suc i)))
      | AtReset st \<Rightarrow>
          if st = StopReturned then Some (Inr (s\<lparr>main_pc := AtJoin\<rparr>))
          else map_option (\<lambda>(c, st'). Inr (s\<lparr>cl := c, main_pc := AtReset st'\<rparr>)) (stop_next st (cl s))
      | AtJoin \<Rightarrow> if joinable_done (cl s) then Some (Inr (s\<lparr>main_pc := AtReturn\<rparr>)) else None
      | AtReturn \<Rightarrow> Some (Inr (s\<lparr>main_pc := Returned\<rparr>))
      | Returned \<Rightarrow> None)"

text \<open>One statement of the handler, and where it is then.\<close>

definition signalHandler :: "handler_pc \<Rightarrow> main_state \<Rightarrow> (main_state \<times> handler_pc) checked option" where
  "signalHandler pc s =
     (case pc of
        ClearFlag \<Rightarrow> Some (Inr (s\<lparr>g_running := False,
          sent_at_signal := (if g_running s \<and> sent_at_signal s = None then Some (requests (cl s)) else sent_at_signal s)\<rparr>, ReadClient))
      | ReadClient \<Rightarrow> Some (Inr (s, if main_pc s = AtAssign then HandlerReturns else InStop StopTest))
      | InStop st \<Rightarrow>
          if st = StopReturned then Some (Inr (s, HandlerReturns))
          else if destroyed s then Some (Inl DanglingPointer)
          else map_option (\<lambda>(c, st'). Inr (s\<lparr>cl := c\<rparr>, InStop st')) (stop_next st (cl s))
      | HandlerReturns \<Rightarrow> None)"

definition handled_on :: "host \<Rightarrow> main_state \<Rightarrow> bool" where
  "handled_on h s \<longleftrightarrow> h \<in> fst ` set (handlers s)"

text \<open>The steps of the program itself, and with them those in which a signal comes.\<close>

inductive own_step :: "main_state \<Rightarrow> main_state checked \<Rightarrow> bool" where
  own_main: "\<not> handled_on MainHost s \<Longrightarrow> main_next s = Some r \<Longrightarrow> own_step s r"
| own_callback: "\<not> handled_on CallbackHost s \<Longrightarrow> thread_step (cl s) r \<Longrightarrow> own_step s (with_client s r (main_pc s))"
| own_handler: "handlers s = us @ (h, pc) # vs \<Longrightarrow> h \<notin> fst ` set us \<Longrightarrow> main_pc s \<noteq> Returned \<Longrightarrow> signalHandler pc s = Some r \<Longrightarrow>
     own_step s (bind_checked r (\<lambda>(s', pc'). Inr (s'\<lparr>handlers := us @ (h, pc') # vs\<rparr>)))"
| own_return: "handlers s = us @ (h, HandlerReturns) # vs \<Longrightarrow> h \<notin> fst ` set us \<Longrightarrow> main_pc s \<noteq> Returned \<Longrightarrow>
     own_step s (Inr (s\<lparr>handlers := us @ vs\<rparr>))"

inductive program_step :: "main_state checked \<Rightarrow> main_state checked \<Rightarrow> bool" where
  own: "own_step s r \<Longrightarrow> program_step (Inr s) r"
| signal: "main_pc s \<noteq> Returned \<Longrightarrow> h \<noteq> CallbackHost \<or> \<not> joinable_done (cl s) \<Longrightarrow>
     program_step (Inr s) (Inr (s\<lparr>handlers := (h, ClearFlag) # handlers s\<rparr>))"

definition program_init :: "main_state checked \<Rightarrow> bool" where
  "program_init r \<longleftrightarrow> r = Inr main_start"

inductive_cases own_stepE: "own_step s r"
inductive_cases program_stepE: "program_step (Inr s) r"

section \<open>The invariant\<close>

text \<open>How many requests main has made, by where it is, and whether one of them has yet to be written.\<close>

fun made :: "main_pc \<Rightarrow> nat \<Rightarrow> bool" where
  "made (AtLoop i) n \<longleftrightarrow> n = i \<and> i \<le> 100"
| "made (Sleeping i) n \<longleftrightarrow> n = i \<and> i < 100"
| "made (AtSend i) n \<longleftrightarrow> n = i \<and> i < 100"
| "made (AtWrite i) n \<longleftrightarrow> n = Suc i \<and> i < 100"
| "made (AtReset st) n \<longleftrightarrow> n \<le> 100"
| "made AtJoin n \<longleftrightarrow> n \<le> 100"
| "made AtReturn n \<longleftrightarrow> n \<le> 100"
| "made Returned n \<longleftrightarrow> n \<le> 100"
| "made pc n \<longleftrightarrow> n = 0"

definition starting :: "main_pc \<Rightarrow> bool" where
  "starting pc \<longleftrightarrow> pc \<in> {AtAssign, AtRun, AtStream, AtThread}"

definition client_part :: "main_state \<Rightarrow> bool" where
  "client_part s \<longleftrightarrow> client_ok (cl s) \<and> made (main_pc s) (requests (cl s)) \<and>
     (main_pc s \<in> {AtAssign, AtRun} \<longrightarrow> cl s = new_client) \<and>
     (main_pc s \<notin> {AtAssign, AtRun, AtStream} \<longrightarrow> has_stream (cl s)) \<and>
     (sending (cl s) \<noteq> None \<longrightarrow> (\<exists>i. main_pc s = AtWrite i)) \<and>
     (starting (main_pc s) \<longleftrightarrow> thread (cl s) = NotStarted)"

definition signal_part :: "main_state \<Rightarrow> bool" where
  "signal_part s \<longleftrightarrow>
     (starting (main_pc s) \<or> main_pc s = AtSet \<longrightarrow> \<not> g_running s \<and> sent_at_signal s = None) \<and>
     (\<forall>n. sent_at_signal s = Some n \<longrightarrow> \<not> g_running s \<and> requests (cl s) \<le> n + 1 \<and>
        (\<forall>i. main_pc s = AtSend i \<longrightarrow> requests (cl s) = n))"

text \<open>Before \<open>run\<close> has set the flag, a handler finds nothing to stop.\<close>

definition handler_part :: "main_state \<Rightarrow> bool" where
  "handler_part s \<longleftrightarrow> (main_pc s \<in> {AtAssign, AtRun} \<longrightarrow>
     (\<forall>h st. (h, InStop st) \<in> set (handlers s) \<longrightarrow> st \<in> {StopTest, StopReturned}))"

definition main_inv :: "main_state checked \<Rightarrow> bool" where
  "main_inv r = (case r of Inl e \<Rightarrow> e \<in> {DeadQueue, DanglingPointer} | Inr s \<Rightarrow> client_part s \<and> signal_part s \<and> handler_part s)"

lemma main_inv_simps [simp]:
  "main_inv (Inr s) = (client_part s \<and> signal_part s \<and> handler_part s)" "main_inv (Inl e) = (e \<in> {DeadQueue, DanglingPointer})"
  by (simp_all add: main_inv_def)

lemma client_ok_new: "client_ok c \<Longrightarrow> c = new_client \<Longrightarrow> closed_at c = None"
  by (simp add: new_client_def)

lemma thread_step_keeps:
  "thread_step c (Inr d) \<Longrightarrow> requests d = requests c \<and> has_stream d = has_stream c \<and> sending d = sending c \<and>
     thread c \<noteq> NotStarted \<and> thread d \<noteq> NotStarted \<and> (\<not> running c \<longrightarrow> \<not> running d)"
  by (erule thread_stepE)
    (auto simp: loop_body_def readNextNotify_def start_op_def clear_running_def split: if_splits op_tag.splits)

lemma stop_next_keeps:
  "stop_next st c = Some (d, st') \<Longrightarrow> requests d = requests c \<and> has_stream d = has_stream c \<and> sending d = sending c \<and>
     thread d = thread c \<and> (\<not> running c \<longrightarrow> \<not> running d) \<and> (c = new_client \<and> st = StopTest \<longrightarrow> d = new_client \<and> st' = StopReturned)"
  by (cases st) (auto simp: clear_running_def new_client_def split: if_splits)

lemma start_op_keeps:
  "start_op t c = Inr d \<Longrightarrow> requests d = requests c \<and> has_stream d = has_stream c \<and> sending d = sending c \<and> thread d = thread c \<and>
     running d = running c"
  by (auto simp: start_op_def split: if_splits)

lemma main_inv_client:
  assumes "client_result r" "\<And>c. r = Inr c \<Longrightarrow> client_part (s\<lparr>cl := c, main_pc := pc\<rparr>) \<and> signal_part (s\<lparr>cl := c, main_pc := pc\<rparr>) \<and>
    handler_part (s\<lparr>cl := c, main_pc := pc\<rparr>)"
  shows "main_inv (with_client s r pc)"
  using assms by (cases r) (simp_all add: with_client_def)

lemmas parts = client_part_def signal_part_def handler_part_def starting_def

lemma main_inv_main:
  assumes "client_part s" "signal_part s" "handler_part s" "main_next s = Some r"
  shows "main_inv r"
proof (cases "main_pc s")
  case AtRun
  then have new: "cl s = new_client" using assms(1) by (simp add: client_part_def)
  then have "client_ok (run_flag (cl s))" using run_ok(1) [OF new_client_ok] by (simp add: new_client_def)
  then show ?thesis using assms AtRun new by (auto simp: main_next_def with_client_def parts run_flag_def new_client_def)
next
  case AtStream
  then have r: "r = with_client s (run_stream (cl s)) AtThread" using assms(4) by (simp add: main_next_def)
  show ?thesis unfolding r
  proof (rule main_inv_client)
    show "client_result (run_stream (cl s))" using run_ok(2) assms(1) by (simp add: client_part_def)
    fix c assume c: "run_stream (cl s) = Inr c"
    then have "client_ok c" using run_ok(2) [of "cl s"] assms(1) by (simp add: client_part_def)
    then show "client_part (s\<lparr>cl := c, main_pc := AtThread\<rparr>) \<and> signal_part (s\<lparr>cl := c, main_pc := AtThread\<rparr>) \<and>
        handler_part (s\<lparr>cl := c, main_pc := AtThread\<rparr>)"
      using assms AtStream start_op_keeps [OF c [unfolded run_stream_def]] by (simp add: parts)
  qed
next
  case (AtSend i)
  then have r: "r = with_client s (sendRequest (cl s)) (if running (cl s) then AtWrite i else AtLoop (Suc i))"
    using assms(4) by (simp add: main_next_def)
  have ok: "client_ok (cl s)" "has_stream (cl s)" "sending (cl s) = None" "requests (cl s) = i" "i < 100"
    using assms(1) AtSend by (auto simp: client_part_def)
  then obtain d where d: "sendRequest (cl s) = Inr d" "client_ok d" "requests d = Suc i" using send_ok [of "cl s"] by auto
  moreover have "has_stream d" "sending d = (if running (cl s) then Some i else None)" "thread d = thread (cl s)"
    using d(1) ok by (auto simp: sendRequest_def Let_def split: if_splits)
  ultimately show ?thesis
    using assms(1-3) AtSend ok by (auto simp: r with_client_def parts)
next
  case (AtWrite i)
  then have r: "r = with_client s (sendRequest_write (cl s)) (AtLoop (Suc i))" using assms(4) by (simp add: main_next_def)
  show ?thesis unfolding r
  proof (rule main_inv_client)
    show "client_result (sendRequest_write (cl s))" using write_ok assms(1) by (simp add: client_part_def)
    fix c assume c: "sendRequest_write (cl s) = Inr c"
    then have "client_ok c" using write_ok [of "cl s"] assms(1) by (simp add: client_part_def)
    moreover have "requests c = requests (cl s)" "has_stream c = has_stream (cl s)" "sending c = None" "thread c = thread (cl s)"
      using c start_op_keeps by (fastforce simp: sendRequest_write_def split: option.splits)+
    ultimately show "client_part (s\<lparr>cl := c, main_pc := AtLoop (Suc i)\<rparr>) \<and> signal_part (s\<lparr>cl := c, main_pc := AtLoop (Suc i)\<rparr>) \<and>
        handler_part (s\<lparr>cl := c, main_pc := AtLoop (Suc i)\<rparr>)"
      using assms(1-3) AtWrite by (simp add: parts)
  qed
next
  case (AtReset st)
  show ?thesis
  proof (cases "st = StopReturned")
    case True
    then show ?thesis using assms AtReset by (auto simp: main_next_def parts)
  next
    case False
    then obtain c st' where c: "stop_next st (cl s) = Some (c, st')" "r = Inr (s\<lparr>cl := c, main_pc := AtReset st'\<rparr>)"
      using assms(4) AtReset by (auto simp: main_next_def)
    have "client_ok c" using stop_next_ok [OF c(1)] assms(1) by (simp add: client_part_def)
    then show ?thesis using assms(1-3) AtReset stop_next_keeps [OF c(1)] by (simp add: c(2) parts)
  qed
next
  case AtThread
  then show ?thesis using assms run_ok(3) [of "cl s"] by (auto simp: main_next_def with_client_def parts run_thread_def)
qed (use assms in \<open>auto simp: main_next_def with_client_def parts split: if_splits\<close>)

lemma main_inv_thread:
  assumes "client_part s" "signal_part s" "handler_part s" "thread_step (cl s) r"
  shows "main_inv (with_client s r (main_pc s))"
proof (rule main_inv_client)
  have ok: "client_ok (cl s)" using assms(1) by (simp add: client_part_def)
  show "client_result r" by (rule thread_step_ok [OF assms(4) ok])
  fix c assume c: "r = Inr c"
  then have "client_ok c" using thread_step_ok [OF assms(4) ok] by simp
  then show "client_part (s\<lparr>cl := c, main_pc := main_pc s\<rparr>) \<and> signal_part (s\<lparr>cl := c, main_pc := main_pc s\<rparr>) \<and>
      handler_part (s\<lparr>cl := c, main_pc := main_pc s\<rparr>)"
    using assms(1-3) thread_step_keeps [OF assms(4) [unfolded c]] by (auto simp: parts)
qed

lemma part_handler [simp]:
  "client_part (s\<lparr>handlers := x\<rparr>) = client_part s" "signal_part (s\<lparr>handlers := x\<rparr>) = signal_part s"
  by (simp_all add: client_part_def signal_part_def)

lemma handler_part_keeps:
  assumes "handler_part s" "handlers s = us @ (h, pc) # vs"
    "\<And>st. pc' = InStop st \<Longrightarrow> main_pc s \<in> {AtAssign, AtRun} \<Longrightarrow> st \<in> {StopTest, StopReturned}" "main_pc s' = main_pc s"
  shows "handler_part (s'\<lparr>handlers := us @ (h, pc') # vs\<rparr>)"
  using assms by (simp add: handler_part_def)

lemma main_inv_handler:
  assumes "client_part s" "signal_part s" "handler_part s" "handlers s = us @ (h, pc) # vs" "signalHandler pc s = Some r"
  shows "main_inv (bind_checked r (\<lambda>(s', pc'). Inr (s'\<lparr>handlers := us @ (h, pc') # vs\<rparr>)))"
proof (cases pc)
  case (InStop st)
  show ?thesis
  proof (cases "st = StopReturned \<or> destroyed s")
    case True
    then have "r = Inr (s, HandlerReturns) \<or> r = Inl DanglingPointer"
      using assms(5) InStop by (auto simp: signalHandler_def split: if_splits)
    then show ?thesis using assms(1,2) handler_part_keeps [OF assms(3,4), of HandlerReturns s] by auto
  next
    case False
    then obtain c st' where c: "stop_next st (cl s) = Some (c, st')" "r = Inr (s\<lparr>cl := c\<rparr>, InStop st')"
      using assms(5) InStop by (auto simp: signalHandler_def)
    have ok: "client_ok c" using stop_next_ok [OF c(1)] assms(1) by (simp add: client_part_def)
    have keeps: "requests c = requests (cl s)" "has_stream c = has_stream (cl s)" "sending c = sending (cl s)"
      "thread c = thread (cl s)" using stop_next_keeps [OF c(1)] by simp_all
    have early: "c = new_client" "st' = StopReturned" if "main_pc s \<in> {AtAssign, AtRun}"
      using that assms(1,3,4) InStop False stop_next_keeps [OF c(1)] by (auto simp: client_part_def handler_part_def)
    have "client_part (s\<lparr>cl := c\<rparr>)" using assms(1) ok keeps early by (simp add: client_part_def)
    moreover have "signal_part (s\<lparr>cl := c\<rparr>)" using assms(2) keeps by (simp add: signal_part_def)
    moreover have "handler_part (s\<lparr>cl := c, handlers := us @ (h, InStop st') # vs\<rparr>)"
      using handler_part_keeps [OF assms(3,4), of "InStop st'" "s\<lparr>cl := c\<rparr>"] early(2) by simp
    ultimately show ?thesis by (simp add: c(2))
  qed
next
  case ClearFlag
  then have r: "r = Inr (s\<lparr>g_running := False,
      sent_at_signal := (if g_running s \<and> sent_at_signal s = None then Some (requests (cl s)) else sent_at_signal s)\<rparr>, ReadClient)"
    using assms(5) by (simp add: signalHandler_def)
  let ?t = "s\<lparr>g_running := False,
      sent_at_signal := (if g_running s \<and> sent_at_signal s = None then Some (requests (cl s)) else sent_at_signal s)\<rparr>"
  have "signal_part ?t" using assms(2) by (simp add: signal_part_def)
  moreover have "client_part ?t" using assms(1) by (simp add: client_part_def)
  moreover have "handler_part (?t\<lparr>handlers := us @ (h, ReadClient) # vs\<rparr>)" by (rule handler_part_keeps [OF assms(3,4)]) simp_all
  ultimately show ?thesis by (simp add: r)
next
  case ReadClient
  then have r: "r = Inr (s, if main_pc s = AtAssign then HandlerReturns else InStop StopTest)"
    using assms(5) by (simp add: signalHandler_def)
  then show ?thesis
    using assms(1,2) handler_part_keeps [OF assms(3,4), of HandlerReturns s] handler_part_keeps [OF assms(3,4), of "InStop StopTest" s]
    by simp
qed (use assms(5) in \<open>simp add: signalHandler_def\<close>)

interpretation callback_main: invariant_system program_init program_step main_inv
proof
  fix r assume "program_init r"
  then show "main_inv r" by (simp add: program_init_def main_start_def parts new_client_ok) (simp add: new_client_def)
next
  fix r r' assume inv: "main_inv r" and step: "program_step r r'"
  from step show "main_inv r'"
  proof cases
    case (own s)
    then have s: "client_part s" "signal_part s" "handler_part s" using inv by simp_all
    from own(2) show ?thesis
    proof cases
      case (own_return us h vs)
      then show ?thesis using s by (auto simp: handler_part_def)
    qed (use main_inv_main [OF s] main_inv_thread [OF s] main_inv_handler [OF s] in blast)+
  next
    case (signal s h)
    then show ?thesis using inv by (auto simp: parts)
  qed
qed

section \<open>How the program ends\<close>

text \<open>A call of \<open>stop\<close> that is past its test.\<close>

definition stop_under_way :: "main_state \<Rightarrow> stop_pc set \<Rightarrow> bool" where
  "stop_under_way s P \<longleftrightarrow> (\<exists>st \<in> P. (\<exists>h. (h, InStop st) \<in> set (handlers s)) \<or> main_pc s = AtReset st)"

text \<open>
  When \<open>running_\<close> has been cleared and the callback thread still goes round, the queue is shut down or about to be; whoever waits in \<open>join\<close> has shut
  it down.
\<close>

definition close_part :: "main_state \<Rightarrow> bool" where
  "close_part s \<longleftrightarrow>
     (main_pc s \<notin> {AtAssign, AtRun} \<and> \<not> running (cl s) \<and> thread (cl s) \<notin> {Breaking, Finished} \<longrightarrow>
        cq_shutdown (cl s) \<or> stop_under_way s {StopCancel, StopShutdown}) \<and>
     (stop_under_way s {StopJoin} \<longrightarrow> cq_shutdown (cl s)) \<and>
     (thread (cl s) = Finished \<longrightarrow> \<not> running (cl s))"

definition close_inv :: "main_state checked \<Rightarrow> bool" where
  "close_inv r = (case r of Inl e \<Rightarrow> True | Inr s \<Rightarrow> close_part s)"

lemma close_inv_simps [simp]: "close_inv (Inr s) = close_part s" "close_inv (Inl e) = True"
  by (simp_all add: close_inv_def)

lemma start_op_close:
  "start_op t c = Inr d \<Longrightarrow> running d = running c \<and> thread d = thread c \<and> cq_shutdown d = cq_shutdown c"
  by (auto simp: start_op_def split: if_splits)

lemma stream_close:
  "run_stream c = Inr d \<Longrightarrow> running d = running c \<and> thread d = thread c \<and> cq_shutdown d = cq_shutdown c"
  by (auto simp: run_stream_def start_op_def split: if_splits)

lemma send_close:
  "sendRequest c = Inr d \<Longrightarrow> running d = running c \<and> thread d = thread c \<and> cq_shutdown d = cq_shutdown c"
  "sendRequest_write c = Inr d \<Longrightarrow> running d = running c \<and> thread d = thread c \<and> cq_shutdown d = cq_shutdown c"
  by (auto simp: sendRequest_def sendRequest_write_def Let_def start_op_def split: if_splits option.splits)

lemma thread_close:
  "thread_step c (Inr d) \<Longrightarrow> cq_shutdown d = cq_shutdown c \<and> (running d = running c \<or> thread d = Finished \<and> \<not> running d) \<and>
     (thread c = Breaking \<longrightarrow> thread d = Finished) \<and> thread c \<noteq> Finished \<and> (thread d = Finished \<longrightarrow> \<not> running d)"
  by (erule thread_stepE)
    (auto simp: loop_body_def readNextNotify_def start_op_def clear_running_def split: if_splits op_tag.splits)

text \<open>The statements of \<open>stop\<close>, whoever calls it.\<close>

lemma stop_close:
  assumes "stop_next st c = Some (d, st')"
  shows "thread d = thread c" "running d \<Longrightarrow> running c" "cq_shutdown c \<Longrightarrow> cq_shutdown d"
    "st' = StopJoin \<Longrightarrow> cq_shutdown d" "st \<in> {StopCancel, StopShutdown} \<Longrightarrow> cq_shutdown d \<or> st' \<in> {StopCancel, StopShutdown}"
    "running c \<Longrightarrow> \<not> running d \<Longrightarrow> st' = StopCancel"
    "cq_shutdown d \<Longrightarrow> \<not> cq_shutdown c \<Longrightarrow> st = StopShutdown"
    "st' \<in> {StopClear, StopCancel, StopShutdown} \<Longrightarrow> running c \<or> st \<in> {StopClear, StopCancel, StopShutdown}"
  using assms by (cases st; auto simp: clear_running_def split: if_splits)+

lemma close_part_with:
  assumes "close_part s" "main_pc s = pc"
    "\<And>c. r = Inr c \<Longrightarrow> running c = running (cl s) \<and> thread c = thread (cl s) \<and> cq_shutdown c = cq_shutdown (cl s)"
    "pc \<notin> {AtAssign, AtRun}" "pc \<notin> range AtReset" "pc' \<notin> range AtReset"
  shows "close_inv (with_client s r pc')"
proof (cases r)
  case (Inr c)
  have "stop_under_way (s\<lparr>cl := c, main_pc := pc'\<rparr>) P = stop_under_way s P" for P
    using assms(2,5,6) by (auto simp: stop_under_way_def)
  moreover note assms(3) [OF Inr]
  ultimately have "close_part (s\<lparr>cl := c, main_pc := pc'\<rparr>)"
    using assms(1,2,4) unfolding close_part_def by simp
  then show ?thesis by (simp add: Inr with_client_def)
qed (simp add: with_client_def)

lemma close_part_main:
  assumes "client_part s" "close_part s" "main_next s = Some r"
  shows "close_inv r"
proof (cases "main_pc s")
  case AtRun
  then have "cl s = new_client" using assms(1) by (simp add: client_part_def)
  then obtain flags: "\<not> running (cl s)" "thread (cl s) = NotStarted" by (simp add: new_client_def)
  then have "r = Inr (s\<lparr>cl := run_flag (cl s), main_pc := AtStream\<rparr>)"
    using assms(3) AtRun by (simp add: main_next_def with_client_def)
  moreover have "running (run_flag (cl s))" "thread (run_flag (cl s)) = NotStarted" "cq_shutdown (run_flag (cl s)) = cq_shutdown (cl s)"
    using flags by (simp_all add: run_flag_def)
  ultimately show ?thesis using assms(2) AtRun by (auto simp: close_part_def stop_under_way_def)
next
  case AtStream
  then have r: "r = with_client s (run_stream (cl s)) AtThread" using assms(3) by (simp add: main_next_def)
  show ?thesis
    unfolding r using assms(2) AtStream stream_close
    by (rule close_part_with) (simp_all add: image_iff)
next
  case AtThread
  then show ?thesis
    using assms by (auto simp: main_next_def with_client_def close_part_def stop_under_way_def run_thread_def client_part_def starting_def)
next
  case (AtSend i)
  then have r: "r = with_client s (sendRequest (cl s)) (if running (cl s) then AtWrite i else AtLoop (Suc i))"
    using assms(3) by (simp add: main_next_def)
  show ?thesis unfolding r using assms(2) AtSend send_close(1) by (rule close_part_with) (simp_all add: image_iff)
next
  case (AtWrite i)
  then have r: "r = with_client s (sendRequest_write (cl s)) (AtLoop (Suc i))" using assms(3) by (simp add: main_next_def)
  show ?thesis unfolding r using assms(2) AtWrite send_close(2) by (rule close_part_with) (simp_all add: image_iff)
next
  case (AtReset st)
  show ?thesis
  proof (cases "st = StopReturned")
    case True
    then show ?thesis using assms(2,3) AtReset by (auto simp: main_next_def close_part_def stop_under_way_def)
  next
    case False
    then obtain c st' where c: "stop_next st (cl s) = Some (c, st')" "r = Inr (s\<lparr>cl := c, main_pc := AtReset st'\<rparr>)"
      using assms(3) AtReset by (auto simp: main_next_def)
    note stop = stop_close [OF c(1)]
    let ?t = "s\<lparr>cl := c, main_pc := AtReset st'\<rparr>"
    have way: "stop_under_way s P \<longleftrightarrow> st \<in> P \<or> (\<exists>u \<in> P. \<exists>h. (h, InStop u) \<in> set (handlers s))"
      "stop_under_way ?t P \<longleftrightarrow> st' \<in> P \<or> (\<exists>u \<in> P. \<exists>h. (h, InStop u) \<in> set (handlers s))" for P
      using AtReset by (auto simp: stop_under_way_def)
    have "cq_shutdown c \<or> stop_under_way ?t {StopCancel, StopShutdown}"
      if "\<not> running c" "thread c \<notin> {Breaking, Finished}"
      using that assms(2) AtReset stop(1,3,5,6) unfolding close_part_def way by (cases "running (cl s)") auto
    moreover have "stop_under_way ?t {StopJoin} \<Longrightarrow> cq_shutdown c"
      using assms(2) stop(3,4) unfolding close_part_def way by blast
    moreover have "thread c = Finished \<Longrightarrow> \<not> running c"
      using assms(2) stop(1,2) by (auto simp: close_part_def)
    ultimately show ?thesis by (simp add: c(2) close_part_def)
  qed
qed (use assms(1,2,3) in \<open>auto simp: main_next_def close_part_def stop_under_way_def client_part_def starting_def new_client_def split: if_splits\<close>)

definition other_stop :: "(host \<times> handler_pc) list \<Rightarrow> main_state \<Rightarrow> stop_pc set \<Rightarrow> bool" where
  "other_stop hs s P \<longleftrightarrow> (\<exists>u \<in> P. (\<exists>h. (h, InStop u) \<in> set hs) \<or> main_pc s = AtReset u)"

lemma stop_under_way_at:
  "stop_under_way (s\<lparr>cl := c, handlers := us @ (h, pc) # vs\<rparr>) P \<longleftrightarrow> (\<exists>st \<in> P. pc = InStop st) \<or> other_stop (us @ vs) s P"
  "handlers s = us @ (h, pc) # vs \<Longrightarrow> stop_under_way s P \<longleftrightarrow> (\<exists>st \<in> P. pc = InStop st) \<or> other_stop (us @ vs) s P"
  by (auto simp: stop_under_way_def other_stop_def)

lemma close_part_handler:
  assumes "client_part s" "close_part s" "handlers s = us @ (h, pc) # vs" "signalHandler pc s = Some r"
  shows "close_inv (bind_checked r (\<lambda>(s', pc'). Inr (s'\<lparr>handlers := us @ (h, pc') # vs\<rparr>)))"
proof (cases pc)
  case (InStop st)
  show ?thesis
  proof (cases "st = StopReturned \<or> destroyed s")
    case True
    then have "r = Inr (s, HandlerReturns) \<and> st = StopReturned \<or> r = Inl DanglingPointer"
      using assms(4) InStop by (auto simp: signalHandler_def split: if_splits)
    then show ?thesis using assms(2,3) InStop by (auto simp: close_part_def stop_under_way_def)
  next
    case False
    then obtain c st' where c: "stop_next st (cl s) = Some (c, st')" "r = Inr (s\<lparr>cl := c\<rparr>, InStop st')"
      using assms(4) InStop by (auto simp: signalHandler_def)
    note stop = stop_close [OF c(1)]
    let ?t = "s\<lparr>cl := c, handlers := us @ (h, InStop st') # vs\<rparr>"
    have way: "stop_under_way s P \<longleftrightarrow> st \<in> P \<or> other_stop (us @ vs) s P"
      "stop_under_way ?t P \<longleftrightarrow> st' \<in> P \<or> other_stop (us @ vs) s P" for P
      using stop_under_way_at(2) [OF assms(3)] InStop by (auto simp: stop_under_way_at(1))
    have "cq_shutdown c \<or> stop_under_way ?t {StopCancel, StopShutdown}"
      if "main_pc s \<notin> {AtAssign, AtRun}" "\<not> running c" "thread c \<notin> {Breaking, Finished}"
      using that assms(2) stop(1,3,5,6) unfolding close_part_def way by (cases "running (cl s)") auto
    moreover have "stop_under_way ?t {StopJoin} \<Longrightarrow> cq_shutdown c"
      using assms(2) stop(3,4) unfolding close_part_def way by blast
    moreover have "thread c = Finished \<Longrightarrow> \<not> running c"
      using assms(2) stop(1,2) by (auto simp: close_part_def)
    ultimately show ?thesis by (simp add: c(2) close_part_def)
  qed
qed (use assms(2-4) in \<open>auto simp: signalHandler_def close_part_def stop_under_way_def split: if_splits\<close>)

lemma close_part_thread:
  assumes "close_part s" "thread_step (cl s) r"
  shows "close_inv (with_client s r (main_pc s))"
  using assms thread_close [of "cl s"] by (cases r) (auto simp: with_client_def close_part_def stop_under_way_def)

interpretation callback_close: invariant_system program_init program_step "\<lambda>r. main_inv r \<and> close_inv r"
proof
  fix r assume "program_init r"
  then show "main_inv r \<and> close_inv r"
    using callback_main.inv_init by (simp add: program_init_def main_start_def new_client_def close_part_def stop_under_way_def)
next
  fix r r' assume inv: "main_inv r \<and> close_inv r" and step: "program_step r r'"
  from step have "close_inv r'"
  proof cases
    case (own s)
    then have s: "client_part s" "close_part s" using inv by simp_all
    from own(2) show ?thesis
    proof cases
      case (own_return us h vs)
      then show ?thesis using s(2) by (auto simp: close_part_def stop_under_way_def)
    qed (use close_part_main [OF s] close_part_thread [OF s(2)] close_part_handler [OF s] in blast)+
  next
    case (signal s h)
    then show ?thesis using inv by (simp add: close_part_def stop_under_way_def)
  qed
  then show "main_inv r' \<and> close_inv r'" using callback_main.inv_step step inv by blast
qed

text \<open>What is left to do once \<open>running_\<close> has been cleared.\<close>

fun stop_work :: "stop_pc \<Rightarrow> nat" where
  "stop_work StopTest = 6"
| "stop_work StopClear = 5"
| "stop_work StopCancel = 4"
| "stop_work StopShutdown = 3"
| "stop_work StopJoin = 2"
| "stop_work StopReturned = 1"

fun handler_work :: "handler_pc \<Rightarrow> nat" where
  "handler_work ClearFlag = 9"
| "handler_work ReadClient = 8"
| "handler_work (InStop st) = stop_work st + 1"
| "handler_work HandlerReturns = 1"

fun main_work :: "main_pc \<Rightarrow> nat" where
  "main_work (AtLoop i) = 4 * (100 - i) + 10"
| "main_work (Sleeping i) = 4 * (100 - i) + 9"
| "main_work (AtSend i) = 4 * (100 - i) + 8"
| "main_work (AtWrite i) = 4 * (100 - i) + 7"
| "main_work (AtReset st) = stop_work st + 2"
| "main_work AtJoin = 2"
| "main_work AtReturn = 1"
| "main_work Returned = 0"
| "main_work AtSet = 411"
| "main_work AtThread = 412"
| "main_work pc = 413"

fun thread_work :: "thread_pc \<Rightarrow> nat" where
  "thread_work NotStarted = 5"
| "thread_work InNext = 4"
| "thread_work ReadingNext = 3"
| "thread_work LoopHead = 2"
| "thread_work Breaking = 1"
| "thread_work Finished = 0"

definition program_work :: "main_state \<Rightarrow> nat" where
  "program_work s = main_work (main_pc s) + (\<Sum>(h, pc) \<leftarrow> handlers s. handler_work pc) + thread_work (thread (cl s))"

lemma stop_next_work:
  "stop_next st c = Some (d, st') \<Longrightarrow> stop_work st' < stop_work st \<and> thread d = thread c \<and> (closed_at c \<noteq> None \<longrightarrow> closed_at d \<noteq> None)"
  by (cases st) (auto simp: clear_running_def split: if_splits)

lemma thread_step_work:
  "thread_step c (Inr d) \<Longrightarrow> \<not> running c \<Longrightarrow> thread_work (thread d) < thread_work (thread c) \<and> closed_at d = closed_at c"
  by (erule thread_stepE)
    (auto simp: loop_body_def readNextNotify_def start_op_def clear_running_def split: if_splits op_tag.splits)

text \<open>A step of \<open>main\<close>, of the callback thread and of the handler leave less to do.\<close>

lemma main_step_work:
  assumes "client_part s" "\<not> running (cl s)" "closed_at (cl s) \<noteq> None" "main_next s = Some (Inr t)"
  shows "program_work t < program_work s \<and> closed_at (cl t) \<noteq> None"
proof (cases "main_pc s")
  case (AtReset st)
  then show ?thesis
    using assms(3,4) stop_next_work [of st "cl s"]
    by (cases "st = StopReturned") (auto simp: main_next_def program_work_def)
next
  case (AtSend i)
  then show ?thesis
    using assms by (auto simp: main_next_def with_client_def sendRequest_def Let_def program_work_def client_part_def)
next
  case (AtWrite i)
  then show ?thesis
    using assms
    by (auto simp: main_next_def with_client_def sendRequest_write_def start_op_def program_work_def client_part_def
      split: option.splits if_splits)
qed (use assms in \<open>auto simp: main_next_def with_client_def run_stream_def start_op_def run_thread_def program_work_def client_part_def
  starting_def new_client_def split: if_splits\<close>)

lemma handler_step_work:
  assumes "handlers s = us @ (h, pc) # vs" "closed_at (cl s) \<noteq> None" "signalHandler pc s = Some (Inr (s', pc'))"
  shows "program_work (s'\<lparr>handlers := us @ (h, pc') # vs\<rparr>) < program_work s \<and> closed_at (cl s') \<noteq> None"
proof (cases pc)
  case (InStop st)
  then show ?thesis
    using assms stop_next_work [of st "cl s"]
    by (cases "st = StopReturned") (auto simp: signalHandler_def program_work_def split: if_splits)
qed (use assms in \<open>auto simp: signalHandler_def program_work_def\<close>)

lemma own_step_work:
  assumes "client_part s" "closed_at (cl s) \<noteq> None" "own_step s (Inr t)"
  shows "program_work t < program_work s \<and> closed_at (cl t) \<noteq> None"
proof -
  have quiet: "\<not> running (cl s)" using assms(1,2) by (auto simp: client_part_def client_ok_def)
  from assms(3) show ?thesis
  proof cases
    case own_main
    then show ?thesis using main_step_work [OF assms(1) quiet assms(2)] by simp
  next
    case (own_callback r)
    then obtain d where "r = Inr d" "t = s\<lparr>cl := d, main_pc := main_pc s\<rparr>" by (cases r) (simp_all add: with_client_def)
    then show ?thesis
      using own_callback(3) assms(2) thread_step_work [OF _ quiet, of d] by (simp add: program_work_def)
  next
    case (own_handler us h pc vs r)
    then obtain s' pc' where "r = Inr (s', pc')" "t = s'\<lparr>handlers := us @ (h, pc') # vs\<rparr>"
      by (cases r) auto
    then show ?thesis using own_handler(2,5) assms(2) handler_step_work by simp
  next
    case (own_return us h vs)
    then show ?thesis using assms(2) by (simp add: program_work_def)
  qed
qed

text \<open>Nobody waits for what will not come, except a handler that joins the thread it runs on.\<close>

lemma thread_can_step:
  assumes "\<not> joinable_done c" "cq_shutdown c \<or> thread c \<noteq> InNext"
  shows "\<exists>r. thread_step c r"
proof (cases "thread c = InNext \<and> pending c \<noteq> []")
  case True
  then have "hd (pending c) \<in> set (pending c)" by simp
  then show ?thesis using True next_tag by blast
next
  case False
  with assms show ?thesis by (cases "thread c") (auto simp: joinable_done_def intro: thread_step.intros)
qed

lemma main_can_step:
  assumes "main_next s = None"
  shows "main_pc s = Returned \<or> \<not> joinable_done (cl s) \<and> main_pc s \<in> {AtJoin, AtReset StopJoin}"
proof (cases "main_pc s")
  case (AtReset st)
  with assms show ?thesis by (cases st) (auto simp: main_next_def split: if_splits)
qed (use assms in \<open>auto simp: main_next_def split: if_splits\<close>)

lemma handler_can_step:
  assumes "handlers s = us @ (h, pc) # vs" "h \<notin> fst ` set us" "main_pc s \<noteq> Returned" "\<nexists>r. own_step s r"
  shows "pc = InStop StopJoin \<and> \<not> joinable_done (cl s)"
proof (cases "signalHandler pc s")
  case None
  have "pc \<noteq> HandlerReturns" using assms own_return by blast
  then obtain st where st: "pc = InStop st" using None by (cases pc) (auto simp: signalHandler_def)
  then have "stop_next st (cl s) = None" "st \<noteq> StopReturned"
    using None by (auto simp: signalHandler_def split: if_splits)
  then show ?thesis using st by (cases st) (auto split: if_splits)
next
  case (Some r)
  then show ?thesis using assms own_handler by blast
qed

lemma topmost_handler:
  "handled_on h s \<Longrightarrow> \<exists>us pc vs. handlers s = us @ (h, pc) # vs \<and> h \<notin> fst ` set us"
  using split_list_first_prop [of "handlers s" "\<lambda>x. fst x = h"] by (fastforce simp: handled_on_def)

lemma own_step_exists:
  assumes "close_part s" "client_part s" "closed_at (cl s) \<noteq> None" "main_pc s \<noteq> Returned"
    "(CallbackHost, InStop StopJoin) \<notin> set (handlers s)"
  shows "\<exists>r. own_step s r"
proof (rule ccontr)
  assume stuck: "\<nexists>r. own_step s r"
  have quiet: "\<not> running (cl s)" using assms(2,3) by (auto simp: client_part_def client_ok_def)
  have free: "\<not> handled_on CallbackHost s"
    using topmost_handler [of CallbackHost s] handler_can_step [OF _ _ assms(4) stuck] assms(5) by fastforce
  have "\<not> joinable_done (cl s) \<and> cq_shutdown (cl s)"
  proof (cases "handlers s")
    case Nil
    then have "main_next s = None" using stuck own_main [of s] by (cases "main_next s") (auto simp: handled_on_def)
    then have main: "\<not> joinable_done (cl s)" "main_pc s \<in> {AtJoin, AtReset StopJoin}" using main_can_step assms(4) by blast+
    have "thread (cl s) \<noteq> Breaking" using stuck free leaves own_callback by blast
    then have "cq_shutdown (cl s)"
      using main assms(1) quiet Nil by (auto simp: close_part_def stop_under_way_def joinable_done_def)
    then show ?thesis using main by simp
  next
    case (Cons x vs)
    obtain h pc where x: "x = (h, pc)" by (cases x)
    then have h: "pc = InStop StopJoin" "\<not> joinable_done (cl s)"
      using handler_can_step [of s "[]" h pc vs] assms(4) stuck Cons by auto
    moreover have "(h, InStop StopJoin) \<in> set (handlers s)" using Cons x h by simp
    then have "stop_under_way s {StopJoin}" unfolding stop_under_way_def by blast
    ultimately show ?thesis using assms(1) by (simp add: close_part_def)
  qed
  then show False using thread_can_step [of "cl s"] own_callback stuck free by blast
qed

section \<open>Runs of the program\<close>

text \<open>A schedule says who moves next and what \<open>Next\<close> returns; what it plays is reachable.\<close>

datatype move = MainMove | NextReturns op_tag bool | ThreadMove | HandlerMove | SignalOn host

definition thread_move :: "client \<Rightarrow> client checked option" where
  "thread_move c =
     (case thread c of
        LoopHead \<Rightarrow> Some (Inr (c\<lparr>thread := (if running c then InNext else Breaking)\<rparr>))
      | InNext \<Rightarrow> if cq_shutdown c \<and> pending c = [] then Some (loop_body None c) else None
      | ReadingNext \<Rightarrow> Some (readNextNotify (c\<lparr>thread := LoopHead\<rparr>))
      | Breaking \<Rightarrow> Some (Inr ((clear_running c)\<lparr>thread := Finished\<rparr>))
      | _ \<Rightarrow> None)"

text \<open>The handler that came last moves, on whichever thread.\<close>

fun moved :: "move \<Rightarrow> main_state \<Rightarrow> main_state checked option" where
  "moved MainMove s = (if MainHost \<in> fst ` set (handlers s) then None else main_next s)"
| "moved (NextReturns tag ok) s =
     (if CallbackHost \<notin> fst ` set (handlers s) \<and> thread (cl s) = InNext \<and> tag \<in> set (pending (cl s))
      then Some (with_client s (loop_body (Some (tag, ok)) ((cl s)\<lparr>pending := remove1 tag (pending (cl s))\<rparr>)) (main_pc s)) else None)"
| "moved ThreadMove s =
     (if CallbackHost \<in> fst ` set (handlers s) then None else map_option (\<lambda>r. with_client s r (main_pc s)) (thread_move (cl s)))"
| "moved HandlerMove s =
     (case handlers s of
        [] \<Rightarrow> None
      | (h, pc) # vs \<Rightarrow>
          if main_pc s = Returned then None
          else if pc = HandlerReturns then Some (Inr (s\<lparr>handlers := vs\<rparr>))
          else map_option (\<lambda>r. bind_checked r (\<lambda>(s', pc'). Inr (s'\<lparr>handlers := (h, pc') # vs\<rparr>))) (signalHandler pc s))"
| "moved (SignalOn h) s =
     (if main_pc s \<noteq> Returned \<and> (h \<noteq> CallbackHost \<or> \<not> joinable_done (cl s))
      then Some (Inr (s\<lparr>handlers := (h, ClearFlag) # handlers s\<rparr>)) else None)"

fun play :: "move list \<Rightarrow> main_state checked \<Rightarrow> main_state checked option" where
  "play [] r = Some r"
| "play (m # ms) (Inl e) = None"
| "play (m # ms) (Inr s) = (case moved m s of None \<Rightarrow> None | Some r \<Rightarrow> play ms r)"

lemma thread_move_step: "thread_move c = Some r \<Longrightarrow> thread_step c r"
  using loop_test [of c]
  by (cases "thread c") (auto simp: thread_move_def split: if_splits intro: thread_step.intros)

lemma move_step:
  assumes "moved m s = Some r"
  shows "program_step (Inr s) r"
proof (cases m)
  case MainMove
  with assms show ?thesis using own_main [of s r] by (auto simp: handled_on_def split: if_splits intro: own)
next
  case (NextReturns tag ok)
  with assms show ?thesis by (auto simp: handled_on_def split: if_splits intro!: own own_callback next_tag)
next
  case ThreadMove
  with assms show ?thesis
    by (auto simp: handled_on_def split: if_splits intro!: own own_callback dest: thread_move_step)
next
  case HandlerMove
  with assms show ?thesis
    using own_handler [of s "[]"] own_return [of s "[]"]
    by (auto split: list.splits prod.splits if_splits intro!: own)
next
  case (SignalOn h)
  with assms show ?thesis by (auto split: if_splits intro: signal)
qed

lemma play_reachable:
  "reachable I program_step r \<Longrightarrow> play ms r = Some r' \<Longrightarrow> reachable I program_step r'"
proof (induction ms r arbitrary: r' rule: play.induct)
  case (3 m ms s)
  from 3(3) obtain q where q: "moved m s = Some q" "play ms q = Some r'" by (auto split: option.splits)
  then show ?case using 3(1) [OF q(1) _ q(2)] reachable_step [OF 3(2) move_step [OF q(1)]] by simp
qed simp_all

lemma played:
  "play ms (Inr main_start) = Some r \<Longrightarrow> reachable program_init program_step r"
  using play_reachable [OF reachable_init, of program_init "Inr main_start"] by (simp add: program_init_def)

lemmas play_simps = main_start_def new_client_def main_next_def with_client_def run_flag_def run_stream_def run_thread_def start_op_def
  thread_move_def loop_body_def readNextNotify_def clear_running_def signalHandler_def destroyed_def joinable_done_def
  sendRequest_def sendRequest_write_def

text \<open>What happens from a state of the program on.\<close>

definition afterwards :: "main_state \<Rightarrow> main_state \<Rightarrow> bool" where
  "afterwards s t \<longleftrightarrow> reachable (\<lambda>r. r = Inr s) program_step (Inr t)"

lemma reachable_afterwards:
  assumes "reachable program_init program_step (Inr s)" "reachable (\<lambda>r. r = Inr s) program_step r"
  shows "reachable program_init program_step r"
  using assms(2) by induction (use assms(1) in \<open>auto intro: reachable_step\<close>)

lemma afterwards_keeps:
  assumes "reachable program_init program_step (Inr s)" "afterwards s u" "P s"
    and step: "\<And>t t'. client_part t \<Longrightarrow> close_part t \<Longrightarrow> P t \<Longrightarrow> program_step (Inr t) (Inr t') \<Longrightarrow> P t'"
  shows "P u"
proof -
  have "\<forall>t. r = Inr t \<longrightarrow> P t" if "reachable (\<lambda>r. r = Inr s) program_step r" for r
    using that
  proof induction
    case (reachable_init r)
    then show ?case using assms(3) by simp
  next
    case (reachable_step r r')
    from reachable_step.hyps(2) obtain t where t: "r = Inr t" by cases auto
    then have "client_part t" "close_part t"
      using callback_close.reachable_inv [OF reachable_afterwards [OF assms(1)], of "Inr t"] reachable_step.hyps(1) by simp_all
    then show ?case using step reachable_step t by blast
  qed
  then show ?thesis using assms(2) by (simp add: afterwards_def)
qed

text \<open>A callback thread that has left its loop calls no callback any more; a client whose flag is cleared is not stopped any more.\<close>

definition lost :: "nat set \<Rightarrow> main_state \<Rightarrow> bool" where
  "lost C s \<longleftrightarrow> thread (cl s) \<in> {Breaking, Finished} \<and> C \<subseteq> set (contexts (cl s))"

definition never_shut :: "main_state \<Rightarrow> bool" where
  "never_shut s \<longleftrightarrow> thread (cl s) = Finished \<and> \<not> cq_shutdown (cl s) \<and> \<not> stop_under_way s {StopClear, StopCancel, StopShutdown}"

lemma main_next_lost:
  assumes "client_part s" "thread (cl s) \<noteq> NotStarted" "main_next s = Some (Inr t)"
  shows "set (contexts (cl s)) \<subseteq> set (contexts (cl t)) \<and> thread (cl t) = thread (cl s)"
proof (cases "main_pc s")
  case (AtReset st)
  then show ?thesis
    using assms(3) by (cases st) (auto simp: main_next_def clear_running_def split: if_splits)
qed (use assms in \<open>auto simp: main_next_def with_client_def client_part_def starting_def sendRequest_def sendRequest_write_def Let_def
  start_op_def new_client_def split: if_splits option.splits\<close>)

lemma stop_next_contexts: "stop_next st c = Some (d, st') \<Longrightarrow> contexts d = contexts c \<and> thread d = thread c"
  by (cases st) (auto simp: clear_running_def split: if_splits)

lemma handler_lost:
  "signalHandler pc s = Some (Inr (s', pc')) \<Longrightarrow> contexts (cl s') = contexts (cl s) \<and> thread (cl s') = thread (cl s)"
  by (cases pc) (auto simp: signalHandler_def dest: stop_next_contexts split: if_splits)

lemma own_step_lost:
  assumes "client_part s" "lost C s" "own_step s (Inr t)"
  shows "lost C t"
  using assms(3)
proof cases
  case own_main
  have "thread (cl s) \<noteq> NotStarted" using assms(2) by (auto simp: lost_def)
  with own_main have "set (contexts (cl s)) \<subseteq> set (contexts (cl t))" "thread (cl t) = thread (cl s)"
    using main_next_lost [OF assms(1)] by simp_all
  then show ?thesis using assms(2) unfolding lost_def by (metis order_trans)
next
  case (own_callback r)
  then obtain d where d: "r = Inr d" "t = s\<lparr>cl := d, main_pc := main_pc s\<rparr>" by (cases r) (simp_all add: with_client_def)
  have "thread_step (cl s) (Inr d)" using own_callback d by simp
  then have "contexts d = contexts (cl s) \<and> thread d = Finished"
    using assms(2) by cases (auto simp: lost_def clear_running_def)
  then show ?thesis using assms(2) d by (simp add: lost_def)
next
  case (own_handler us h pc vs r)
  then obtain s' pc' where "r = Inr (s', pc')" "t = s'\<lparr>handlers := us @ (h, pc') # vs\<rparr>" by (cases r) auto
  then show ?thesis using own_handler handler_lost assms(2) by (simp add: lost_def)
qed (use assms(2) in \<open>simp add: lost_def\<close>)

lemma stop_next_never_shut:
  "stop_next st c = Some (d, st') \<Longrightarrow> \<not> running c \<Longrightarrow> st \<notin> {StopClear, StopCancel, StopShutdown} \<Longrightarrow>
     d = c \<and> st' = StopReturned"
  by (cases st) (auto split: if_splits)

lemma main_next_never_shut:
  assumes "client_part s" "\<not> running (cl s)" "never_shut s" "main_next s = Some (Inr t)"
  shows "never_shut t"
proof (cases "main_pc s")
  case (AtReset st)
  show ?thesis
  proof (cases "st = StopReturned")
    case False
    then obtain c st' where c: "stop_next st (cl s) = Some (c, st')" "t = s\<lparr>cl := c, main_pc := AtReset st'\<rparr>"
      using assms(4) AtReset by (auto simp: main_next_def)
    moreover have "st \<notin> {StopClear, StopCancel, StopShutdown}"
      using assms(3) AtReset by (auto simp: never_shut_def stop_under_way_def)
    ultimately have "t = s\<lparr>main_pc := AtReset StopReturned\<rparr>" using stop_next_never_shut [OF c(1) assms(2)] by auto
    then show ?thesis using assms(3) by (auto simp: never_shut_def stop_under_way_def)
  qed (use assms(3,4) AtReset in \<open>auto simp: main_next_def never_shut_def stop_under_way_def\<close>)
qed (use assms in \<open>auto simp: main_next_def with_client_def client_part_def starting_def sendRequest_def sendRequest_write_def Let_def
  start_op_def new_client_def never_shut_def stop_under_way_def split: if_splits option.splits\<close>)

lemma handler_never_shut:
  assumes "\<not> running (cl s)" "never_shut s" "handlers s = us @ (h, pc) # vs" "signalHandler pc s = Some (Inr (s', pc'))"
  shows "never_shut (s'\<lparr>handlers := us @ (h, pc') # vs\<rparr>)"
proof (cases pc)
  case (InStop st)
  then have st: "st \<notin> {StopClear, StopCancel, StopShutdown}" using assms(2,3) by (auto simp: never_shut_def stop_under_way_def)
  have "s' = s \<and> pc' \<in> {HandlerReturns, InStop StopReturned}"
    using assms(1,4) InStop st stop_next_never_shut [of st "cl s"] by (auto simp: signalHandler_def split: if_splits)
  then show ?thesis using assms(2,3) by (auto simp: never_shut_def stop_under_way_def)
qed (use assms in \<open>auto simp: signalHandler_def never_shut_def stop_under_way_def split: if_splits\<close>)

lemma own_step_never_shut:
  assumes "client_part s" "close_part s" "never_shut s" "own_step s (Inr t)"
  shows "never_shut t"
proof -
  have quiet: "\<not> running (cl s)" using assms(2,3) by (simp add: close_part_def never_shut_def)
  from assms(4) show ?thesis
  proof cases
    case own_main
    then show ?thesis using main_next_never_shut [OF assms(1) quiet assms(3)] by simp
  next
    case (own_callback r)
    from own_callback(3) show ?thesis using assms(3) by cases (simp_all add: never_shut_def)
  next
    case (own_handler us h pc vs r)
    then obtain s' pc' where "r = Inr (s', pc')" "t = s'\<lparr>handlers := us @ (h, pc') # vs\<rparr>" by (cases r) auto
    then show ?thesis using own_handler handler_never_shut [OF quiet assms(3)] by simp
  qed (use assms(3) in \<open>auto simp: never_shut_def stop_under_way_def\<close>)
qed

lemma program_step_lost:
  assumes "client_part s" "lost C s" "program_step (Inr s) (Inr t)"
  shows "lost C t"
  using assms(3)
proof cases
  case own
  then show ?thesis by (rule own_step_lost [OF assms(1,2)])
qed (use assms(2) in \<open>auto simp: lost_def\<close>)

lemma program_step_never_shut:
  assumes "client_part s" "close_part s" "never_shut s" "program_step (Inr s) (Inr t)"
  shows "never_shut t"
  using assms(4)
proof cases
  case own
  then show ?thesis by (rule own_step_never_shut [OF assms(1-3)])
qed (use assms(3) in \<open>auto simp: never_shut_def stop_under_way_def\<close>)

text \<open>A handler on the callback thread finds that thread alive, and \<open>main\<close> destroys the client only when it is not.\<close>

definition host_part :: "main_state \<Rightarrow> bool" where
  "host_part s \<longleftrightarrow> (handled_on CallbackHost s \<longrightarrow> \<not> joinable_done (cl s)) \<and> (destroyed s \<longrightarrow> thread (cl s) = Finished)"

definition host_inv :: "main_state checked \<Rightarrow> bool" where
  "host_inv r = (case r of Inl e \<Rightarrow> True | Inr s \<Rightarrow> host_part s)"

lemma host_inv_simps [simp]: "host_inv (Inr s) = host_part s" "host_inv (Inl e) = True"
  by (simp_all add: host_inv_def)

lemma main_next_host:
  assumes "main_next s = Some (Inr t)"
  shows "handlers t = handlers s" "\<not> joinable_done (cl s) \<Longrightarrow> \<not> joinable_done (cl t)"
    "thread (cl s) = Finished \<Longrightarrow> main_pc s \<noteq> AtThread \<Longrightarrow> thread (cl t) = Finished"
    "destroyed t \<Longrightarrow> destroyed s \<or> main_pc s = AtJoin \<and> joinable_done (cl s) \<and> cl t = cl s"
proof -
  have "handlers t = handlers s \<and> (\<not> joinable_done (cl s) \<longrightarrow> \<not> joinable_done (cl t)) \<and>
      (thread (cl s) = Finished \<and> main_pc s \<noteq> AtThread \<longrightarrow> thread (cl t) = Finished) \<and>
      (destroyed t \<longrightarrow> destroyed s \<or> main_pc s = AtJoin \<and> joinable_done (cl s) \<and> cl t = cl s)"
  proof (cases "main_pc s")
    case (AtReset st)
    then show ?thesis
      using assms stop_next_contexts [of st "cl s"]
      by (auto simp: main_next_def joinable_done_def destroyed_def split: if_splits)
  qed (use assms in \<open>auto simp: main_next_def with_client_def joinable_done_def destroyed_def run_flag_def run_stream_def run_thread_def
    sendRequest_def sendRequest_write_def Let_def start_op_def split: if_splits option.splits\<close>)
  then show "handlers t = handlers s" "\<not> joinable_done (cl s) \<Longrightarrow> \<not> joinable_done (cl t)"
    "thread (cl s) = Finished \<Longrightarrow> main_pc s \<noteq> AtThread \<Longrightarrow> thread (cl t) = Finished"
    "destroyed t \<Longrightarrow> destroyed s \<or> main_pc s = AtJoin \<and> joinable_done (cl s) \<and> cl t = cl s" by blast+
qed

lemma handler_keeps_main: "signalHandler pc s = Some (Inr (s', pc')) \<Longrightarrow> main_pc s' = main_pc s \<and> handlers s' = handlers s"
  by (cases pc) (auto simp: signalHandler_def split: if_splits)

lemma own_step_host:
  assumes "client_part s" "host_part s" "own_step s (Inr t)"
  shows "host_part t"
  using assms(3)
proof cases
  case own_main
  note m = main_next_host [OF own_main(2)]
  have "thread (cl t) = Finished" if "destroyed t"
  proof -
    from m(4) [OF that] consider "destroyed s" | "main_pc s = AtJoin" "joinable_done (cl s)" "cl t = cl s" by blast
    then show ?thesis
    proof cases
      case 1
      then show ?thesis using assms(2) m(3) by (auto simp: host_part_def destroyed_def)
    next
      case 2
      then show ?thesis using assms(1) by (auto simp: client_part_def starting_def joinable_done_def)
    qed
  qed
  then show ?thesis using assms(2) m(1,2) by (auto simp: host_part_def handled_on_def)
next
  case (own_callback r)
  then obtain d where d: "r = Inr d" "t = s\<lparr>cl := d, main_pc := main_pc s\<rparr>" by (cases r) (simp_all add: with_client_def)
  have "thread (cl s) \<noteq> Finished" using thread_close own_callback(3) d(1) by blast
  then show ?thesis using assms(2) own_callback(2) d by (auto simp: host_part_def handled_on_def destroyed_def)
next
  case (own_handler us h pc vs r)
  then obtain s' pc' where t: "r = Inr (s', pc')" "t = s'\<lparr>handlers := us @ (h, pc') # vs\<rparr>" by (cases r) auto
  have "main_pc s' = main_pc s" "thread (cl s') = thread (cl s)"
    using own_handler(5) t(1) handler_keeps_main handler_lost by blast+
  then show ?thesis
    using assms(2) own_handler(2) t(2) by (simp add: host_part_def handled_on_def destroyed_def joinable_done_def)
next
  case (own_return us h vs)
  then show ?thesis using assms(2) by (simp add: host_part_def handled_on_def destroyed_def)
qed

interpretation callback_host: invariant_system program_init program_step "\<lambda>r. main_inv r \<and> host_inv r"
proof
  fix r assume "program_init r"
  then show "main_inv r \<and> host_inv r"
    using callback_main.inv_init by (simp add: program_init_def main_start_def host_part_def handled_on_def destroyed_def)
next
  fix r r' assume inv: "main_inv r \<and> host_inv r" and step: "program_step r r'"
  from step have "host_inv r'"
  proof cases
    case (own s)
    then show ?thesis using own_step_host inv by (cases r') auto
  next
    case (signal s h)
    then show ?thesis using inv by (auto simp: host_part_def handled_on_def destroyed_def)
  qed
  then show "main_inv r' \<and> host_inv r'" using callback_main.inv_step step inv by blast
qed

definition joins_itself :: "main_state \<Rightarrow> bool" where
  "joins_itself s \<longleftrightarrow> (CallbackHost, InStop StopJoin) \<in> set (handlers s) \<and> \<not> joinable_done (cl s) \<and> \<not> destroyed s"

lemma program_step_joins_itself:
  assumes "joins_itself s" "program_step (Inr s) (Inr t)"
  shows "joins_itself t"
  using assms(2)
proof cases
  case own
  then show ?thesis
  proof cases
    case own_main
    then show ?thesis using assms(1) main_next_host [OF own_main(2)] by (auto simp: joins_itself_def)
  next
    case (own_handler us h pc vs r)
    then obtain s' pc' where t: "r = Inr (s', pc')" "t = s'\<lparr>handlers := us @ (h, pc') # vs\<rparr>" by (cases r) auto
    have "main_pc s' = main_pc s" "thread (cl s') = thread (cl s)"
      using own_handler(5) t(1) handler_keeps_main handler_lost by blast+
    moreover have "(h, pc) \<noteq> (CallbackHost, InStop StopJoin)"
      using own_handler(5) t(1) assms(1) by (auto simp: joins_itself_def signalHandler_def)
    ultimately show ?thesis
      using assms(1) own_handler(2) t(2) by (auto simp: joins_itself_def joinable_done_def destroyed_def)
  next
    case (own_callback r)
    then show ?thesis using assms(1) unfolding joins_itself_def handled_on_def by force
  qed (use assms(1) in \<open>auto simp: joins_itself_def destroyed_def\<close>)
qed (use assms(1) in \<open>auto simp: joins_itself_def destroyed_def\<close>)

text \<open>\<open>main\<close> goes on into its first sleep, and to its first write; a signal comes and its handler goes into the \<open>join\<close> of \<open>stop\<close>.\<close>

definition asleep :: main_state where
  "asleep = \<lparr>cl = new_client\<lparr>running := True, has_stream := True, thread := LoopHead, pending := [Null]\<rparr>,
     g_running = True, main_pc = Sleeping 0, handlers = [], sent_at_signal = None\<rparr>"

definition writing :: main_state where
  "writing = asleep\<lparr>cl := (cl asleep)\<lparr>contexts := [0], sending := Some 0, requests := 1\<rparr>, main_pc := AtWrite 0\<rparr>"

definition into_join :: "host \<Rightarrow> move list" where
  "into_join h = SignalOn h # replicate 6 HandlerMove"

definition joining :: "host \<Rightarrow> main_state \<Rightarrow> main_state" where
  "joining h s = s\<lparr>cl := (cl s)\<lparr>running := False, cancelled := True, cq_shutdown := True, closed_at := Some (requests (cl s))\<rparr>,
     g_running := False, handlers := (h, InStop StopJoin) # handlers s, sent_at_signal := Some (requests (cl s))\<rparr>"

lemma asleep_played: "play (replicate 6 MainMove) (Inr main_start) = Some (Inr asleep)"
  by (simp add: numeral_eq_Suc play_simps asleep_def)

lemma writing_played: "play (replicate 2 MainMove) (Inr asleep) = Some (Inr writing)"
  by (simp add: numeral_eq_Suc play_simps asleep_def writing_def Let_def)

lemma joining_played:
  assumes "\<not> destroyed s" "main_pc s \<noteq> AtAssign" "running (cl s)" "g_running s" "sent_at_signal s = None"
    "\<not> joinable_done (cl s)"
  shows "play (into_join h) (Inr s) = Some (Inr (joining h s))"
  using assms by (simp add: numeral_eq_Suc into_join_def joining_def signalHandler_def destroyed_def clear_running_def)

lemmas runs = asleep_def writing_def joining_def new_client_def

lemma asleep_reachable: "reachable program_init program_step (Inr asleep)"
  by (rule played [OF asleep_played])

lemma writing_reachable: "reachable program_init program_step (Inr writing)"
  by (rule play_reachable [OF asleep_reachable writing_played])

lemma joining_reachable:
  "reachable program_init program_step (Inr (joining h asleep))" "reachable program_init program_step (Inr (joining h writing))"
  by (rule play_reachable [OF asleep_reachable] play_reachable [OF writing_reachable], rule joining_played;
      simp add: runs destroyed_def joinable_done_def)+

section \<open>Properties of the program\<close>



text \<open>
  C16: Once \<open>running_\<close> has been cleared, by a handler, by the destructor or by the callback thread, the program ends, whatever gRPC completes in
  between: as long as \<open>main\<close> has not returned, one of the threads or handlers can go on, unless a handler runs on the callback thread and joins it;
  and each of their steps leaves less to do. Only another signal adds steps, those of its handler.
\<close>

theorem callback_main_ends:
  assumes "reachable program_init program_step (Inr s)" "closed_at (cl s) \<noteq> None"
  shows "(main_pc s = Returned \<or> (CallbackHost, InStop StopJoin) \<in> set (handlers s) \<or> (\<exists>r. own_step s r)) \<and>
    (\<forall>t. own_step s (Inr t) \<longrightarrow> program_work t < program_work s \<and> closed_at (cl t) \<noteq> None)"
proof -
  have "client_part s" "close_part s" using callback_close.reachable_inv [OF assms(1)] by simp_all
  then show ?thesis using own_step_exists own_step_work assms(2) by blast
qed

theorem callback_main_ends_witness:
  "\<exists>r. own_step (joining (OtherHost 0) writing) r"
  using callback_main_ends [OF joining_reachable(2) [of "OtherHost 0"]] by (auto simp: runs)

text \<open>
  C37: The \<open>stop\<close> of a handler that runs on the callback thread joins the thread it runs on: once it is there it never goes on, the callback thread
  never finishes, and \<open>main\<close> never returns, whatever happens.
\<close>

theorem handler_joins_its_own_thread:
  assumes "reachable program_init program_step (Inr s)" "(CallbackHost, InStop StopJoin) \<in> set (handlers s)" "afterwards s t"
  shows "(CallbackHost, InStop StopJoin) \<in> set (handlers t) \<and> thread (cl t) \<noteq> Finished \<and> main_pc t \<noteq> Returned"
proof -
  have "host_part s" using callback_host.reachable_inv [OF assms(1)] by simp
  moreover have "handled_on CallbackHost s" using assms(2) unfolding handled_on_def by force
  ultimately have "joins_itself s" using assms(2) by (auto simp: joins_itself_def host_part_def joinable_done_def)
  with assms(1,3) have "joins_itself t" by (rule afterwards_keeps) (rule program_step_joins_itself)
  then show ?thesis by (auto simp: joins_itself_def joinable_done_def destroyed_def)
qed

theorem handler_joins_its_own_thread_witness:
  "\<exists>t. afterwards (joining CallbackHost asleep) t \<and> main_pc t = AtJoin \<and> (CallbackHost, InStop StopJoin) \<in> set (handlers t) \<and>
     thread (cl t) \<noteq> Finished"
proof -
  let ?s = "joining CallbackHost asleep"
  let ?t = "?s\<lparr>main_pc := AtJoin\<rparr>"
  have "play (replicate 3 MainMove) (Inr ?s) = Some (Inr ?t)"
    by (simp add: numeral_eq_Suc play_simps runs)
  then have t: "afterwards ?s ?t"
    unfolding afterwards_def by (rule play_reachable [rotated]) (rule reachable_init, simp)
  moreover have "(CallbackHost, InStop StopJoin) \<in> set (handlers ?s)" by (simp add: joining_def)
  ultimately show ?thesis
    using handler_joins_its_own_thread [OF joining_reachable(1) _ t] by (intro exI [of _ ?t]) simp
qed

text \<open>
  C40: when \<open>Next\<close> returns a failed write, the callback thread leaves its loop before it looks at the tag: from then on no context that is allocated is
  ever deleted and none of their callbacks is called, that of the failed write among them. And when the thread has finished with the queue open
  and no \<open>stop\<close> past its test, the queue is never shut down, whatever comes.
\<close>

theorem failed_write_is_lost:
  assumes "reachable program_init program_step (Inr s)" "moved (NextReturns (Ctx i) False) s = Some (Inr t)" "afterwards t u"
  shows "i \<in> set (contexts (cl s)) \<and> set (contexts (cl s)) \<subseteq> set (contexts (cl u)) \<and> answered (cl u) \<inter> set (contexts (cl s)) = {} \<and>
    thread (cl u) \<in> {Breaking, Finished} \<and>
    (thread (cl u) = Finished \<and> \<not> cq_shutdown (cl u) \<and> \<not> stop_under_way u {StopClear, StopCancel, StopShutdown} \<longrightarrow>
      (\<forall>v. afterwards u v \<longrightarrow> \<not> cq_shutdown (cl v)))"
proof -
  note t = reachable_step [OF assms(1) move_step [OF assms(2)]]
  have u: "reachable program_init program_step (Inr u)"
    using reachable_afterwards [OF t] assms(3) by (simp add: afterwards_def)
  have "client_ok (cl s)" using callback_main.reachable_inv [OF assms(1)] by (simp add: client_part_def)
  then have i: "i \<in> set (contexts (cl s))" using assms(2) by (auto simp: client_ok_def split: if_splits)
  have "lost (set (contexts (cl s))) t"
    using assms(2) by (auto simp: lost_def with_client_def loop_body_def split: if_splits)
  with t assms(3) have lost: "lost (set (contexts (cl s))) u" by (rule afterwards_keeps) (rule program_step_lost)
  have "client_ok (cl u)" using callback_main.reachable_inv [OF u] by (simp add: client_part_def)
  then have "answered (cl u) \<inter> set (contexts (cl s)) = {}" using lost by (auto simp: client_ok_def lost_def)
  moreover have "\<not> cq_shutdown (cl v)" if "never_shut u" "afterwards u v" for v
  proof -
    from u that(2,1) have "never_shut v" by (rule afterwards_keeps) (rule program_step_never_shut)
    then show ?thesis by (simp add: never_shut_def)
  qed
  ultimately show ?thesis using i lost by (auto simp: lost_def never_shut_def)
qed

text \<open>The first request's write fails, a signal follows, and \<open>main\<close> returns.\<close>

definition written :: main_state where
  "written = writing\<lparr>cl := (cl writing)\<lparr>thread := InNext, sending := None, pending := [Null, Ctx 0]\<rparr>, main_pc := AtLoop 1\<rparr>"

definition write_failed :: main_state where
  "write_failed = written\<lparr>cl := (cl written)\<lparr>thread := Breaking, pending := [Null]\<rparr>\<rparr>"

definition thread_gone :: main_state where
  "thread_gone = write_failed\<lparr>cl := clear_running (cl write_failed)\<lparr>thread := Finished\<rparr>\<rparr>"

lemma written_reachable: "reachable program_init program_step (Inr written)"
proof (rule play_reachable [OF writing_reachable])
  show "play [MainMove, ThreadMove] (Inr writing) = Some (Inr written)" by (simp add: play_simps runs written_def)
qed

theorem failed_write_is_lost_witness:
  "\<exists>v. afterwards write_failed v \<and> main_pc v = Returned \<and> 0 \<in> set (contexts (cl v)) \<and> 0 \<notin> answered (cl v) \<and> \<not> cq_shutdown (cl v)"
proof -
  let ?v = "thread_gone\<lparr>g_running := False, main_pc := Returned, sent_at_signal := Some 1\<rparr>"
  have failed: "moved (NextReturns (Ctx 0) False) written = Some (Inr write_failed)"
    by (simp add: play_simps runs written_def write_failed_def)
  have "play [ThreadMove] (Inr write_failed) = Some (Inr thread_gone)"
    by (simp add: play_simps runs written_def write_failed_def thread_gone_def)
  then have gone: "afterwards write_failed thread_gone"
    unfolding afterwards_def by (rule play_reachable [rotated]) (rule reachable_init, simp)
  have "play (SignalOn MainHost # replicate 5 HandlerMove @ replicate 5 MainMove) (Inr thread_gone) = Some (Inr ?v)"
    by (simp add: numeral_eq_Suc play_simps runs written_def write_failed_def thread_gone_def)
  then have rest: "afterwards thread_gone ?v" "afterwards write_failed ?v"
    using gone play_reachable reachable_init [of "\<lambda>r. r = Inr thread_gone"] unfolding afterwards_def by blast+
  have "\<not> cq_shutdown (cl ?v)"
    using failed_write_is_lost [OF written_reachable failed gone] rest(1)
    by (simp add: thread_gone_def write_failed_def written_def runs clear_running_def stop_under_way_def)
  then show ?thesis using failed_write_is_lost [OF written_reachable failed rest(2)] rest(2) by (intro exI [of _ ?v]) auto
qed

text \<open>The callback thread is about to read the next notification; and \<open>main\<close>, after a signal and the end of that thread, about to return.\<close>

definition about_to_read :: main_state where
  "about_to_read = asleep\<lparr>cl := (cl asleep)\<lparr>thread := ReadingNext, pending := []\<rparr>\<rparr>"

definition about_to_return :: main_state where
  "about_to_return = (joining MainHost asleep)\<lparr>cl := (cl (joining MainHost asleep))\<lparr>thread := Finished\<rparr>, main_pc := AtReturn, handlers := []\<rparr>"

definition uses_client :: main_state where
  "uses_client = about_to_return\<lparr>handlers := [(MainHost, InStop StopTest)]\<rparr>"

lemma about_to_read_reachable: "reachable program_init program_step (Inr about_to_read)"
proof (rule play_reachable [OF asleep_reachable])
  show "play [ThreadMove, NextReturns Null True] (Inr asleep) = Some (Inr about_to_read)"
    by (simp add: play_simps runs about_to_read_def)
qed

lemma joining_reading_reachable: "reachable program_init program_step (Inr (joining h about_to_read))"
  by (rule play_reachable [OF about_to_read_reachable], rule joining_played)
    (simp_all add: runs about_to_read_def destroyed_def joinable_done_def)

lemma uses_client_reachable: "reachable program_init program_step (Inr uses_client)"
proof (rule play_reachable [OF joining_reachable(1)])
  show "play ([ThreadMove, ThreadMove] @ replicate 3 HandlerMove @ replicate 4 MainMove @ SignalOn MainHost # replicate 2 HandlerMove)
      (Inr (joining MainHost asleep)) = Some (Inr uses_client)"
    by (simp add: numeral_eq_Suc play_simps runs about_to_return_def uses_client_def)
qed

text \<open>
  C38: \<open>stop\<close> does not wait for the operations the other threads are about to start, and nothing tells the handler that the client is gone: in
  reachable states a request that passed the test of \<open>running_\<close> is written to a queue that is shut down, the callback thread
  reads the next notification on one, and a handler calls \<open>stop\<close> on the client that \<open>main\<close> has destroyed.
\<close>

theorem stop_races_with_operations:
  "(\<exists>s. reachable program_init program_step (Inr s) \<and> sending (cl s) = Some 0 \<and> handlers s = [(OtherHost 0, InStop StopJoin)] \<and>
      own_step s (Inl DeadQueue) \<and> main_next s = Some (Inl DeadQueue)) \<and>
   (\<exists>s. reachable program_init program_step (Inr s) \<and> thread (cl s) = ReadingNext \<and> handlers s = [(MainHost, InStop StopJoin)] \<and>
      own_step s (Inl DeadQueue) \<and> thread_step (cl s) (Inl DeadQueue)) \<and>
   (\<exists>s. reachable program_init program_step (Inr s) \<and> main_pc s = AtReturn \<and> handlers s = [(MainHost, InStop StopTest)] \<and>
      own_step s (Inl DanglingPointer))"
proof (intro conjI)
  let ?s = "joining (OtherHost 0) writing"
  have dead: "main_next ?s = Some (Inl DeadQueue)" by (simp add: play_simps runs)
  moreover have "own_step ?s (Inl DeadQueue)" by (rule own_main [OF _ dead]) (simp add: handled_on_def runs)
  ultimately show "\<exists>s. reachable program_init program_step (Inr s) \<and> sending (cl s) = Some 0 \<and>
      handlers s = [(OtherHost 0, InStop StopJoin)] \<and> own_step s (Inl DeadQueue) \<and> main_next s = Some (Inl DeadQueue)"
    using joining_reachable(2) by (intro exI [of _ ?s]) (simp add: joining_def writing_def asleep_def)
next
  let ?s = "joining MainHost about_to_read"
  have dead: "thread_step (cl ?s) (Inl DeadQueue)"
    using reads [of "cl ?s"] by (simp add: runs about_to_read_def readNextNotify_def start_op_def)
  moreover have "own_step ?s (with_client ?s (Inl DeadQueue) (main_pc ?s))"
    by (rule own_callback [OF _ dead]) (simp add: handled_on_def runs about_to_read_def)
  ultimately show "\<exists>s. reachable program_init program_step (Inr s) \<and> thread (cl s) = ReadingNext \<and>
      handlers s = [(MainHost, InStop StopJoin)] \<and> own_step s (Inl DeadQueue) \<and> thread_step (cl s) (Inl DeadQueue)"
    using joining_reading_reachable
    by (intro exI [of _ ?s]) (simp add: joining_def about_to_read_def asleep_def with_client_def)
next
  have "own_step uses_client (bind_checked (Inl DanglingPointer) (\<lambda>(s', pc'). Inr (s'\<lparr>handlers := [] @ (MainHost, pc') # []\<rparr>)))"
    by (rule own_handler [of _ _ _ "InStop StopTest"])
      (simp_all add: uses_client_def about_to_return_def signalHandler_def destroyed_def)
  then show "\<exists>s. reachable program_init program_step (Inr s) \<and> main_pc s = AtReturn \<and> handlers s = [(MainHost, InStop StopTest)] \<and>
      own_step s (Inl DanglingPointer)"
    using uses_client_reachable by (intro exI [of _ uses_client]) (simp add: uses_client_def about_to_return_def)
qed

text \<open>
  A signal handled between \<open>run\<close> and the assignment of \<open>g_running\<close> is lost: it stops the client, but \<open>main\<close> then sets the flag and enters its
  loop all the same, with a client that refuses every request.
\<close>

lemma early_signal_is_lost:
  "\<exists>s. reachable program_init program_step (Inr s) \<and> sent_at_signal s = None \<and> handlers s = [] \<and> g_running s \<and>
     main_pc s = Sleeping 1 \<and> \<not> running (cl s) \<and> callbacks (cl s) = [(0, - 2)]"
proof -
  have "play (replicate 4 MainMove @ into_join (OtherHost 0) @ [ThreadMove, ThreadMove] @ replicate 3 HandlerMove @ replicate 5 MainMove)
      (Inr main_start) =
    Some (Inr (asleep\<lparr>cl := (cl asleep)\<lparr>running := False, thread := Finished, callbacks := [(0, - 2)], requests := 1, cancelled := True,
      cq_shutdown := True, closed_at := Some 0\<rparr>, main_pc := Sleeping 1\<rparr>))"
    by (simp add: numeral_eq_Suc play_simps into_join_def asleep_def Let_def)
  from played [OF this] show ?thesis by (intro exI) (auto simp: runs)
qed

end
