(* ===== verification/Hmac.thy ===== *)
theory Hmac
  imports Prelude
begin

unbundle bit_operations_syntax

text \<open>
  The HMAC-SHA-256 of \<open>src/openssl/hmac.cpp\<close>, against the definition of RFC 2104 that the file quotes.
  OpenSSL is an argument: \<open>EVP_Digest\<close> returns its status and the bytes it writes, \<open>HMAC\<close> the bytes
  it writes; \<open>BytesToHexString\<close> is Abseil's. The key and the data are constants of the program and arguments
  here, so that the bound on the key shows.
\<close>

type_synonym byte = "8 word"

section \<open>The model\<close>

definition digest_size :: nat where
  "digest_size = 32"

definition block_size :: nat where
  "block_size = 64"

definition bytes_of :: "string \<Rightarrow> byte list" where
  "bytes_of s = map of_char s"

definition key_constant :: "byte list" where
  "key_constant = bytes_of ''this is the key''"

definition data_constant :: "byte list" where
  "data_constant = bytes_of ''this is the data''"

record openssl =
  EVP_Digest :: "byte list \<Rightarrow> int \<times> byte list"
  HMAC :: "byte list \<Rightarrow> byte list \<Rightarrow> byte list"

definition assertion :: "bool \<Rightarrow> 'a checked \<Rightarrow> 'a checked" where
  "assertion b m = (if b then m else Inl AssertFailed)"

definition do_openssl_hmac :: "openssl \<Rightarrow> (byte list \<Rightarrow> string) \<Rightarrow> byte list \<Rightarrow> byte list \<Rightarrow> string checked" where
  "do_openssl_hmac lib BytesToHexString key data =
     (let out = HMAC lib key data
      in assertion (length out = digest_size) (Inr (BytesToHexString out)))"

definition do_sha256 :: "openssl \<Rightarrow> byte list \<Rightarrow> byte list checked" where
  "do_sha256 lib input =
     (let (ret, out) = EVP_Digest lib input
      in assertion (ret = 1) (assertion (length out = digest_size) (Inr out)))"

definition copy_key :: "byte list \<Rightarrow> byte list checked" where
  "copy_key key =
     (if length key \<le> block_size then Inr (key @ replicate (block_size - length key) 0)
      else Inl OutOfBounds)"

definition do_my_hmac :: "openssl \<Rightarrow> (byte list \<Rightarrow> string) \<Rightarrow> byte list \<Rightarrow> byte list \<Rightarrow> string checked" where
  "do_my_hmac lib BytesToHexString key data =
     bind_checked (copy_key key) (\<lambda>buffer.
     let buffer1 = map (\<lambda>b. b XOR 0x36) buffer in
     bind_checked (do_sha256 lib (buffer1 @ data)) (\<lambda>inner_result.
     assertion (length inner_result = digest_size)
     (let buffer2 = map (\<lambda>b. (b XOR 0x36) XOR 0x5c) buffer1 in
     bind_checked (do_sha256 lib (buffer2 @ inner_result)) (\<lambda>result.
     assertion (length result = digest_size) (Inr (BytesToHexString result))))))"

definition hmac_main :: "openssl \<Rightarrow> (byte list \<Rightarrow> string) \<Rightarrow> byte list \<Rightarrow> byte list \<Rightarrow> string checked" where
  "hmac_main lib BytesToHexString key data =
     bind_checked (do_openssl_hmac lib BytesToHexString key data) (\<lambda>openssl_result.
     bind_checked (do_my_hmac lib BytesToHexString key data) (\<lambda>my_result.
       Inr (if openssl_result = my_result then ''ok'' else ''result not match'')))"

section \<open>RFC 2104\<close>

definition rfc2104_key :: "(byte list \<Rightarrow> byte list) \<Rightarrow> byte list \<Rightarrow> byte list" where
  "rfc2104_key H K =
     (let K0 = (if block_size < length K then H K else K)
      in K0 @ replicate (block_size - length K0) 0)"

definition rfc2104 :: "(byte list \<Rightarrow> byte list) \<Rightarrow> byte list \<Rightarrow> byte list \<Rightarrow> byte list" where
  "rfc2104 H K text =
     H (map (\<lambda>b. b XOR 0x5c) (rfc2104_key H K) @ H (map (\<lambda>b. b XOR 0x36) (rfc2104_key H K) @ text))"

text \<open>What OpenSSL documents: a digest of 32 bytes, and HMAC as RFC 2104 defines it.\<close>

definition openssl_laws :: "openssl \<Rightarrow> (byte list \<Rightarrow> byte list) \<Rightarrow> bool" where
  "openssl_laws lib H \<longleftrightarrow>
     (\<forall>x. EVP_Digest lib x = (1, H x)) \<and> (\<forall>x. length (H x) = digest_size) \<and>
     (\<forall>k x. HMAC lib k x = rfc2104 H k x)"

lemma pad_switch: "((b XOR 0x36) XOR 0x36) XOR 0x5c = (b XOR 0x5c :: byte)"
  by (simp add: xor.assoc)

lemma do_sha256_eq: "openssl_laws lib H \<Longrightarrow> do_sha256 lib x = Inr (H x)"
  by (simp add: do_sha256_def openssl_laws_def assertion_def)

lemma do_my_hmac_eq:
  assumes "openssl_laws lib H"
  shows "do_my_hmac lib hex key data =
    (if length key \<le> block_size then Inr (hex (rfc2104 H key data)) else Inl OutOfBounds)"
proof -
  have len: "length (H x) = digest_size" for x using assms by (simp add: openssl_laws_def)
  have "(\<lambda>b. (b XOR 0x36) XOR 0x5c) \<circ> (\<lambda>b. b XOR 0x36) = (\<lambda>b. b XOR (0x5c :: byte))"
    by (simp add: pad_switch comp_def)
  then show ?thesis
    by (simp add: do_my_hmac_def copy_key_def do_sha256_eq [OF assms] assertion_def len Let_def rfc2104_def rfc2104_key_def)
qed

text \<open>A concrete hash of the right length, for an instance of the laws.\<close>

definition demo_hash :: "byte list \<Rightarrow> byte list" where
  "demo_hash x = replicate digest_size (fold (+) x 0)"

definition demo_openssl :: openssl where
  "demo_openssl = \<lparr>EVP_Digest = (\<lambda>x. (1, demo_hash x)), HMAC = rfc2104 demo_hash\<rparr>"

lemma demo_openssl_laws: "openssl_laws demo_openssl demo_hash"
  by (simp add: openssl_laws_def demo_openssl_def demo_hash_def)

section \<open>Properties\<close>

text \<open>
  C29: for every key of up to 64 bytes the hand-written HMAC is that of RFC 2104, no assertion fails and
  \<open>main\<close> reports \<open>ok\<close>; a longer key, which the RFC hashes first, overflows the block.
\<close>

theorem my_hmac_is_rfc2104:
  assumes "openssl_laws lib H"
  shows "do_my_hmac lib hex key data =
      (if length key \<le> 64 then Inr (hex (rfc2104 H key data)) else Inl OutOfBounds) \<and>
    (length key \<le> 64 \<longrightarrow> hmac_main lib hex key data = Inr ''ok'') \<and>
    hmac_main lib hex key_constant data_constant = Inr ''ok''"
proof -
  have "do_openssl_hmac lib hex k d = Inr (hex (rfc2104 H k d))" for k d
    using assms by (simp add: do_openssl_hmac_def openssl_laws_def assertion_def rfc2104_def)
  then show ?thesis
    by (simp add: do_my_hmac_eq [OF assms] hmac_main_def block_size_def key_constant_def bytes_of_def)
qed

theorem my_hmac_is_rfc2104_witness:
  "hmac_main demo_openssl (\<lambda>_. ''hex'') key_constant data_constant = Inr ''ok'' \<and>
   do_my_hmac demo_openssl (\<lambda>_. ''hex'') (replicate 65 0) [] = Inl OutOfBounds"
  using my_hmac_is_rfc2104 [OF demo_openssl_laws, of "\<lambda>_. ''hex''" "replicate 65 0" "[]"] by simp

end
