(* ===== verification/Ip_Port.thy ===== *)
theory Ip_Port
  imports Prelude
begin

text \<open>
  The flag type \<open>std::vector<IpPort>\<close> of \<open>src/common/abseil_flag_ipport.hpp\<close> and \<open>.cpp\<close>: how a list
  of addresses is printed and parsed. The Abseil functions are arguments: \<open>StrCat\<close>, \<open>StrAppend\<close>,
  \<open>StrJoin\<close>, \<open>StrSplit\<close> and \<open>ParseFlag\<close>, the last one the parser of an \<open>int\<close> flag, of which nothing is
  assumed.
\<close>

section \<open>The model\<close>

record IpPort =
  ip :: string
  port :: string

record absl =
  StrCat :: "string list \<Rightarrow> string"
  StrAppend :: "string \<Rightarrow> string \<Rightarrow> string"
  StrJoin :: "IpPort list \<Rightarrow> string \<Rightarrow> (string \<Rightarrow> IpPort \<Rightarrow> string) \<Rightarrow> string"
  StrSplit :: "string \<Rightarrow> char \<Rightarrow> string list"
  ParseFlag :: "string \<Rightarrow> string + int"

definition operator_string :: "absl \<Rightarrow> IpPort \<Rightarrow> string" where
  "operator_string A x = StrCat A [ip x, '':'', port x]"

definition AbslUnparseFlag :: "absl \<Rightarrow> IpPort list \<Rightarrow> string" where
  "AbslUnparseFlag A ip_ports = StrJoin A ip_ports '','' (\<lambda>out x. StrAppend A out (operator_string A x))"

text \<open>
  The parser returns its result, the vector behind \<open>ip_ports\<close> and the string behind \<open>error\<close>; a
  failure leaves the addresses parsed before it in the vector.
\<close>

fun parse_pieces :: "absl \<Rightarrow> string list \<Rightarrow> IpPort list \<Rightarrow> string \<Rightarrow> bool \<times> IpPort list \<times> string" where
  "parse_pieces A [] ip_ports error = (True, ip_ports, error)"
| "parse_pieces A (p # ps) ip_ports error =
     (case StrSplit A p CHR '':'' of
        [i, n] \<Rightarrow>
          (case ParseFlag A n of
             Inl e \<Rightarrow> (False, ip_ports, e)
           | Inr k \<Rightarrow>
               if k < 0 \<or> k > 32767 then (False, ip_ports, StrCat A [''invalid port: '', n])
               else parse_pieces A ps (ip_ports @ [\<lparr>ip = i, port = n\<rparr>]) error)
      | _ \<Rightarrow> (False, ip_ports, StrCat A [''invalid ipport: '', p]))"

definition AbslParseFlag :: "absl \<Rightarrow> string \<Rightarrow> IpPort list \<Rightarrow> string \<Rightarrow> bool \<times> IpPort list \<times> string" where
  "AbslParseFlag A text ip_ports error =
     (if length text = 0 then (True, ip_ports, error)
      else parse_pieces A (StrSplit A text CHR '','') ip_ports error)"

section \<open>What is relied on\<close>

definition absl_laws :: "absl \<Rightarrow> bool" where
  "absl_laws A \<longleftrightarrow> strcat_law (StrCat A) \<and> strsplit_law (StrSplit A) \<and>
     (\<forall>out s. StrAppend A out s = out @ s) \<and>
     (\<forall>xs sep f. StrJoin A xs sep (\<lambda>out x. out @ f x) = joined sep (map f xs))"

definition valid_port :: "absl \<Rightarrow> string \<Rightarrow> bool" where
  "valid_port A n = (case ParseFlag A n of Inl _ \<Rightarrow> False | Inr k \<Rightarrow> 0 \<le> k \<and> k \<le> 32767)"

definition valid_address :: "absl \<Rightarrow> IpPort \<Rightarrow> bool" where
  "valid_address A x \<longleftrightarrow> CHR '','' \<notin> set (ip x) \<and> CHR '':'' \<notin> set (ip x) \<and>
     CHR '','' \<notin> set (port x) \<and> CHR '':'' \<notin> set (port x) \<and> valid_port A (port x)"

text \<open>The text of one address, and why a piece is refused; \<open>None\<close> when there is no reason to.\<close>

definition address_text :: "IpPort \<Rightarrow> string" where
  "address_text x = ip x @ '':'' @ port x"

definition piece_error :: "absl \<Rightarrow> string \<Rightarrow> string option" where
  "piece_error A p =
     (case StrSplit A p CHR '':'' of
        [i, n] \<Rightarrow>
          (case ParseFlag A n of
             Inl e \<Rightarrow> Some e
           | Inr k \<Rightarrow> if 0 \<le> k \<and> k \<le> 32767 then None else Some (''invalid port: '' @ n))
      | _ \<Rightarrow> Some (''invalid ipport: '' @ p))"

definition is_address :: "absl \<Rightarrow> string \<Rightarrow> bool" where
  "is_address A p \<longleftrightarrow> (\<exists>x. valid_address A x \<and> p = address_text x)"

lemma address_eta [simp]: "\<lparr>ip = ip x, port = port x\<rparr> = x"
  by (cases x) simp

lemma unparse_eq: "absl_laws A \<Longrightarrow> AbslUnparseFlag A xs = joined '','' (map address_text xs)"
  by (simp add: AbslUnparseFlag_def absl_laws_def operator_string_def strcat_law_def
      address_text_def [abs_def])

lemma split_address:
  assumes "absl_laws A" "valid_address A x"
  shows "StrSplit A (address_text x) CHR '':'' = [ip x, port x]"
  using strsplit_joined [of "StrSplit A" "[ip x, port x]" "CHR '':''"] assms
  by (auto simp: absl_laws_def address_text_def valid_address_def)

lemma parse_addresses:
  assumes "absl_laws A" "\<forall>x \<in> set xs. valid_address A x"
  shows "parse_pieces A (map address_text xs @ ps) ys error = parse_pieces A ps (ys @ xs) error"
  using assms(2)
proof (induction xs arbitrary: ys)
  case (Cons x xs)
  then obtain k where "ParseFlag A (port x) = Inr k" "0 \<le> k" "k \<le> 32767"
    by (auto simp: valid_address_def valid_port_def split: sum.splits)
  then show ?case using Cons split_address [OF assms(1), of x] by simp
qed simp

lemma address_text_no_comma: "valid_address A x \<Longrightarrow> CHR '','' \<notin> set (address_text x)"
  by (simp add: valid_address_def address_text_def)

lemma joined_addresses_nonempty: "xs \<noteq> [] \<Longrightarrow> joined '','' (map address_text xs) \<noteq> []"
  by (cases xs; cases "tl xs") (simp_all add: joined_Cons address_text_def)

text \<open>A piece that is accepted is the text of the address it adds.\<close>

lemma accepted_piece:
  assumes "absl_laws A" "StrSplit A p CHR '':'' = [i, n]"
  shows "p = address_text \<lparr>ip = i, port = n\<rparr>" "CHR '':'' \<notin> set i" "CHR '':'' \<notin> set n"
proof -
  have "joined [CHR '':''] (StrSplit A p CHR '':'') = p" "\<forall>q \<in> set (StrSplit A p CHR '':''). CHR '':'' \<notin> set q"
    using assms(1) by (auto simp: absl_laws_def strsplit_law_def)
  with assms(2) show "p = address_text \<lparr>ip = i, port = n\<rparr>" "CHR '':'' \<notin> set i" "CHR '':'' \<notin> set n"
    by (auto simp: address_text_def)
qed

text \<open>There is a reason to refuse a piece exactly when it is not the text of an address.\<close>

lemma piece_error_iff:
  assumes "absl_laws A" "CHR '','' \<notin> set p"
  shows "piece_error A p = None \<longleftrightarrow> is_address A p"
proof
  assume "piece_error A p = None"
  then obtain i n where split: "StrSplit A p CHR '':'' = [i, n]" and port: "valid_port A n"
    by (auto simp: piece_error_def valid_port_def split: list.splits sum.splits if_splits)
  note p = accepted_piece [OF assms(1) split]
  have "valid_address A \<lparr>ip = i, port = n\<rparr>" using assms(2) p port by (auto simp: valid_address_def address_text_def)
  then show "is_address A p" using p(1) by (auto simp: is_address_def)
next
  assume "is_address A p"
  then obtain x where x: "valid_address A x" "p = address_text x" by (auto simp: is_address_def)
  then show "piece_error A p = None"
    using split_address [OF assms(1) x(1)] by (auto simp: piece_error_def valid_address_def valid_port_def split: sum.splits)
qed

text \<open>Every list of pieces is a list of addresses, then a refused piece if there is one.\<close>

lemma pieces_cases:
  assumes "absl_laws A" "\<forall>p \<in> set ps. CHR '','' \<notin> set p"
  shows "\<exists>xs. (\<forall>x \<in> set xs. valid_address A x) \<and>
    (ps = map address_text xs \<or>
     (\<exists>p qs e. ps = map address_text xs @ p # qs \<and> \<not> is_address A p \<and> piece_error A p = Some e \<and>
        (\<forall>ys error. parse_pieces A (p # qs) ys error = (False, ys, e))))"
  using assms(2)
proof (induction ps)
  case (Cons p ps)
  from assms(1) have cat: "\<And>xs. StrCat A xs = concat xs" by (simp add: absl_laws_def strcat_law_def)
  show ?case
  proof (cases "piece_error A p")
    case None
    then obtain x where x: "valid_address A x" "p = address_text x"
      using piece_error_iff [OF assms(1), of p] Cons.prems by (auto simp: is_address_def)
    obtain xs where "\<forall>x \<in> set xs. valid_address A x"
      "ps = map address_text xs \<or> (\<exists>q qs e. ps = map address_text xs @ q # qs \<and> \<not> is_address A q \<and>
        piece_error A q = Some e \<and> (\<forall>ys error. parse_pieces A (q # qs) ys error = (False, ys, e)))"
      using Cons by auto
    then show ?thesis using x by (intro exI [of _ "x # xs"]) auto
  next
    case (Some e)
    then have "\<forall>ys error. parse_pieces A (p # ps) ys error = (False, ys, e)"
      by (auto simp: piece_error_def cat not_le split: list.splits sum.splits if_splits)
    moreover have "\<not> is_address A p" using Some piece_error_iff [OF assms(1), of p] Cons.prems by simp
    ultimately show ?thesis using Some by (intro exI [of _ "[]"]) auto
  qed
qed (intro exI [of _ "[]"], simp)

text \<open>A concrete Abseil: the functions it documents, and a parser of plain decimal numbers.\<close>

fun split_at :: "char \<Rightarrow> string \<Rightarrow> string \<Rightarrow> string list" where
  "split_at d acc [] = [acc]"
| "split_at d acc (c # cs) = (if c = d then acc # split_at d [] cs else split_at d (acc @ [c]) cs)"

fun digits :: "int \<Rightarrow> string \<Rightarrow> string + int" where
  "digits k [] = Inr k"
| "digits k (c # cs) =
     (if 48 \<le> (of_char c :: int) \<and> (of_char c :: int) \<le> 57 then digits (10 * k + of_char c - 48) cs
      else Inl ''not a number'')"

definition demo_absl :: absl where
  "demo_absl = \<lparr>StrCat = concat, StrAppend = (@),
     StrJoin = (\<lambda>xs sep f. joined sep (map (f []) xs)),
     StrSplit = (\<lambda>text d. split_at d [] text), ParseFlag = digits 0\<rparr>"

lemma split_at_law:
  "split_at d acc s \<noteq> [] \<and> joined [d] (split_at d acc s) = acc @ s \<and>
   (d \<notin> set acc \<longrightarrow> (\<forall>p \<in> set (split_at d acc s). d \<notin> set p))"
proof (induction s arbitrary: acc)
  case (Cons c s)
  show ?case
    using Cons.IH [of "[]"] Cons.IH [of "acc @ [c]"] by (cases "c = d") (simp_all add: joined_Cons)
qed simp

lemma demo_absl_laws: "absl_laws demo_absl"
  using split_at_law [of _ "[]"]
  by (simp add: absl_laws_def demo_absl_def strcat_law_def strsplit_law_def)

section \<open>Properties\<close>

text \<open>
  C12: a list of addresses whose parts hold no separator and whose ports are numbers in the
  documented range survives printing and parsing: the parser appends exactly these addresses
  and leaves the error untouched.
\<close>

theorem parse_unparse:
  assumes "absl_laws A" "\<forall>x \<in> set xs. valid_address A x"
  shows "AbslParseFlag A (AbslUnparseFlag A xs) ys error = (True, ys @ xs, error)"
proof (cases "xs = []")
  case True
  then show ?thesis using assms(1) by (simp add: unparse_eq AbslParseFlag_def)
next
  case False
  have "StrSplit A (joined '','' (map address_text xs)) CHR '','' = map address_text xs"
    by (rule strsplit_joined) (use assms False address_text_no_comma in \<open>auto simp: absl_laws_def\<close>)
  moreover have "parse_pieces A (map address_text xs) ys error = (True, ys @ xs, error)"
    using parse_addresses [OF assms, of "[]"] by simp
  ultimately show ?thesis
    using False assms(1) joined_addresses_nonempty [of xs] by (simp add: unparse_eq AbslParseFlag_def)
qed

theorem parse_unparse_witness:
  "AbslParseFlag demo_absl (AbslUnparseFlag demo_absl
       [\<lparr>ip = ''10.0.0.1'', port = ''80''\<rparr>, \<lparr>ip = ''h'', port = ''0''\<rparr>]) [] '''' =
     (True, [\<lparr>ip = ''10.0.0.1'', port = ''80''\<rparr>, \<lparr>ip = ''h'', port = ''0''\<rparr>], '''')"
  using parse_unparse [OF demo_absl_laws,
      of "[\<lparr>ip = ''10.0.0.1'', port = ''80''\<rparr>, \<lparr>ip = ''h'', port = ''0''\<rparr>]" "[]" "''''"]
  by (simp add: valid_address_def valid_port_def demo_absl_def)

text \<open>
  C13: the parser decides: it either appends valid addresses whose printed form is the text, or it
  fails at the first piece that is not the text of a valid address, with the message for that piece and with the
  addresses before it already appended; so a piece that is the text of a valid address is never refused.
\<close>

theorem parse_decides:
  assumes "absl_laws A"
  shows "\<exists>xs. (\<forall>x \<in> set xs. valid_address A x) \<and>
    (AbslParseFlag A text ys error = (True, ys @ xs, error) \<and> AbslUnparseFlag A xs = text \<or>
     (\<exists>p qs e. text = joined '','' (map address_text xs @ p # qs) \<and> CHR '','' \<notin> set p \<and> \<not> is_address A p \<and>
        piece_error A p = Some e \<and> AbslParseFlag A text ys error = (False, ys @ xs, e)))"
proof (cases "text = []")
  case True
  then show ?thesis
    using assms by (intro exI [of _ "[]"]) (simp add: AbslParseFlag_def unparse_eq)
next
  case False
  let ?ps = "StrSplit A text CHR '',''"
  have law: "joined '','' ?ps = text" "\<forall>p \<in> set ?ps. CHR '','' \<notin> set p"
    using assms by (auto simp: absl_laws_def strsplit_law_def)
  obtain xs where xs: "\<forall>x \<in> set xs. valid_address A x"
    and ps: "?ps = map address_text xs \<or> (\<exists>p qs e. ?ps = map address_text xs @ p # qs \<and> \<not> is_address A p \<and>
        piece_error A p = Some e \<and> (\<forall>ys error. parse_pieces A (p # qs) ys error = (False, ys, e)))"
    using pieces_cases [OF assms law(2)] by blast
  note parsed = parse_addresses [OF assms xs]
  from ps show ?thesis
  proof
    assume "?ps = map address_text xs"
    then show ?thesis
      using xs law(1) False parsed [of "[]"]
      by (intro exI [of _ xs]) (simp add: AbslParseFlag_def unparse_eq [OF assms])
  next
    assume "\<exists>p qs e. ?ps = map address_text xs @ p # qs \<and> \<not> is_address A p \<and> piece_error A p = Some e \<and>
        (\<forall>ys error. parse_pieces A (p # qs) ys error = (False, ys, e))"
    then obtain p qs e where p: "?ps = map address_text xs @ p # qs" "\<not> is_address A p" "piece_error A p = Some e"
      "\<And>ys error. parse_pieces A (p # qs) ys error = (False, ys, e)" by blast
    then have "AbslParseFlag A text ys error = (False, ys @ xs, e)"
      using False parsed [of "p # qs"] by (simp add: AbslParseFlag_def)
    moreover have "text = joined '','' (map address_text xs @ p # qs)" "CHR '','' \<notin> set p" using law p(1) by auto
    ultimately show ?thesis using xs p(2,3) by blast
  qed
qed

theorem parse_decides_witness:
  "\<exists>xs. (\<forall>x \<in> set xs. valid_address demo_absl x) \<and>
    (AbslParseFlag demo_absl ''a:1,b'' [] '''' = (True, xs, '''') \<and> AbslUnparseFlag demo_absl xs = ''a:1,b'' \<or>
     (\<exists>p qs e. ''a:1,b'' = joined '','' (map address_text xs @ p # qs) \<and> CHR '','' \<notin> set p \<and> \<not> is_address demo_absl p \<and>
        piece_error demo_absl p = Some e \<and> AbslParseFlag demo_absl ''a:1,b'' [] '''' = (False, xs, e)))"
  using parse_decides [OF demo_absl_laws, of "''a:1,b''" "[]" "''''"] by simp

end
