(* ===== verification/Http_Client.thy ===== *)
theory Http_Client
  imports Ip_Port
begin

text \<open>
  What the three HTTP clients share (\<open>src/http/tcp_reuse.cpp\<close>, \<open>src/tls/tls_session_ticket.cpp\<close>,
  \<open>src/tls/tls_false_start.cpp\<close>): opening a TCP connection and reading one response; and the whole
  of \<open>tcp_reuse.cpp\<close>. The system calls are inputs: \<open>tcp_env\<close> holds what they return for one
  connection, a list of reads what \<open>read\<close> or \<open>SSL_read\<close> return one after the other. The response parser
  of \<open>base::http\<close> is an argument. What a program does with its sockets is a list of events.
\<close>

section \<open>Opening a connection\<close>

record tcp_env =
  getaddrinfo_err :: int
  socket_fd :: int
  connect_err :: int

datatype event = Opened int | Closed int | Http int | SslNew int | SslFree int | ShutdownError nat int

text \<open>
  The result is the descriptor behind the returned pointer, \<open>None\<close> for a null pointer. Both
  assertions of the function hold on its way: a call of \<open>getaddrinfo\<close> that succeeds stores a list,
  and \<open>fd > 0\<close> is checked here.
\<close>

definition create_tcp_conn :: "tcp_env \<Rightarrow> (int option \<times> event list) checked" where
  "create_tcp_conn e =
     (if getaddrinfo_err e \<noteq> 0 then Inr (None, [])
      else if socket_fd e = - 1 then Inr (None, [])
      else if connect_err e = - 1 then Inr (None, [Opened (socket_fd e)])
      else if \<not> socket_fd e > 0 then Inl AssertFailed
      else Inr (Some (socket_fd e), [Opened (socket_fd e)]))"

text \<open>The deleter of the returned pointer.\<close>

definition close_tcp_conn :: "int \<Rightarrow> event list" where
  "close_tcp_conn fd = [Closed fd]"

section \<open>One request and its response\<close>

datatype parse_status = good | indeterminate | bad

datatype http_result = WriteError | ReadError | ResponseEnd | InvalidResponse | Reading

text \<open>The reads: \<open>None\<close> for a result that is not positive, \<open>Some\<close> for the bytes read.\<close>

fun read_response ::
  "('p \<Rightarrow> string \<Rightarrow> parse_status \<times> 'p) \<Rightarrow> 'p \<Rightarrow> string option list \<Rightarrow> string \<times> http_result" where
  "read_response parse p [] = ('''', Reading)"
| "read_response parse p (None # rs) = ('''', ReadError)"
| "read_response parse p (Some buffer # rs) =
     (case parse p buffer of
        (good, _) \<Rightarrow> (buffer, ResponseEnd)
      | (indeterminate, p') \<Rightarrow> (let (out, res) = read_response parse p' rs in (buffer @ out, res))
      | (bad, _) \<Rightarrow> (buffer, InvalidResponse))"

text \<open>The comparison of the \<open>int\<close> that \<open>write\<close> returns with a length converts it modulo \<open>2 ^ 64\<close>.\<close>

definition do_http ::
  "('p \<Rightarrow> string \<Rightarrow> parse_status \<times> 'p) \<Rightarrow> 'p \<Rightarrow> string \<Rightarrow> int \<Rightarrow> string option list \<Rightarrow> string \<times> http_result" where
  "do_http parse new_parser request_buffer nw reads =
     (if nw mod 2 ^ 64 \<noteq> int (length request_buffer) then ('''', WriteError)
      else read_response parse new_parser reads)"

section \<open>\<open>tcp_reuse.cpp\<close>\<close>

definition N_LOOP :: nat where
  "N_LOOP = 3"

definition N_TRY :: nat where
  "N_TRY = 5"

datatype outcome = Running | Aborted | Exited int

record run_state =
  trace :: "event list"
  conn_no :: nat
  outcome :: outcome

definition visit :: "(nat \<Rightarrow> tcp_env) \<Rightarrow> IpPort \<Rightarrow> run_state \<Rightarrow> run_state" where
  "visit env target st =
     (if outcome st \<noteq> Running then st
      else case create_tcp_conn (env (conn_no st)) of
        Inl _ \<Rightarrow> st\<lparr>outcome := Aborted\<rparr>
      | Inr (None, ev) \<Rightarrow> st\<lparr>trace := trace st @ ev, outcome := Aborted\<rparr>
      | Inr (Some fd, ev) \<Rightarrow>
          st\<lparr>trace := trace st @ ev @ replicate N_TRY (Http fd) @ close_tcp_conn fd,
             conn_no := conn_no st + 1\<rparr>)"

definition reuse_main :: "(nat \<Rightarrow> tcp_env) \<Rightarrow> string \<Rightarrow> IpPort list \<Rightarrow> run_state" where
  "reuse_main env sni ip_ports =
     (let st = \<lparr>trace = [], conn_no = 0, outcome = Running\<rparr> in
      if length sni = 0 then st\<lparr>outcome := Exited (- 1)\<rparr>
      else if length ip_ports = 0 then st\<lparr>outcome := Exited (- 1)\<rparr>
      else let st' = fold (\<lambda>i. fold (visit env) ip_ports) [0..<N_LOOP] st
        in if outcome st' = Running then st'\<lparr>outcome := Exited 0\<rparr> else st')"

section \<open>Sockets in a trace\<close>

text \<open>
  A trace keeps the discipline when at most one socket is open at a time, requests go to the open
  one and it is closed last; \<open>open_after\<close> is the socket that is open at its end, an error (\<open>None\<close>) if it
  breaks the discipline.
\<close>

fun open_after :: "int option \<Rightarrow> event list \<Rightarrow> int option option" where
  "open_after cur [] = Some cur"
| "open_after cur (Opened fd # es) = (if cur = None then open_after (Some fd) es else None)"
| "open_after cur (Closed fd # es) = (if cur = Some fd then open_after None es else None)"
| "open_after cur (Http fd # es) = (if cur = Some fd then open_after cur es else None)"
| "open_after cur (SslNew fd # es) = (if cur = Some fd then open_after cur es else None)"
| "open_after cur (SslFree fd # es) = (if cur = Some fd then open_after cur es else None)"
| "open_after cur (ShutdownError k ret # es) = open_after cur es"

lemma open_after_append:
  "open_after cur (es @ fs) = Option.bind (open_after cur es) (\<lambda>c. open_after c fs)"
  by (induction cur es rule: open_after.induct) simp_all

lemma open_after_replicate [simp]: "open_after (Some fd) (replicate n (Http fd)) = Some (Some fd)"
  by (induction n) simp_all

lemma nested_loop: "fold (\<lambda>i. fold f xs) is s = fold f (concat (map (\<lambda>_. xs) is)) s"
  by (induction "is" arbitrary: s) simp_all

text \<open>
  What holds after every visited address: the trace keeps the discipline; a socket is left open only
  by an aborted run; and a run that is not aborted sent \<open>N_TRY\<close> requests on each connection.
\<close>

definition requests :: "event list \<Rightarrow> nat" where
  "requests es = length (filter (\<lambda>e. \<exists>fd. e = Http fd) es)"

lemma requests_simps [simp]:
  "requests [] = 0" "requests (es @ fs) = requests es + requests fs"
  "requests (replicate n (Http fd)) = n" "requests (Opened fd # es) = requests es"
  "requests (Closed fd # es) = requests es" "requests (SslNew fd # es) = requests es"
  "requests (SslFree fd # es) = requests es" "requests (ShutdownError k ret # es) = requests es"
  by (simp_all add: requests_def)

definition sockets_ok :: "nat \<Rightarrow> nat \<Rightarrow> 'a run_state_scheme \<Rightarrow> bool" where
  "sockets_ok tries visited st \<longleftrightarrow>
     (\<exists>x. open_after None (trace st) = Some x \<and> (x \<noteq> None \<longrightarrow> outcome st = Aborted)) \<and>
     (outcome st = Running \<or> outcome st = Aborted) \<and>
     (outcome st = Running \<longrightarrow> conn_no st = visited \<and> requests (trace st) = tries * visited)"

lemma visit_sockets_ok: "sockets_ok N_TRY n st \<Longrightarrow> sockets_ok N_TRY (Suc n) (visit env t st)"
  by (cases "outcome st = Running")
    (auto simp: sockets_ok_def visit_def create_tcp_conn_def close_tcp_conn_def open_after_append)

lemma visits_sockets_ok: "sockets_ok N_TRY n st \<Longrightarrow> sockets_ok N_TRY (n + length ts) (fold (visit env) ts st)"
proof (induction ts arbitrary: n st)
  case (Cons t ts)
  from Cons.IH [OF visit_sockets_ok [OF Cons.prems]] show ?case by simp
qed simp

definition reachable_host :: "tcp_env \<Rightarrow> bool" where
  "reachable_host e \<longleftrightarrow> getaddrinfo_err e = 0 \<and> socket_fd e > 0 \<and> connect_err e \<noteq> - 1"

lemma visit_running:
  "reachable_host (env (conn_no st)) \<Longrightarrow> outcome st = Running \<Longrightarrow> outcome (visit env t st) = Running"
  by (auto simp: visit_def create_tcp_conn_def reachable_host_def)

lemma visits_running:
  "\<forall>k. reachable_host (env k) \<Longrightarrow> outcome st = Running \<Longrightarrow> outcome (fold (visit env) ts st) = Running"
  by (induction ts arbitrary: st) (simp_all add: visit_running)

lemma length_rounds: "length (concat (map (\<lambda>_. xs) [0..<n])) = n * length xs"
  by (induction n) simp_all

text \<open>Chunks on which the parser asks for more.\<close>

fun fed :: "('p \<Rightarrow> string \<Rightarrow> parse_status \<times> 'p) \<Rightarrow> 'p \<Rightarrow> string list \<Rightarrow> 'p option" where
  "fed parse p [] = Some p"
| "fed parse p (b # bs) = (case parse p b of (indeterminate, p') \<Rightarrow> fed parse p' bs | _ \<Rightarrow> None)"

lemma read_response_fed:
  "fed parse p pre = Some p' \<Longrightarrow>
   read_response parse p (map Some pre @ rs) =
     (concat pre @ fst (read_response parse p' rs), snd (read_response parse p' rs))"
  by (induction pre arbitrary: p) (auto split: prod.splits parse_status.splits)

section \<open>Properties\<close>

text \<open>
  Once the request is written, the client prints exactly the chunks up to the first one that
  the parser does not ask to continue after, reads none beyond it, and reports the parser's verdict;
  a read that fails before ends the exchange with a read error.
\<close>

lemma http_exchange:
  assumes "nw = int (length request)" "length request < 2 ^ 64" "fed parse p pre = Some p'"
  shows "do_http parse p request nw (map Some pre @ None # rs) = (concat pre, ReadError) \<and>
    (parse p' b = (st, q) \<and> st \<noteq> indeterminate \<longrightarrow>
       do_http parse p request nw (map Some pre @ Some b # rs) =
         (concat pre @ b, if st = good then ResponseEnd else InvalidResponse))"
  using assms by (cases st) (auto simp: do_http_def read_response_fed [OF assms(3)])

lemma http_exchange_witness:
  "do_http (\<lambda>n b. (if n + length b < 5 then indeterminate else good, n + length b)) 0 ''GET'' 3
     [Some ''ab'', Some ''cdef'', Some ''x''] = (''abcdef'', ResponseEnd)"
  using http_exchange [of 3 "''GET''" "\<lambda>n b. (if n + length b < 5 then indeterminate else good, n + length b)"
      0 "[''ab'']" 2 "[Some ''x'']" "''cdef''" good 6] by simp

text \<open>
  In every run of \<open>tcp_reuse\<close> at most one socket is open at a time and requests go to the open
  one; a run that returns 0 has closed every socket and sent five requests on each of its
  connections, three to each address; when every host is reachable the run returns 0. Only an
  aborted run leaves a socket open.
\<close>

lemma reuse_main_sockets:
  fixes ip_ports :: "IpPort list"
  defines "n \<equiv> 3 * length ip_ports"
  shows "(\<exists>x. open_after None (trace (reuse_main env sni ip_ports)) = Some x \<and>
      (x \<noteq> None \<longrightarrow> outcome (reuse_main env sni ip_ports) = Aborted)) \<and>
    (outcome (reuse_main env sni ip_ports) = Exited 0 \<longrightarrow>
       conn_no (reuse_main env sni ip_ports) = n \<and> requests (trace (reuse_main env sni ip_ports)) = 5 * n) \<and>
    (sni \<noteq> [] \<and> ip_ports \<noteq> [] \<and> (\<forall>k. reachable_host (env k)) \<longrightarrow>
       outcome (reuse_main env sni ip_ports) = Exited 0)"
proof (cases "sni = [] \<or> ip_ports = []")
  case True
  then show ?thesis by (auto simp: reuse_main_def Let_def)
next
  case False
  define st0 where "st0 = \<lparr>trace = [], conn_no = 0, outcome = Running\<rparr>"
  define st where "st = fold (visit env) (concat (map (\<lambda>_. ip_ports) [0..<N_LOOP])) st0"
  have "sockets_ok N_TRY 0 st0" by (simp add: sockets_ok_def st0_def)
  from visits_sockets_ok [OF this, of "concat (map (\<lambda>_. ip_ports) [0..<N_LOOP])" env]
  have ok: "sockets_ok N_TRY n st" unfolding st_def [symmetric] by (simp add: length_rounds n_def N_LOOP_def)
  have run: "reuse_main env sni ip_ports = (if outcome st = Running then st\<lparr>outcome := Exited 0\<rparr> else st)"
    using False by (simp add: reuse_main_def nested_loop st_def st0_def Let_def)
  have "(\<forall>k. reachable_host (env k)) \<longrightarrow> outcome st = Running"
    using visits_running by (simp add: st_def st0_def)
  with ok show ?thesis unfolding run by (auto simp: sockets_ok_def N_TRY_def)
qed

lemma reuse_main_sockets_witness:
  "outcome (reuse_main (\<lambda>k. \<lparr>getaddrinfo_err = 0, socket_fd = 5, connect_err = 0\<rparr>) ''host''
      [\<lparr>ip = ''a'', port = ''80''\<rparr>]) = Exited 0 \<and>
   conn_no (reuse_main (\<lambda>k. \<lparr>getaddrinfo_err = 0, socket_fd = 5, connect_err = 0\<rparr>) ''host''
      [\<lparr>ip = ''a'', port = ''80''\<rparr>]) = 3"
  using reuse_main_sockets [of "\<lambda>k. \<lparr>getaddrinfo_err = 0, socket_fd = 5, connect_err = 0\<rparr>" "''host''"
      "[\<lparr>ip = ''a'', port = ''80''\<rparr>]"] by (simp add: reachable_host_def)

end
