(* ===== verification/Tls_Client.thy ===== *)
theory Tls_Client
  imports Http_Client
begin

text \<open>
  The two TLS clients, \<open>src/tls/tls_session_ticket.cpp\<close> and \<open>src/tls/tls_false_start.cpp\<close>: how a session is
  kept from one connection and offered on the next, and when false start is enabled. OpenSSL and
  BoringSSL are inputs: \<open>conn_env\<close> holds what their calls return for one connection. A null pointer
  given to \<open>SSL_shutdown\<close> is the error \<open>NullPointer\<close>.
\<close>

section \<open>What the libraries return\<close>

record 's conn_env =
  tcp :: tcp_env
  SSL_new_ok :: bool
  SSL_set_tlsext_host_name_ok :: bool
  SSL_set_session_ok :: bool
  SSL_connect_ok :: bool
  SSL_get1_session :: "'s option"
  SSL_shutdown_ret1 :: int
  SSL_shutdown_ret2 :: int

definition tls_tries :: nat where
  "tls_tries = 3"

record 's tls_state = run_state +
  session :: "'s option"
  false_start :: bool
  offers :: "'s option list"
  starts :: "bool list"

text \<open>The deleter of an SSL pointer.\<close>

definition ssl_deleter :: "'s conn_env \<Rightarrow> int \<Rightarrow> event list" where
  "ssl_deleter e fd =
     (if SSL_shutdown_ret1 e = 0
      then (if SSL_shutdown_ret2 e \<noteq> 1 then [ShutdownError 2 (SSL_shutdown_ret2 e)] else [])
      else if SSL_shutdown_ret1 e \<noteq> 1 then [ShutdownError 1 (SSL_shutdown_ret1 e)] else []) @
     [SslFree fd]"

section \<open>Session tickets\<close>

text \<open>
  The result: whether the pointer returned is not null, the session behind \<open>session_ptr\<close>, the events,
  and the session offered. A pointer that is dropped runs the deleter, also when it is null.
\<close>

definition create_ssl_conn :: "'s conn_env \<Rightarrow> 's option \<Rightarrow> int \<Rightarrow>
    (bool \<times> 's option \<times> event list \<times> 's option) checked" where
  "create_ssl_conn e ses fd =
     (if \<not> SSL_new_ok e then Inl NullPointer
      else if \<not> SSL_set_tlsext_host_name_ok e then Inr (False, ses, [SslNew fd] @ ssl_deleter e fd, None)
      else if ses \<noteq> None \<and> \<not> SSL_set_session_ok e then Inr (False, ses, [SslNew fd] @ ssl_deleter e fd, None)
      else if \<not> SSL_connect_ok e then Inr (False, ses, [SslNew fd] @ ssl_deleter e fd, None)
      else Inr (True, (case SSL_get1_session e of Some s \<Rightarrow> Some s | None \<Rightarrow> ses), [SslNew fd], ses))"

definition visit_ticket :: "(nat \<Rightarrow> 's conn_env) \<Rightarrow> IpPort \<Rightarrow> 's tls_state \<Rightarrow> 's tls_state" where
  "visit_ticket env target st =
     (if outcome st \<noteq> Running then st
      else let e = env (conn_no st) in
        case create_tcp_conn (tcp e) of
          Inl _ \<Rightarrow> st\<lparr>outcome := Aborted\<rparr>
        | Inr (None, ev) \<Rightarrow> st\<lparr>trace := trace st @ ev, outcome := Aborted\<rparr>
        | Inr (Some fd, ev) \<Rightarrow>
            (case create_ssl_conn e (session st) fd of
               Inl _ \<Rightarrow> st\<lparr>trace := trace st @ ev, outcome := Aborted\<rparr>
             | Inr (ssl, ses, ev2, offer) \<Rightarrow>
                 if \<not> ssl then st\<lparr>trace := trace st @ ev @ ev2, session := ses, outcome := Aborted\<rparr>
                 else st\<lparr>trace := trace st @ ev @ ev2 @ replicate tls_tries (Http fd) @ ssl_deleter e fd @ close_tcp_conn fd,
                         conn_no := conn_no st + 1, session := ses, offers := offers st @ [offer],
                         starts := starts st @ [false_start st]\<rparr>))"

definition initial_tls :: "'s tls_state" where
  "initial_tls = \<lparr>trace = [], conn_no = 0, outcome = Running, session = None, false_start = False,
     offers = [], starts = []\<rparr>"

definition finish :: "'s tls_state \<Rightarrow> 's tls_state" where
  "finish st = (if outcome st = Running then st\<lparr>outcome := Exited 0\<rparr> else st)"

definition ticket_main :: "(nat \<Rightarrow> 's conn_env) \<Rightarrow> bool \<Rightarrow> string \<Rightarrow> IpPort list \<Rightarrow> 's tls_state" where
  "ticket_main env SSL_CTX_new_ok sni ip_ports =
     (if length sni = 0 then initial_tls\<lparr>outcome := Exited (- 1)\<rparr>
      else if length ip_ports = 0 then initial_tls\<lparr>outcome := Exited (- 1)\<rparr>
      else if \<not> SSL_CTX_new_ok then initial_tls\<lparr>outcome := Exited (- 1)\<rparr>
      else finish (fold (\<lambda>i. fold (visit_ticket env) ip_ports) [0..<tls_tries] initial_tls))"

section \<open>False start\<close>

definition create_ssl_conn_fs :: "int \<Rightarrow> 's conn_env \<Rightarrow> 's option \<Rightarrow> int \<Rightarrow>
    (bool \<times> event list \<times> 's option) checked" where
  "create_ssl_conn_fs level e ses fd =
     (if \<not> SSL_new_ok e then Inl NullPointer
      else if \<not> SSL_set_tlsext_host_name_ok e then Inr (False, [SslNew fd] @ ssl_deleter e fd, None)
      else let offer = (if level \<ge> 1 then ses else None) in
        if offer \<noteq> None \<and> \<not> SSL_set_session_ok e then Inr (False, [SslNew fd] @ ssl_deleter e fd, None)
        else if \<not> SSL_connect_ok e then Inr (False, [SslNew fd] @ ssl_deleter e fd, None)
        else Inr (True, [SslNew fd], offer))"

text \<open>The requests on one connection: after the first one its session is stored.\<close>

definition store_session :: "int \<Rightarrow> 's conn_env \<Rightarrow> 's tls_state \<Rightarrow> 's tls_state" where
  "store_session level e st =
     (case SSL_get1_session e of
        None \<Rightarrow> st
      | Some s \<Rightarrow>
          let st1 = st\<lparr>session := Some s\<rparr>
          in if level \<ge> 2 then st1\<lparr>false_start := False\<rparr> else st1)"

fun requests_fs :: "nat \<Rightarrow> nat \<Rightarrow> int \<Rightarrow> 's conn_env \<Rightarrow> int \<Rightarrow> 's tls_state \<Rightarrow> 's tls_state" where
  "requests_fs 0 j level e fd st = st"
| "requests_fs (Suc n) j level e fd st =
     (let st1 = st\<lparr>trace := trace st @ [Http fd]\<rparr>;
          st2 = (if j \<noteq> 0 then st1 else store_session level e st1)
      in requests_fs n (j + 1) level e fd st2)"

definition visit_fs :: "int \<Rightarrow> (nat \<Rightarrow> 's conn_env) \<Rightarrow> IpPort \<Rightarrow> 's tls_state \<Rightarrow> 's tls_state" where
  "visit_fs level env target st =
     (if outcome st \<noteq> Running then st
      else let e = env (conn_no st) in
        case create_tcp_conn (tcp e) of
          Inl _ \<Rightarrow> st\<lparr>outcome := Aborted\<rparr>
        | Inr (None, ev) \<Rightarrow> st\<lparr>trace := trace st @ ev, outcome := Aborted\<rparr>
        | Inr (Some fd, ev) \<Rightarrow>
            (case create_ssl_conn_fs level e (session st) fd of
               Inl _ \<Rightarrow> st\<lparr>trace := trace st @ ev, outcome := Aborted\<rparr>
             | Inr (ssl, ev2, offer) \<Rightarrow>
                 if \<not> ssl then st\<lparr>trace := trace st @ ev @ ev2, outcome := Aborted\<rparr>
                 else let st1 = st\<lparr>trace := trace st @ ev @ ev2, conn_no := conn_no st + 1,
                            offers := offers st @ [offer], starts := starts st @ [false_start st]\<rparr>;
                          st2 = requests_fs tls_tries 0 level e fd st1
                      in st2\<lparr>trace := trace st2 @ ssl_deleter e fd @ close_tcp_conn fd\<rparr>))"

definition fs_main :: "int \<Rightarrow> (nat \<Rightarrow> 's conn_env) \<Rightarrow> bool \<Rightarrow> string \<Rightarrow> IpPort list \<Rightarrow> 's tls_state" where
  "fs_main level env SSL_CTX_new_ok sni ip_ports =
     (if length sni = 0 then initial_tls\<lparr>outcome := Exited (- 1)\<rparr>
      else if length ip_ports = 0 then initial_tls\<lparr>outcome := Exited (- 1)\<rparr>
      else if \<not> SSL_CTX_new_ok then initial_tls\<lparr>outcome := Exited (- 1)\<rparr>
      else let st = (if level \<ge> 2 then initial_tls\<lparr>false_start := True\<rparr> else initial_tls)
        in finish (fold (\<lambda>i. fold (visit_fs level env) ip_ports) [0..<tls_tries] st))"

section \<open>The sessions of a run\<close>

text \<open>The reference: the session that the connections before the \<open>k\<close>-th one left.\<close>

fun latest :: "(nat \<Rightarrow> 's conn_env) \<Rightarrow> nat \<Rightarrow> 's option" where
  "latest env 0 = None"
| "latest env (Suc k) = (case SSL_get1_session (env k) of Some s \<Rightarrow> Some s | None \<Rightarrow> latest env k)"

definition ticket_ok :: "(nat \<Rightarrow> 's conn_env) \<Rightarrow> nat \<Rightarrow> 's tls_state \<Rightarrow> bool" where
  "ticket_ok env visited st \<longleftrightarrow> sockets_ok tls_tries visited st \<and>
     offers st = map (latest env) [0..<conn_no st] \<and>
     (outcome st = Running \<longrightarrow> session st = latest env (conn_no st))"

lemma deleter_simps [simp]:
  "open_after (Some fd) (ssl_deleter e fd) = Some (Some fd)" "requests (ssl_deleter e fd) = 0"
  by (simp_all add: ssl_deleter_def)

lemma visit_ticket_ok: "ticket_ok env n st \<Longrightarrow> ticket_ok env (Suc n) (visit_ticket env t st)"
  by (cases "outcome st = Running")
    (auto simp: ticket_ok_def sockets_ok_def visit_ticket_def create_tcp_conn_def create_ssl_conn_def
      close_tcp_conn_def open_after_append Let_def)


lemma visits_ticket_ok: "ticket_ok env n st \<Longrightarrow> ticket_ok env (n + length ts) (fold (visit_ticket env) ts st)"
proof (induction ts arbitrary: n st)
  case (Cons t ts)
  from Cons.IH [OF visit_ticket_ok [OF Cons.prems]] show ?case by simp
qed simp

definition fs_ok :: "int \<Rightarrow> (nat \<Rightarrow> 's conn_env) \<Rightarrow> nat \<Rightarrow> 's tls_state \<Rightarrow> bool" where
  "fs_ok level env visited st \<longleftrightarrow> sockets_ok tls_tries visited st \<and>
     offers st = map (\<lambda>k. if level \<ge> 1 then latest env k else None) [0..<conn_no st] \<and>
     starts st = map (\<lambda>k. level \<ge> 2 \<and> latest env k = None) [0..<conn_no st] \<and>
     (outcome st = Running \<longrightarrow> session st = latest env (conn_no st) \<and>
        false_start st = (level \<ge> 2 \<and> latest env (conn_no st) = None))"

lemma requests_fs_eq:
  "requests_fs tls_tries 0 level e fd st =
     (let st' = store_session level e st in st'\<lparr>trace := trace st @ replicate tls_tries (Http fd)\<rparr>)"
  by (simp add: tls_tries_def numeral_eq_Suc store_session_def Let_def split: option.split)

lemma store_session_simps [simp]:
  "trace (store_session level e st) = trace st" "conn_no (store_session level e st) = conn_no st"
  "outcome (store_session level e st) = outcome st" "offers (store_session level e st) = offers st"
  "starts (store_session level e st) = starts st"
  "session (store_session level e st) =
     (case SSL_get1_session e of Some s \<Rightarrow> Some s | None \<Rightarrow> session st)"
  "false_start (store_session level e st) \<longleftrightarrow>
     false_start st \<and> \<not> (level \<ge> 2 \<and> SSL_get1_session e \<noteq> None)"
  by (auto simp: store_session_def Let_def split: option.split)

lemma visit_fs_ok: "fs_ok level env n st \<Longrightarrow> fs_ok level env (Suc n) (visit_fs level env t st)"
  by (cases "outcome st = Running")
    (auto simp: fs_ok_def sockets_ok_def visit_fs_def create_tcp_conn_def create_ssl_conn_fs_def
      close_tcp_conn_def open_after_append requests_fs_eq Let_def split: option.split)

lemma visits_fs_ok: "fs_ok level env n st \<Longrightarrow> fs_ok level env (n + length ts) (fold (visit_fs level env) ts st)"
proof (induction ts arbitrary: n st)
  case (Cons t ts)
  from Cons.IH [OF visit_fs_ok [OF Cons.prems]] show ?case by simp
qed simp

lemma finish_simps [simp]:
  "trace (finish st) = trace st" "offers (finish st) = offers st" "starts (finish st) = starts st"
  "conn_no (finish st) = conn_no st"
  by (simp_all add: finish_def)

lemma finish_outcome: "outcome (finish st) = (if outcome st = Running then Exited 0 else outcome st)"
  by (simp add: finish_def)

section \<open>Properties\<close>

text \<open>
  C21: \<open>tls_session_ticket\<close> offers on every connection the session of the last connection before it that
  yielded one, and none on the first; its sockets keep the discipline, and a run that returns 0 made
  three connections to every address and sent three requests on each.
\<close>

theorem ticket_resumes_latest:
  fixes ip_ports :: "IpPort list"
  defines "n \<equiv> 3 * length ip_ports"
  shows "offers (ticket_main env ctx sni ip_ports) =
      map (latest env) [0..<conn_no (ticket_main env ctx sni ip_ports)] \<and>
    (\<exists>x. open_after None (trace (ticket_main env ctx sni ip_ports)) = Some x \<and>
       (x \<noteq> None \<longrightarrow> outcome (ticket_main env ctx sni ip_ports) = Aborted)) \<and>
    (outcome (ticket_main env ctx sni ip_ports) = Exited 0 \<longrightarrow>
       conn_no (ticket_main env ctx sni ip_ports) = n \<and>
       requests (trace (ticket_main env ctx sni ip_ports)) = 3 * n)"
proof (cases "sni = [] \<or> ip_ports = [] \<or> \<not> ctx")
  case True
  then show ?thesis by (auto simp: ticket_main_def initial_tls_def)
next
  case False
  define st where "st = fold (visit_ticket env) (concat (map (\<lambda>_. ip_ports) [0..<tls_tries])) initial_tls"
  have "ticket_ok env 0 initial_tls" by (simp add: ticket_ok_def sockets_ok_def initial_tls_def)
  from visits_ticket_ok [OF this, of "concat (map (\<lambda>_. ip_ports) [0..<tls_tries])"]
  have ok: "ticket_ok env n st" unfolding st_def [symmetric] by (simp add: length_rounds n_def tls_tries_def)
  have "ticket_main env ctx sni ip_ports = finish st"
    using False by (simp add: ticket_main_def nested_loop st_def)
  with ok show ?thesis by (auto simp: ticket_ok_def sockets_ok_def finish_outcome tls_tries_def)
qed

text \<open>A run in which everything succeeds and only the second connection yields a session.\<close>

definition demo_env :: "nat \<Rightarrow> string conn_env" where
  "demo_env k = \<lparr>tcp = \<lparr>getaddrinfo_err = 0, socket_fd = 5, connect_err = 0\<rparr>, SSL_new_ok = True,
     SSL_set_tlsext_host_name_ok = True, SSL_set_session_ok = True, SSL_connect_ok = True,
     SSL_get1_session = (if k = 1 then Some ''ticket'' else None), SSL_shutdown_ret1 = 1, SSL_shutdown_ret2 = 1\<rparr>"

lemma demo_env_simps [simp]:
  "tcp (demo_env k) = \<lparr>getaddrinfo_err = 0, socket_fd = 5, connect_err = 0\<rparr>" "SSL_new_ok (demo_env k)"
  "SSL_set_tlsext_host_name_ok (demo_env k)" "SSL_set_session_ok (demo_env k)" "SSL_connect_ok (demo_env k)"
  "SSL_get1_session (demo_env k) = (if k = 1 then Some ''ticket'' else None)"
  by (simp_all add: demo_env_def)

theorem ticket_resumes_latest_witness:
  "offers (ticket_main demo_env True ''host'' [\<lparr>ip = ''a'', port = ''443''\<rparr>]) = [None, None, Some ''ticket'']"
proof -
  have "conn_no (ticket_main demo_env True ''host'' [\<lparr>ip = ''a'', port = ''443''\<rparr>]) = Suc (Suc (Suc 0))"
    by (simp add: ticket_main_def tls_tries_def numeral_eq_Suc initial_tls_def visit_ticket_def
        create_tcp_conn_def create_ssl_conn_def finish_def Let_def)
  then show ?thesis
    using ticket_resumes_latest [of demo_env True "''host''" "[\<lparr>ip = ''a'', port = ''443''\<rparr>]"] by simp
qed

text \<open>
  C22: \<open>tls_false_start\<close> offers the latest session from level 1 on, and enables false start exactly on
  the connections from level 2 on that have no session to offer: from level 2 on each connection uses
  one of the two, never both.
\<close>

theorem false_start_until_session:
  fixes level :: int and env :: "nat \<Rightarrow> 's conn_env" and ctx :: bool and sni :: string
    and ip_ports :: "IpPort list"
  defines "st \<equiv> fs_main level env ctx sni ip_ports"
  shows "offers st = map (\<lambda>k. if level \<ge> 1 then latest env k else None) [0..<conn_no st] \<and>
    starts st = map (\<lambda>k. level \<ge> 2 \<and> latest env k = None) [0..<conn_no st] \<and>
    (level \<ge> 2 \<longrightarrow> starts st = map (\<lambda>offer. offer = None) (offers st)) \<and>
    (outcome st = Exited 0 \<longrightarrow> conn_no st = 3 * length ip_ports)"
proof (cases "sni = [] \<or> ip_ports = [] \<or> \<not> ctx")
  case True
  then show ?thesis by (auto simp: st_def fs_main_def initial_tls_def)
next
  case False
  define st0 where "st0 = (if level \<ge> 2 then initial_tls\<lparr>false_start := True\<rparr> else initial_tls :: 's tls_state)"
  define st1 where "st1 = fold (visit_fs level env) (concat (map (\<lambda>_. ip_ports) [0..<tls_tries])) st0"
  have "fs_ok level env 0 st0" by (simp add: fs_ok_def sockets_ok_def st0_def initial_tls_def)
  from visits_fs_ok [OF this, of "concat (map (\<lambda>_. ip_ports) [0..<tls_tries])"]
  have ok: "fs_ok level env (3 * length ip_ports) st1"
    unfolding st1_def [symmetric] by (simp add: length_rounds tls_tries_def)
  have "st = finish st1"
    using False by (simp add: st_def fs_main_def nested_loop st1_def st0_def Let_def)
  with ok show ?thesis by (auto simp: fs_ok_def sockets_ok_def finish_outcome)
qed

theorem false_start_until_session_witness:
  "starts (fs_main 2 demo_env True ''host'' [\<lparr>ip = ''a'', port = ''443''\<rparr>]) = [True, True, False]"
proof -
  have "conn_no (fs_main 2 demo_env True ''host'' [\<lparr>ip = ''a'', port = ''443''\<rparr>]) = Suc (Suc (Suc 0))"
    by (simp add: fs_main_def tls_tries_def numeral_eq_Suc initial_tls_def visit_fs_def
        create_tcp_conn_def create_ssl_conn_fs_def finish_def Let_def)
  then show ?thesis
    using false_start_until_session [of 2 demo_env True "''host''" "[\<lparr>ip = ''a'', port = ''443''\<rparr>]"] by simp
qed

end
