(* ===== verification/Tls_Session_Info.thy ===== *)
theory Tls_Session_Info
  imports Tls_Client
begin

text \<open>
  What the TLS clients print and exchange on one connection: \<open>create_tcp_conn\<close> with its deleter,
  \<open>print_ssl_session_info\<close> and \<open>do_http_over_ssl\<close> of \<open>src/tls/tls_session_ticket.cpp\<close>, and their counterparts and
  the handshake callback of \<open>src/tls/tls_false_start.cpp\<close>. What OpenSSL knows of a session is the record
  \<open>ssl_info\<close>; \<open>BytesToHexString\<close> is Abseil's, \<open>show_int\<close> the \<open>%d\<close> of \<open>PrintF\<close>.
\<close>

section \<open>Sockets\<close>

text \<open>The deleter prints what \<open>close\<close> returned.\<close>

definition close_line :: "(int \<Rightarrow> string) \<Rightarrow> int \<Rightarrow> string" where
  "close_line show_int close_ret = ''close socket ret: '' @ show_int close_ret"

definition ticket_tcp_conn :: "(int \<Rightarrow> string) \<Rightarrow> tcp_env \<Rightarrow> int \<Rightarrow>
    (int option \<times> event list \<times> (event list \<times> string) option) checked" where
  "ticket_tcp_conn show_int e close_ret =
     (if getaddrinfo_err e \<noteq> 0 then Inr (None, [], None)
      else if socket_fd e = - 1 then Inr (None, [], None)
      else if connect_err e = - 1 then Inr (None, [Opened (socket_fd e)], None)
      else if \<not> socket_fd e > 0 then Inl AssertFailed
      else Inr (Some (socket_fd e), [Opened (socket_fd e)],
                Some (close_tcp_conn (socket_fd e), close_line show_int close_ret)))"

section \<open>The session\<close>

type_synonym bytes = "8 word list"

record ssl_info =
  version :: string
  session_reused :: int
  cipher_name :: string
  client_random :: bytes
  server_random :: bytes
  session_id :: bytes
  ticket :: "bytes option"
  master_key :: bytes

text \<open>
  The pattern of the lambdas: a call with length 0 returns the length of the value, a second one copies
  that many bytes into a buffer of 1024, without a check.
\<close>

definition buffer_size :: nat where
  "buffer_size = 1024"

definition fetch :: "bytes \<Rightarrow> bytes checked" where
  "fetch v = (let len = length v in if len \<le> buffer_size then Inr (take len v) else Inl OutOfBounds)"

definition print_ssl_session_info :: "(bytes \<Rightarrow> string) \<Rightarrow> (int \<Rightarrow> string) \<Rightarrow> ssl_info \<Rightarrow> string list checked" where
  "print_ssl_session_info hex show_int i =
     bind_checked (fetch (client_random i)) (\<lambda>cr.
     bind_checked (fetch (server_random i)) (\<lambda>sr.
     bind_checked (fetch (master_key i)) (\<lambda>mk.
     let has_ticket = (if ticket i = None then 0 else 1) in
     Inr ([''ssl session info begin---'', ''version: '' @ version i, ''reused: '' @ show_int (session_reused i),
           ''cipher: '' @ cipher_name i, ''client random: '' @ hex cr, ''server random: '' @ hex sr,
           ''session id: '' @ hex (session_id i), ''has ticket: '' @ show_int has_ticket] @
          (case ticket i of None \<Rightarrow> [] | Some t \<Rightarrow> [''session ticket: '' @ hex t]) @
          [''master key: '' @ hex mk, ''---ssl session info end'']))))"

section \<open>One exchange\<close>

definition do_http_over_ssl ::
  "('p \<Rightarrow> string \<Rightarrow> parse_status \<times> 'p) \<Rightarrow> 'p \<Rightarrow> string \<Rightarrow> int \<Rightarrow> string option list \<Rightarrow> string \<times> http_result" where
  "do_http_over_ssl parse responseParser request_buffer nw reads =
     (if nw mod 2 ^ 64 \<noteq> int (length request_buffer) then ('''', WriteError)
      else read_response parse responseParser reads)"

text \<open>
  The same in \<open>tls_false_start.cpp\<close>, here with every line it prints. A read of a positive number of bytes is
  \<open>Some\<close> of the bytes; when there are no more reads the program waits in the last one.
\<close>

definition place :: "string \<Rightarrow> string \<Rightarrow> string" where
  "place ip_s port_s = [CHR 0x27] @ ip_s @ '':'' @ port_s @ [CHR 0x27]"

definition fs_tcp_conn :: "(int \<Rightarrow> string) \<Rightarrow> string \<Rightarrow> string \<Rightarrow> tcp_env \<Rightarrow> (int option \<times> event list \<times> string) checked" where
  "fs_tcp_conn gai_strerror ip_s port_s e =
     (if getaddrinfo_err e \<noteq> 0
      then Inr (None, [], ''unable to solve '' @ place ip_s port_s @ '': '' @ gai_strerror (getaddrinfo_err e))
      else if socket_fd e = - 1 then Inr (None, [], ''unable to create socket for '' @ place ip_s port_s @ ''\<newline>'')
      else if connect_err e = - 1
      then Inr (None, [Opened (socket_fd e)], ''unable to connect to '' @ place ip_s port_s @ ''\<newline>'')
      else if \<not> socket_fd e > 0 then Inl AssertFailed
      else Inr (Some (socket_fd e), [Opened (socket_fd e)], []))"

fun fs_read_loop :: "('p \<Rightarrow> string \<Rightarrow> parse_status \<times> 'p) \<Rightarrow> 'p \<Rightarrow> string option list \<Rightarrow> string \<times> http_result" where
  "fs_read_loop parse responseParser [] = ('''', Reading)"
| "fs_read_loop parse responseParser (None # rs) = (''ssl read \<newline>'', ReadError)"
| "fs_read_loop parse responseParser (Some buffer # rs) =
     (let (status, next) = parse responseParser buffer in
      if status = good then (buffer @ ''---https response end\<newline>'', ResponseEnd)
      else if status = indeterminate
      then let (out, res) = fs_read_loop parse next rs in (buffer @ out, res)
      else (buffer @ ''invalid http response\<newline>'', InvalidResponse))"

definition fs_http_over_ssl ::
  "('p \<Rightarrow> string \<Rightarrow> parse_status \<times> 'p) \<Rightarrow> 'p \<Rightarrow> string \<Rightarrow> int \<Rightarrow> string option list \<Rightarrow> string \<times> http_result" where
  "fs_http_over_ssl parse responseParser request_buffer nw reads =
     (if nw mod 2 ^ 64 \<noteq> int (length request_buffer) then (''ssl write \<newline>'', WriteError)
      else let (out, res) = fs_read_loop parse responseParser reads
        in (''https response start---\<newline>'' @ out, res))"

section \<open>The handshake callback\<close>

datatype callback_type = HANDSHAKE_START | HANDSHAKE_DONE | CONNECT_LOOP | OtherCallback

definition InfoCallback :: "string \<Rightarrow> callback_type \<Rightarrow> string option" where
  "InfoCallback state_string t =
     (case t of
        HANDSHAKE_START \<Rightarrow> Some ''Handshake started''
      | HANDSHAKE_DONE \<Rightarrow> Some ''Handshake done''
      | CONNECT_LOOP \<Rightarrow> Some (''Handshake progress: '' @ state_string)
      | OtherCallback \<Rightarrow> None)"

section \<open>Facts\<close>

text \<open>Both ways of opening a connection do the same to the socket.\<close>

lemma ticket_tcp_conn_eq:
  "create_tcp_conn e =
     bind_checked (ticket_tcp_conn show_int e close_ret) (\<lambda>(fd, ev, _). Inr (fd, ev))"
  by (simp add: create_tcp_conn_def ticket_tcp_conn_def)

lemma ticket_tcp_conn_deleter:
  "ticket_tcp_conn show_int e r = Inr (fd, ev, d) \<Longrightarrow> (d = None \<longleftrightarrow> fd = None) \<and>
     (\<forall>x. fd = Some x \<longrightarrow> open_after None (ev @ fst (the d)) = Some None)"
  by (auto simp: ticket_tcp_conn_def close_tcp_conn_def split: if_splits)

lemma do_http_over_ssl_eq: "do_http_over_ssl = do_http"
  by (simp add: do_http_over_ssl_def do_http_def fun_eq_iff)

lemma fs_tcp_conn_eq:
  "create_tcp_conn e = bind_checked (fs_tcp_conn gai_strerror ip_s port_s e) (\<lambda>(fd, ev, out). Inr (fd, ev))"
  by (simp add: create_tcp_conn_def fs_tcp_conn_def)

text \<open>The lines around the response, by the way the exchange ended.\<close>

fun closing_line :: "http_result \<Rightarrow> string" where
  "closing_line WriteError = ''ssl write \<newline>''"
| "closing_line ReadError = ''ssl read \<newline>''"
| "closing_line ResponseEnd = ''---https response end\<newline>''"
| "closing_line InvalidResponse = ''invalid http response\<newline>''"
| "closing_line Reading = ''''"

lemma fs_read_loop_eq:
  "fs_read_loop parse p reads = (let (out, res) = read_response parse p reads in (out @ closing_line res, res))"
  by (induction parse p reads rule: read_response.induct)
    (auto simp: Let_def split: prod.splits parse_status.splits)

lemma fs_http_over_ssl_eq:
  "fs_http_over_ssl parse p request nw reads =
     (let (out, res) = do_http parse p request nw reads in
      if res = WriteError then (closing_line res, res)
      else (''https response start---\<newline>'' @ out @ closing_line res, res))"
proof -
  have "snd (read_response parse p reads) \<noteq> WriteError"
    by (induction parse p reads rule: read_response.induct) (auto split: prod.splits parse_status.splits)
  then show ?thesis
    by (auto simp: fs_http_over_ssl_def do_http_def fs_read_loop_eq split: prod.splits)
qed

lemma fetch_eq: "fetch v = (if length v \<le> 1024 then Inr v else Inl OutOfBounds)"
  by (simp add: fetch_def buffer_size_def)

section \<open>Properties\<close>

text \<open>
  Printing a session fails exactly when one of the three values copied into the 1024-byte buffers is longer
  than they are; otherwise it prints ten lines, and an eleventh with the ticket exactly when the
  session has one. With the lengths that TLS fixes (32 bytes for a random value, at most 48 for a
  master key) it never fails.
\<close>

lemma session_info_bounds:
  "(print_ssl_session_info hex show_int i = Inl OutOfBounds \<longleftrightarrow>
      1024 < length (client_random i) \<or> 1024 < length (server_random i) \<or> 1024 < length (master_key i)) \<and>
   (length (client_random i) = 32 \<and> length (server_random i) = 32 \<and> length (master_key i) \<le> 48 \<longrightarrow>
      (\<exists>lines. print_ssl_session_info hex show_int i = Inr lines \<and>
         length lines = (if ticket i = None then 10 else 11) \<and>
         (\<forall>t. ticket i = Some t \<longrightarrow> lines ! 8 = ''session ticket: '' @ hex t)))"
  by (cases "ticket i") (auto simp: print_ssl_session_info_def fetch_eq Let_def)

definition demo_info :: ssl_info where
  "demo_info = \<lparr>version = ''TLSv1.2'', session_reused = 1, cipher_name = ''AES128'', client_random = replicate 32 1,
     server_random = replicate 32 2, session_id = [], ticket = Some [7], master_key = replicate 48 3\<rparr>"

lemma session_info_bounds_witness:
  "\<exists>lines. print_ssl_session_info (\<lambda>_. ''hex'') (\<lambda>_. ''1'') demo_info = Inr lines \<and> length lines = 11 \<and>
     lines ! 8 = ''session ticket: hex''"
  using session_info_bounds [of "\<lambda>_. ''hex''" "\<lambda>_. ''1''" demo_info] by (auto simp: demo_info_def)

end
