(* ===== verification/Signature_Benchmark.thy ===== *)
theory Signature_Benchmark
  imports Prelude
begin

text \<open>
  The workers of \<open>src/openssl/signature_benchmark.cpp\<close>: the class hierarchy under \<open>Worker\<close>, with the virtual methods as
  functions of the class, the OpenSSL objects a worker owns, and \<open>main\<close>. OpenSSL is the record
  \<open>ec_lib\<close>: which calls succeed, and what signing and verifying return. An object that OpenSSL gives out
  is an address of the heap; freeing one that is not in use is the error \<open>BadFree\<close>. \<open>new T()\<close> sets the pointers of
  these classes, which have no constructor of their own, to null.
\<close>

section \<open>OpenSSL and its objects\<close>

record 'g ec_lib =
  EC_KEY_new_ok :: bool
  curve_known :: "int \<Rightarrow> bool"
  EC_KEY_set_group_ret :: int
  EC_KEY_generate_key_ret :: int
  ECDSA_do_sign :: "string \<Rightarrow> nat \<Rightarrow> 'g option"
  ECDSA_do_verify :: "string \<Rightarrow> 'g \<Rightarrow> nat \<Rightarrow> int"
  EVP_MD_CTX_new_ok :: bool

record heap =
  live :: "nat list"
  fresh :: nat

definition new_object :: "heap \<Rightarrow> nat \<times> heap" where
  "new_object h = (fresh h, \<lparr>live = fresh h # live h, fresh = fresh h + 1\<rparr>)"

definition free_object :: "nat \<Rightarrow> heap \<Rightarrow> heap checked" where
  "free_object p h = (if p \<in> set (live h) then Inr (h\<lparr>live := remove1 p (live h)\<rparr>) else Inl BadFree)"

section \<open>The classes\<close>

datatype worker_class = Worker_Foo | Worker_ECDSA string int | Worker_EVP

record 'g worker =
  dynamic_class :: worker_class
  pkey :: "nat option"
  curve :: "nat option"
  sig_ptr :: "(nat \<times> 'g) option"
  ctx :: "nat option"

definition new_worker :: "worker_class \<Rightarrow> 'g worker" where
  "new_worker k = \<lparr>dynamic_class = k, pkey = None, curve = None, sig_ptr = None, ctx = None\<rparr>"

fun Name :: "worker_class \<Rightarrow> string" where
  "Name Worker_Foo = ''Foo''"
| "Name (Worker_ECDSA CurveName CurveId) = ''ECDSA_'' @ CurveName"
| "Name Worker_EVP = ''EVP''"

definition assertion :: "bool \<Rightarrow> 'a checked \<Rightarrow> 'a checked" where
  "assertion b m = (if b then m else Inl AssertFailed)"

text \<open>\<open>Prepare\<close> of \<open>Worker_ECDSA\<close>: two objects, then two calls whose results are asserted.\<close>

definition Prepare_ECDSA :: "'g ec_lib \<Rightarrow> int \<Rightarrow> 'g worker \<Rightarrow> heap \<Rightarrow> ('g worker \<times> heap) checked" where
  "Prepare_ECDSA lib CurveId w h =
     assertion (EC_KEY_new_ok lib)
       (let (k, h1) = new_object h; w1 = w\<lparr>pkey := Some k\<rparr> in
        assertion (curve_known lib CurveId)
          (let (c, h2) = new_object h1; w2 = w1\<lparr>curve := Some c\<rparr> in
           assertion (EC_KEY_set_group_ret lib = 1)
             (assertion (EC_KEY_generate_key_ret lib = 1) (Inr (w2, h2)))))"

fun Prepare :: "'g ec_lib \<Rightarrow> worker_class \<Rightarrow> 'g worker \<Rightarrow> heap \<Rightarrow> ('g worker \<times> heap) checked" where
  "Prepare lib Worker_Foo w h = Inr (w, h)"
| "Prepare lib (Worker_ECDSA CurveName CurveId) w h = Prepare_ECDSA lib CurveId w h"
| "Prepare lib Worker_EVP w h =
     assertion (EVP_MD_CTX_new_ok lib) (let (c, h1) = new_object h in Inr (w\<lparr>ctx := Some c\<rparr>, h1))"

text \<open>
  \<open>Sign\<close> of \<open>Worker_EVP\<close> hands its context to \<open>EVP_DigestSignInit\<close> and looks at nothing it returns. The pointer
  \<open>sig_\<close> of \<open>Worker_ECDSA\<close> is overwritten: the signature of an earlier call is lost, not freed.
\<close>

definition Sign_ECDSA :: "'g ec_lib \<Rightarrow> string \<Rightarrow> 'g worker \<Rightarrow> heap \<Rightarrow> ('g worker \<times> heap) checked" where
  "Sign_ECDSA lib data w h =
     (case pkey w of
        None \<Rightarrow> Inl NullPointer
      | Some k \<Rightarrow>
          (case ECDSA_do_sign lib data k of
             None \<Rightarrow> Inl AssertFailed
           | Some g \<Rightarrow> (let (s, h1) = new_object h in Inr (w\<lparr>sig_ptr := Some (s, g)\<rparr>, h1))))"

fun Sign :: "'g ec_lib \<Rightarrow> worker_class \<Rightarrow> string \<Rightarrow> 'g worker \<Rightarrow> heap \<Rightarrow> ('g worker \<times> heap) checked" where
  "Sign lib Worker_Foo data w h = Inr (w, h)"
| "Sign lib (Worker_ECDSA CurveName CurveId) data w h = Sign_ECDSA lib data w h"
| "Sign lib Worker_EVP data w h = (if ctx w = None then Inl NullPointer else Inr (w, h))"

definition Verify_ECDSA :: "'g ec_lib \<Rightarrow> string \<Rightarrow> 'g worker \<Rightarrow> unit checked" where
  "Verify_ECDSA lib data w =
     (case (sig_ptr w, pkey w) of
        (Some (s, g), Some k) \<Rightarrow> assertion (ECDSA_do_verify lib data g k = 1) (Inr ())
      | _ \<Rightarrow> Inl NullPointer)"

fun Verify :: "'g ec_lib \<Rightarrow> worker_class \<Rightarrow> string \<Rightarrow> 'g worker \<Rightarrow> unit checked" where
  "Verify lib Worker_Foo data w = Inr ()"
| "Verify lib (Worker_ECDSA CurveName CurveId) data w = Verify_ECDSA lib data w"
| "Verify lib Worker_EVP data w = Inr ()"

definition free_if_set :: "nat option \<Rightarrow> heap \<Rightarrow> heap checked" where
  "free_if_set p h = (case p of None \<Rightarrow> Inr h | Some q \<Rightarrow> free_object q h)"

text \<open>The destructors; that of \<open>Worker_EVP\<close> frees nothing.\<close>

fun destroy :: "worker_class \<Rightarrow> 'g worker \<Rightarrow> heap \<Rightarrow> heap checked" where
  "destroy Worker_Foo w h = Inr h"
| "destroy (Worker_ECDSA CurveName CurveId) w h =
     bind_checked (free_if_set (map_option fst (sig_ptr w)) h) (\<lambda>h1.
     bind_checked (free_if_set (curve w) h1) (\<lambda>h2. free_if_set (pkey w) h2))"
| "destroy Worker_EVP w h = Inr h"

section \<open>\<open>main\<close>\<close>

definition benchmark_data :: string where
  "benchmark_data = concat (replicate 5 ''0123456789'')"

text \<open>One worker: its lines (without the measured time), its new state and the heap.\<close>

definition bench :: "'g ec_lib \<Rightarrow> 'g worker \<Rightarrow> heap \<Rightarrow> (string list \<times> 'g worker \<times> heap) checked" where
  "bench lib w h =
     (let k = dynamic_class w in
      bind_checked (Prepare lib k w h) (\<lambda>(w1, h1).
      bind_checked (Sign lib k benchmark_data w1 h1) (\<lambda>(w2, h2).
      bind_checked (Verify lib k benchmark_data w2) (\<lambda>_.
        Inr ([Name k @ '' sign cost: '', Name k @ '' verify cost: ''], w2, h2)))))"

fun bench_all :: "'g ec_lib \<Rightarrow> 'g worker list \<Rightarrow> heap \<Rightarrow> (string list \<times> 'g worker list \<times> heap) checked" where
  "bench_all lib [] h = Inr ([], [], h)"
| "bench_all lib (w # ws) h =
     bind_checked (bench lib w h) (\<lambda>(out, w', h').
     bind_checked (bench_all lib ws h') (\<lambda>(outs, ws', h''). Inr (out @ outs, w' # ws', h'')))"

fun delete_all :: "'g worker list \<Rightarrow> heap \<Rightarrow> heap checked" where
  "delete_all [] h = Inr h"
| "delete_all (w # ws) h = bind_checked (destroy (dynamic_class w) w h) (delete_all ws)"

text \<open>The short names and the numbers of the two curves are macros of OpenSSL.\<close>

definition benchmark_workers :: "string \<Rightarrow> int \<Rightarrow> string \<Rightarrow> int \<Rightarrow> 'g worker list" where
  "benchmark_workers SN_prime192v1 NID_prime192v1 SN_prime256v1 NID_prime256v1 =
     [new_worker (Worker_ECDSA SN_prime192v1 NID_prime192v1),
      new_worker (Worker_ECDSA SN_prime256v1 NID_prime256v1)]"

definition run_workers :: "'g ec_lib \<Rightarrow> 'g worker list \<Rightarrow> heap \<Rightarrow> (string list \<times> heap) checked" where
  "run_workers lib workers h =
     bind_checked (bench_all lib workers h) (\<lambda>(out, ws, h1).
     bind_checked (delete_all ws h1) (\<lambda>h2. Inr (out, h2)))"

section \<open>Ownership\<close>

definition heap_ok :: "heap \<Rightarrow> bool" where
  "heap_ok h \<longleftrightarrow> distinct (live h) \<and> (\<forall>p \<in> set (live h). p < fresh h)"

definition owned :: "'g worker \<Rightarrow> nat list" where
  "owned w = (case sig_ptr w of None \<Rightarrow> [] | Some (s, _) \<Rightarrow> [s]) @
     (case curve w of None \<Rightarrow> [] | Some c \<Rightarrow> [c]) @ (case pkey w of None \<Rightarrow> [] | Some k \<Rightarrow> [k])"

definition is_ECDSA :: "'g worker \<Rightarrow> bool" where
  "is_ECDSA w \<longleftrightarrow> (\<exists>n i. dynamic_class w = Worker_ECDSA n i)"

text \<open>What OpenSSL documents, and that it has the curves and the memory.\<close>

definition ec_works :: "'g ec_lib \<Rightarrow> bool" where
  "ec_works lib \<longleftrightarrow> EC_KEY_new_ok lib \<and> (\<forall>i. curve_known lib i) \<and> EC_KEY_set_group_ret lib = 1 \<and>
     EC_KEY_generate_key_ret lib = 1 \<and>
     (\<forall>d k. \<exists>g. ECDSA_do_sign lib d k = Some g \<and> ECDSA_do_verify lib d g k = 1)"

lemmas bench_defs = bench_def Prepare_ECDSA_def Sign_ECDSA_def Verify_ECDSA_def assertion_def new_object_def Let_def

text \<open>A worker that was never prepared owns three new objects after its round, and nothing else changes.\<close>

lemma bench_ECDSA:
  assumes "ec_works lib" "w = new_worker (Worker_ECDSA n i)"
  shows "\<exists>w'. bench lib w h =
      Inr ([''ECDSA_'' @ n @ '' sign cost: '', ''ECDSA_'' @ n @ '' verify cost: ''], w',
        \<lparr>live = owned w' @ live h, fresh = fresh h + 3\<rparr>) \<and>
    owned w' = [fresh h + 2, fresh h + 1, fresh h] \<and> dynamic_class w' = Worker_ECDSA n i"
proof -
  obtain g where "ECDSA_do_sign lib benchmark_data (fresh h) = Some g"
    "ECDSA_do_verify lib benchmark_data g (fresh h) = 1"
    using assms(1) unfolding ec_works_def by meson
  then show ?thesis
    using assms by (auto simp: bench_defs ec_works_def new_worker_def owned_def)
qed

lemma destroy_owned:
  assumes "is_ECDSA w" "live h = xs @ owned w @ ys" "distinct (live h)"
  shows "destroy (dynamic_class w) w h = Inr (h\<lparr>live := xs @ ys\<rparr>)"
  using assms
  by (cases "sig_ptr w"; cases "curve w"; cases "pkey w")
    (auto simp: is_ECDSA_def owned_def free_if_set_def free_object_def remove1_append)

lemma delete_all_owned:
  assumes "\<forall>w \<in> set ws. is_ECDSA w" "live h = concat (rev (map owned ws)) @ ys" "distinct (live h)"
  shows "delete_all ws h = Inr (h\<lparr>live := ys\<rparr>)"
  using assms
proof (induction ws arbitrary: h ys)
  case (Cons w ws)
  have "destroy (dynamic_class w) w h = Inr (h\<lparr>live := concat (rev (map owned ws)) @ ys\<rparr>)"
    using Cons.prems by (intro destroy_owned) auto
  then show ?case
    using Cons.IH [of "h\<lparr>live := concat (rev (map owned ws)) @ ys\<rparr>" ys] Cons.prems
    by (simp add: Int_Un_distrib)
qed simp

text \<open>A name and a number stand for the class that the macro \<open>Worker_ECDSA_Define\<close> declares for them.\<close>

definition ecdsa_workers :: "(string \<times> int) list \<Rightarrow> 'g worker list" where
  "ecdsa_workers cs = map (\<lambda>(n, i). new_worker (Worker_ECDSA n i)) cs"

definition cost_lines :: "string \<Rightarrow> string list" where
  "cost_lines n = [''ECDSA_'' @ n @ '' sign cost: '', ''ECDSA_'' @ n @ '' verify cost: '']"

lemma heap_ok_extend:
  "heap_ok h \<Longrightarrow> heap_ok \<lparr>live = [fresh h + 2, fresh h + 1, fresh h] @ live h, fresh = fresh h + 3\<rparr>"
  by (fastforce simp: heap_ok_def)

lemma bench_all_ECDSA:
  assumes "ec_works lib" "heap_ok h"
  shows "\<exists>ws h'. bench_all lib (ecdsa_workers cs) h = Inr (concat (map (\<lambda>c. cost_lines (fst c)) cs), ws, h') \<and>
    (\<forall>w \<in> set ws. is_ECDSA w) \<and> live h' = concat (rev (map owned ws)) @ live h \<and> heap_ok h' \<and>
    fresh h' = fresh h + 3 * length cs"
  using assms(2)
proof (induction cs arbitrary: h)
  case Nil
  then show ?case by (simp add: ecdsa_workers_def)
next
  case (Cons c cs)
  obtain n i where c: "c = (n, i)" by (cases c)
  obtain w' where w: "bench lib (new_worker (Worker_ECDSA n i)) h =
      Inr (cost_lines n, w', \<lparr>live = owned w' @ live h, fresh = fresh h + 3\<rparr>)"
    "owned w' = [fresh h + 2, fresh h + 1, fresh h]" "is_ECDSA w'"
    using bench_ECDSA [OF assms(1) refl, of n i h] unfolding cost_lines_def is_ECDSA_def by blast
  have "heap_ok \<lparr>live = owned w' @ live h, fresh = fresh h + 3\<rparr>"
    using heap_ok_extend [OF Cons.prems] w(2) by simp
  from Cons.IH [OF this] obtain ws h' where
    "bench_all lib (ecdsa_workers cs) \<lparr>live = owned w' @ live h, fresh = fresh h + 3\<rparr> =
       Inr (concat (map (\<lambda>c. cost_lines (fst c)) cs), ws, h')"
    "\<forall>w \<in> set ws. is_ECDSA w" "live h' = concat (rev (map owned ws)) @ owned w' @ live h" "heap_ok h'"
    "fresh h' = fresh h + 3 + 3 * length cs"
    by auto
  then show ?case
    using w(1,3) by (intro exI [of _ "w' # ws"] exI [of _ h'])
      (simp add: c ecdsa_workers_def bind_checked_def)
qed

text \<open>
  C30: The benchmark owns what it allocates. When OpenSSL has the curves and verifies what it signs, a run over any list of
  ECDSA workers fails no assertion, prints the two lines of each worker in the order of the list, and its second loop
  frees every object exactly once: the objects in use at the end are those in use before, though three were
  allocated for each worker.
\<close>

theorem benchmark_releases_all:
  assumes "ec_works lib" "heap_ok h"
  shows "run_workers lib (ecdsa_workers cs) h =
    Inr (concat (map (\<lambda>c. cost_lines (fst c)) cs), \<lparr>live = live h, fresh = fresh h + 3 * length cs\<rparr>)"
proof -
  obtain ws h' where b: "bench_all lib (ecdsa_workers cs) h = Inr (concat (map (\<lambda>c. cost_lines (fst c)) cs), ws, h')"
    "\<forall>w \<in> set ws. is_ECDSA w" "live h' = concat (rev (map owned ws)) @ live h" "heap_ok h'"
    "fresh h' = fresh h + 3 * length cs"
    using bench_all_ECDSA [OF assms] by blast
  have "delete_all ws h' = Inr (h'\<lparr>live := live h\<rparr>)"
    by (rule delete_all_owned [OF b(2,3)]) (use b(4) in \<open>simp add: heap_ok_def\<close>)
  then show ?thesis using b(1,5) by (simp add: run_workers_def bind_checked_def)
qed

definition demo_ec_lib :: "(string \<times> nat) ec_lib" where
  "demo_ec_lib = \<lparr>EC_KEY_new_ok = True, curve_known = (\<lambda>_. True), EC_KEY_set_group_ret = 1,
     EC_KEY_generate_key_ret = 1, ECDSA_do_sign = (\<lambda>d k. Some (d, k)),
     ECDSA_do_verify = (\<lambda>d g k. if g = (d, k) then 1 else 0), EVP_MD_CTX_new_ok = True\<rparr>"

lemma benchmark_workers_ECDSA:
  "benchmark_workers s1 n1 s2 n2 = ecdsa_workers [(s1, n1), (s2, n2)]"
  by (simp add: benchmark_workers_def ecdsa_workers_def)

theorem benchmark_releases_all_witness:
  "ec_works demo_ec_lib \<and> heap_ok \<lparr>live = [], fresh = 1\<rparr> \<and>
   run_workers demo_ec_lib (benchmark_workers ''prime192v1'' 409 ''prime256v1'' 415) \<lparr>live = [], fresh = 1\<rparr> =
    Inr ([''ECDSA_prime192v1 sign cost: '', ''ECDSA_prime192v1 verify cost: '',
          ''ECDSA_prime256v1 sign cost: '', ''ECDSA_prime256v1 verify cost: ''], \<lparr>live = [], fresh = 7\<rparr>)"
proof -
  have e: "ec_works demo_ec_lib" by (simp add: ec_works_def demo_ec_lib_def)
  have h: "heap_ok \<lparr>live = [], fresh = 1\<rparr>" by (simp add: heap_ok_def)
  show ?thesis
    using benchmark_releases_all [OF e h, of "[(''prime192v1'', 409), (''prime256v1'', 415)]"] e h
    by (simp add: benchmark_workers_ECDSA cost_lines_def)
qed

end
