(* ===== verification/Timers.thy ===== *)
theory Timers
  imports Prelude
begin

text \<open>
  The counting timers of \<open>src/asio/timer/timer3.cpp\<close>, \<open>timer4.cpp\<close> and \<open>timer5.cpp\<close>. Asio is modelled by what it
  documents: \<open>ctx.run()\<close> calls the handler of every wait that is pending and returns when none is,
  and the handlers of one strand never run at the same time, so that those of \<open>timer5\<close> are steps in
  any order. A timer is the time of its expiry; errors of a wait do not occur, since nothing cancels
  it.
\<close>

section \<open>\<open>timer3\<close> and \<open>timer4\<close>\<close>

text \<open>
  One call of the handler: the printed value, the new count, and the expiry of the next wait if
  there is one.
\<close>

definition print3 :: "int \<Rightarrow> int \<Rightarrow> (int \<times> int \<times> int option) checked" where
  "print3 expiry cnt =
     bind_checked (int_add cnt 1) (\<lambda>c. Inr (c, c, if c < 5 then Some (expiry + 1) else None))"

definition print4 :: "int \<Rightarrow> int \<Rightarrow> int \<Rightarrow> (int \<times> int \<times> int option) checked" where
  "print4 interval expiry cnt =
     bind_checked (int_sub cnt 1)
       (\<lambda>c. Inr (cnt, c, if c \<noteq> 0 then Some (expiry + interval) else None))"

text \<open>
  \<open>ctx.run()\<close> with one timer: the times and values printed, and the final count. The fuel bounds the
  number of calls; \<open>None\<close> says that the loop is still running then.
\<close>

fun run_timer :: "(int \<Rightarrow> int \<Rightarrow> (int \<times> int \<times> int option) checked) \<Rightarrow> nat \<Rightarrow> int option \<Rightarrow> int \<Rightarrow>
    ((int \<times> int) list \<times> int) checked option" where
  "run_timer handler fuel None cnt = Some (Inr ([], cnt))"
| "run_timer handler 0 (Some expiry) cnt = None"
| "run_timer handler (Suc fuel) (Some expiry) cnt =
     (case handler expiry cnt of
        Inl e \<Rightarrow> Some (Inl e)
      | Inr (value, cnt', next) \<Rightarrow>
          map_option (\<lambda>r. bind_checked r (\<lambda>(out, final). Inr ((expiry, value) # out, final)))
            (run_timer handler fuel next cnt'))"

definition timer3_main :: "nat \<Rightarrow> ((int \<times> int) list \<times> int) checked option" where
  "timer3_main fuel = run_timer print3 fuel (Some 1) 0"

definition Counter4 :: "nat \<Rightarrow> int \<Rightarrow> int \<Rightarrow> ((int \<times> int) list \<times> int) checked option" where
  "Counter4 fuel interval cnt =
     (if \<not> cnt > 0 then Some (Inl AssertFailed)
      else run_timer (print4 interval) fuel (Some interval) cnt)"

definition timer4_main :: "nat \<Rightarrow> ((int \<times> int) list \<times> int) checked option" where
  "timer4_main fuel = Counter4 fuel 1 3"

section \<open>\<open>timer5\<close>\<close>

record Counter =
  count_left :: int
  interval :: int
  timer1 :: "int option"
  timer2 :: "int option"
  expiry1 :: int
  expiry2 :: int
  printed :: "(nat \<times> int) list"

definition new_Counter :: "int \<Rightarrow> int \<Rightarrow> Counter checked" where
  "new_Counter iv c =
     (if \<not> c > 0 then Inl AssertFailed
      else Inr \<lparr>count_left = c, interval = iv, timer1 = Some iv, timer2 = Some iv, expiry1 = iv, expiry2 = iv,
                printed = []\<rparr>)"

text \<open>The handlers, called when their wait is over (it is not pending any more then).\<close>

definition print1 :: "Counter \<Rightarrow> Counter checked" where
  "print1 s =
     (if count_left s = 0 then Inr s
      else bind_checked (int_sub (count_left s) 1) (\<lambda>c.
        let s1 = s\<lparr>printed := printed s @ [(1, count_left s)], count_left := c\<rparr>
        in Inr (if c \<noteq> 0
             then s1\<lparr>expiry1 := expiry1 s1 + interval s1, timer1 := Some (expiry1 s1 + interval s1)\<rparr>
             else s1)))"

definition print2 :: "Counter \<Rightarrow> Counter checked" where
  "print2 s =
     (if count_left s = 0 then Inr s
      else bind_checked (int_sub (count_left s) 1) (\<lambda>c.
        let s1 = s\<lparr>printed := printed s @ [(2, count_left s)], count_left := c\<rparr>
        in Inr (if c \<noteq> 0
             then s1\<lparr>expiry2 := expiry2 s1 + interval s1, timer2 := Some (expiry2 s1 + interval s1)\<rparr>
             else s1)))"

inductive strand_step :: "Counter checked \<Rightarrow> Counter checked \<Rightarrow> bool" where
  fire1: "timer1 s \<noteq> None \<Longrightarrow> strand_step (Inr s) (print1 (s\<lparr>timer1 := None\<rparr>))"
| fire2: "timer2 s \<noteq> None \<Longrightarrow> strand_step (Inr s) (print2 (s\<lparr>timer2 := None\<rparr>))"

definition strand_init :: "int \<Rightarrow> int \<Rightarrow> Counter checked \<Rightarrow> bool" where
  "strand_init iv c r \<longleftrightarrow> r = new_Counter iv c"

inductive_simps strand_step_Inr: "strand_step (Inr s) r"

section \<open>Counting down\<close>

definition strand_ok :: "int \<Rightarrow> Counter \<Rightarrow> bool" where
  "strand_ok n s \<longleftrightarrow> 0 \<le> count_left s \<and> count_left s \<le> n \<and> in_int n \<and>
     map snd (printed s) = rev [count_left s + 1..n] \<and>
     (count_left s > 0 \<longrightarrow> timer1 s \<noteq> None \<and> timer2 s \<noteq> None)"

definition strand_inv :: "int \<Rightarrow> Counter checked \<Rightarrow> bool" where
  "strand_inv n r = (case r of Inl _ \<Rightarrow> False | Inr s \<Rightarrow> strand_ok n s)"

text \<open>Every call of a handler makes this smaller, so that a run ends.\<close>

definition work_left :: "Counter \<Rightarrow> nat" where
  "work_left s = 2 * nat (count_left s) + (if timer1 s = None then 0 else 1) + (if timer2 s = None then 0 else 1)"

lemma countdown_snoc: "0 < c \<Longrightarrow> c \<le> n \<Longrightarrow> rev [c..n] = rev [c + 1..n] @ [c :: int]"
  by (simp add: upto_rec1)

lemma in_int_pred: "0 < c \<Longrightarrow> c \<le> n \<Longrightarrow> in_int n \<Longrightarrow> int_sub c 1 = Inr (c - 1)"
  by (simp add: int_sub_def int_range)

lemma print1_ok:
  assumes "strand_ok n s" "timer1 s \<noteq> None"
  shows "\<exists>t. print1 (s\<lparr>timer1 := None\<rparr>) = Inr t \<and> strand_ok n t \<and> work_left t < work_left s"
  using assms countdown_snoc [of "count_left s" n] in_int_pred [of "count_left s" n]
  by (cases "count_left s = 0") (auto simp: print1_def strand_ok_def work_left_def Let_def)

lemma print2_ok:
  assumes "strand_ok n s" "timer2 s \<noteq> None"
  shows "\<exists>t. print2 (s\<lparr>timer2 := None\<rparr>) = Inr t \<and> strand_ok n t \<and> work_left t < work_left s"
  using assms countdown_snoc [of "count_left s" n] in_int_pred [of "count_left s" n]
  by (cases "count_left s = 0") (auto simp: print2_def strand_ok_def work_left_def Let_def)

lemma strand_step_ok:
  assumes "strand_ok n s" "strand_step (Inr s) r"
  shows "\<exists>t. r = Inr t \<and> strand_ok n t \<and> work_left t < work_left s"
  using assms print1_ok print2_ok by (auto simp: strand_step_Inr)

lemma strand_inv_init: "strand_init iv n r \<and> 0 < n \<and> in_int n \<Longrightarrow> strand_inv n r"
  by (auto simp: strand_init_def new_Counter_def strand_inv_def strand_ok_def)

lemma strand_inv_step: "strand_inv n r \<Longrightarrow> strand_step r r' \<Longrightarrow> strand_inv n r'"
  using strand_step_ok by (fastforce simp: strand_inv_def split: sum.splits)

interpretation countdown: invariant_system "strand_init iv n" strand_step "\<lambda>r. 0 < n \<and> in_int n \<longrightarrow> strand_inv n r"
  for iv n
  by unfold_locales (blast intro: strand_inv_init strand_inv_step)+

text \<open>The single timers.\<close>

lemma run_timer4:
  assumes "0 < c" "in_int c"
  shows "run_timer (print4 iv) (nat c) (Some e) c =
    Some (Inr (map (\<lambda>k. (e + int k * iv, c - int k)) [0..<nat c], 0))"
  using assms
proof (induction "nat c" arbitrary: c e)
  case (Suc m)
  have sub: "int_sub c 1 = Inr (c - 1)" using Suc.prems by (intro in_int_pred [of c c]) simp_all
  have m: "nat c = Suc m" "m = nat (c - 1)" using Suc.hyps(2) by simp_all
  show ?case
  proof (cases "c = 1")
    case True
    then show ?thesis by (simp add: print4_def sub m(1)) (use True sub in simp)
  next
    case False
    then have "0 < c - 1" "in_int (c - 1)" using Suc.prems by (simp_all add: int_range)
    from Suc.hyps(1) [OF m(2) this, of "e + iv"]
    have IH: "run_timer (print4 iv) m (Some (e + iv)) (c - 1) =
      Some (Inr (map (\<lambda>k. (e + iv + int k * iv, c - 1 - int k)) [0..<m], 0))" by (simp add: m(2) [symmetric])
    have "map (\<lambda>k. (e + int k * iv, c - int k)) [0..<Suc m] =
        (e, c) # map (\<lambda>k. (e + iv + int k * iv, c - 1 - int k)) [0..<m]"
      by (simp add: upt_conv_Cons map_Suc_upt [symmetric] algebra_simps comp_def del: upt_Suc)
    then show ?thesis using False by (simp add: m(1) print4_def sub IH del: upt_Suc)
  qed
qed simp

text \<open>
  \<open>timer3\<close> counts to five in five calls; \<open>timer4\<close> counts down from any positive number, one value at
  each multiple of its interval.
\<close>

lemma timer3_counts_to_five:
  "timer3_main 5 = Some (Inr ([(1, 1), (2, 2), (3, 3), (4, 4), (5, 5)], 5))"
  by (simp add: timer3_main_def print3_def int_ops int_range to_int_def numeral_eq_Suc)

lemma timer4_counts_down:
  "0 < c \<Longrightarrow> in_int c \<Longrightarrow>
   Counter4 (nat c) iv c = Some (Inr (map (\<lambda>k. (iv + int k * iv, c - int k)) [0..<nat c], 0))"
  by (simp add: Counter4_def run_timer4)

section \<open>Properties\<close>

text \<open>
  Whatever the order in which the two timers of \<open>timer5\<close> fire, the values \<open>n\<close> down to 1 are printed, in
  this order and each once: every state reached has printed those above its count, every call of a
  handler leaves less to do, and when no wait is pending the count is 0.
\<close>

lemma strand_counts_down:
  assumes "0 < n" "in_int n" "reachable (strand_init iv n) strand_step r"
  shows "\<exists>s. r = Inr s \<and> map snd (printed s) = rev [count_left s + 1..n] \<and>
    (\<forall>r'. strand_step r r' \<longrightarrow> (\<exists>t. r' = Inr t \<and> work_left t < work_left s)) \<and>
    ((\<forall>r'. \<not> strand_step r r') \<longrightarrow> count_left s = 0 \<and> map snd (printed s) = rev [1..n])"
proof -
  obtain s where s: "r = Inr s" and ok: "strand_ok n s"
    using countdown.reachable_inv [OF assms(3)] assms(1,2) by (auto simp: strand_inv_def split: sum.splits)
  have "count_left s = 0" if "\<forall>r'. \<not> strand_step r r'"
  proof -
    have "timer1 s = None" using that fire1 [of s] s by blast
    then show ?thesis using ok by (auto simp: strand_ok_def)
  qed
  moreover have "\<forall>r'. strand_step r r' \<longrightarrow> (\<exists>t. r' = Inr t \<and> work_left t < work_left s)"
    using strand_step_ok [OF ok] s by blast
  moreover have "map snd (printed s) = rev [count_left s + 1..n]" using ok by (simp add: strand_ok_def)
  ultimately show ?thesis using s by auto
qed

lemma strand_counts_down_witness:
  "\<exists>s. new_Counter 1 10 = Inr s \<and> map snd (printed s) = rev [count_left s + 1..10] \<and>
     (\<forall>r'. strand_step (new_Counter 1 10) r' \<longrightarrow> (\<exists>t. r' = Inr t \<and> work_left t < work_left s))"
proof -
  have "reachable (strand_init 1 10) strand_step (new_Counter 1 10)"
    by (rule reachable_init) (simp add: strand_init_def)
  from strand_counts_down [OF _ _ this] show ?thesis by (auto simp: int_range)
qed

end
