(* ===== verification/Timer_Pool.thy ===== *)
theory Timer_Pool
  imports Timers
begin

text \<open>
  \<open>src/asio/timer/timer5.cpp\<close> with its two threads: \<open>main\<close> lets a pool of two threads call \<open>ctx.run()\<close> on one context and waits for both. The handlers
  \<open>print1\<close> and \<open>print2\<close> are taken statement by statement here, so that without the strand the two threads could interleave inside
  them; the strand is asio's, which starts a handler only when none of its handlers runs. \<open>run\<close> returns in a thread when no
  wait is pending and no handler runs. The theory \<open>Timers\<close> has the handlers as atomic steps; the pool implements that.
\<close>

section \<open>The threads\<close>

datatype which = First | Second

datatype statement = AtTest | AtPrint | AtDecrement | AtRearm

datatype thread_pc = InRun | InHandler which statement | RunReturned

record pool =
  counter :: Counter
  expired :: "which \<Rightarrow> bool"
  threads :: "nat \<Rightarrow> thread_pc"
  strand :: "nat option"
  overflowed :: bool
  finished :: bool

definition n_threads :: nat where
  "n_threads = 2"

fun pending :: "which \<Rightarrow> Counter \<Rightarrow> bool" where
  "pending First c = (timer1 c \<noteq> None)"
| "pending Second c = (timer2 c \<noteq> None)"

fun clear :: "which \<Rightarrow> Counter \<Rightarrow> Counter" where
  "clear First c = c\<lparr>timer1 := None\<rparr>"
| "clear Second c = c\<lparr>timer2 := None\<rparr>"

fun rearm :: "which \<Rightarrow> Counter \<Rightarrow> Counter" where
  "rearm First c = c\<lparr>expiry1 := expiry1 c + interval c, timer1 := Some (expiry1 c + interval c)\<rparr>"
| "rearm Second c = c\<lparr>expiry2 := expiry2 c + interval c, timer2 := Some (expiry2 c + interval c)\<rparr>"

fun print_line :: "which \<Rightarrow> Counter \<Rightarrow> Counter" where
  "print_line First c = c\<lparr>printed := printed c @ [(1, count_left c)]\<rparr>"
| "print_line Second c = c\<lparr>printed := printed c @ [(2, count_left c)]\<rparr>"

definition leave :: "nat \<Rightarrow> pool \<Rightarrow> pool" where
  "leave t x = x\<lparr>threads := (threads x)(t := InRun), strand := None\<rparr>"

definition goto :: "nat \<Rightarrow> which \<Rightarrow> statement \<Rightarrow> pool \<Rightarrow> pool" where
  "goto t w st x = x\<lparr>threads := (threads x)(t := InHandler w st)\<rparr>"

inductive pool_step :: "pool \<Rightarrow> pool \<Rightarrow> bool" where
  expires: "pending w (counter x) \<Longrightarrow> \<not> expired x w \<Longrightarrow> pool_step x (x\<lparr>expired := (expired x)(w := True)\<rparr>)"
| begins: "t < n_threads \<Longrightarrow> threads x t = InRun \<Longrightarrow> strand x = None \<Longrightarrow> pending w (counter x) \<Longrightarrow> expired x w \<Longrightarrow>
     \<not> overflowed x \<Longrightarrow>
     pool_step x (goto t w AtTest (x\<lparr>counter := clear w (counter x), expired := (expired x)(w := False), strand := Some t\<rparr>))"
| test_zero: "threads x t = InHandler w AtTest \<Longrightarrow> count_left (counter x) = 0 \<Longrightarrow> pool_step x (leave t x)"
| test_more: "threads x t = InHandler w AtTest \<Longrightarrow> count_left (counter x) \<noteq> 0 \<Longrightarrow> pool_step x (goto t w AtPrint x)"
| prints: "threads x t = InHandler w AtPrint \<Longrightarrow>
     pool_step x (goto t w AtDecrement (x\<lparr>counter := print_line w (counter x)\<rparr>))"
| decrements: "threads x t = InHandler w AtDecrement \<Longrightarrow> int_sub (count_left (counter x)) 1 = Inr k \<Longrightarrow> k \<noteq> 0 \<Longrightarrow>
     pool_step x (goto t w AtRearm (x\<lparr>counter := (counter x)\<lparr>count_left := k\<rparr>\<rparr>))"
| decrements_last: "threads x t = InHandler w AtDecrement \<Longrightarrow> int_sub (count_left (counter x)) 1 = Inr 0 \<Longrightarrow>
     pool_step x (leave t (x\<lparr>counter := (counter x)\<lparr>count_left := 0\<rparr>\<rparr>))"
| overflows: "threads x t = InHandler w AtDecrement \<Longrightarrow> int_sub (count_left (counter x)) 1 = Inl e \<Longrightarrow>
     pool_step x (leave t (x\<lparr>overflowed := True\<rparr>))"
| rearms: "threads x t = InHandler w AtRearm \<Longrightarrow> pool_step x (leave t (x\<lparr>counter := rearm w (counter x)\<rparr>))"
| run_returns: "t < n_threads \<Longrightarrow> threads x t = InRun \<Longrightarrow> strand x = None \<Longrightarrow> \<not> pending First (counter x) \<Longrightarrow>
     \<not> pending Second (counter x) \<Longrightarrow> pool_step x (x\<lparr>threads := (threads x)(t := RunReturned)\<rparr>)"
| joined: "\<forall>t < n_threads. threads x t = RunReturned \<Longrightarrow> \<not> finished x \<Longrightarrow> pool_step x (x\<lparr>finished := True\<rparr>)"

definition pool_init :: "int \<Rightarrow> int \<Rightarrow> pool \<Rightarrow> bool" where
  "pool_init iv n x \<longleftrightarrow> (\<exists>c. new_Counter iv n = Inr c \<and>
     x = \<lparr>counter = c, expired = (\<lambda>_. False), threads = (\<lambda>_. InRun), strand = None, overflowed = False, finished = False\<rparr>)"

text \<open>\<open>main\<close> starts with an interval of one second and a count of ten.\<close>

definition timer5_main :: "pool \<Rightarrow> bool" where
  "timer5_main = pool_init 1 10"

section \<open>The pool implements the strand\<close>

text \<open>The state as it will be when the handler that runs has ended.\<close>

definition finish_decrement :: "which \<Rightarrow> Counter \<Rightarrow> Counter checked" where
  "finish_decrement w c = bind_checked (int_sub (count_left c) 1) (\<lambda>k.
     let c1 = c\<lparr>count_left := k\<rparr> in Inr (if k \<noteq> 0 then rearm w c1 else c1))"

fun finish :: "which \<Rightarrow> statement \<Rightarrow> Counter \<Rightarrow> Counter checked" where
  "finish w AtRearm c = Inr (rearm w c)"
| "finish w AtDecrement c = finish_decrement w c"
| "finish w AtPrint c = finish_decrement w (print_line w c)"
| "finish w AtTest c = (if count_left c = 0 then Inr c else finish_decrement w (print_line w c))"

definition strand_of :: "pool \<Rightarrow> Counter checked" where
  "strand_of x =
     (case strand x of
        None \<Rightarrow> if overflowed x then Inl SignedOverflow else Inr (counter x)
      | Some t \<Rightarrow> (case threads x t of InHandler w st \<Rightarrow> finish w st (counter x) | _ \<Rightarrow> Inr (counter x)))"

lemma finish_handler:
  "finish First AtTest c = print1 c" "finish Second AtTest c = print2 c"
  by (cases c; cases "int_sub (count_left c) 1"; simp add: print1_def print2_def finish_decrement_def Let_def)+

lemma handler_fires: "pending w c \<Longrightarrow> strand_step (Inr c) (finish w AtTest (clear w c))"
  using fire1 [of c] fire2 [of c] by (cases w) (simp_all add: finish_handler del: finish.simps)

text \<open>Only the thread that holds the strand is inside a handler.\<close>

fun in_handler :: "thread_pc \<Rightarrow> bool" where
  "in_handler (InHandler w st) = True"
| "in_handler p = False"

lemma in_handlerE: "in_handler p \<Longrightarrow> (\<And>w st. p = InHandler w st \<Longrightarrow> P) \<Longrightarrow> P"
  by (cases p) auto

definition pool_inv :: "pool \<Rightarrow> bool" where
  "pool_inv x \<longleftrightarrow> (\<forall>t. in_handler (threads x t) \<longleftrightarrow> strand x = Some t) \<and>
     (\<forall>t. threads x t = RunReturned \<longrightarrow> strand x = None \<and> \<not> pending First (counter x) \<and> \<not> pending Second (counter x)) \<and>
     (finished x \<longrightarrow> (\<forall>t < n_threads. threads x t = RunReturned)) \<and>
     (\<forall>t. strand x = Some t \<longrightarrow> t < n_threads \<and> \<not> overflowed x) \<and> (\<forall>w. expired x w \<longrightarrow> pending w (counter x))"

lemma int_sub_error: "int_sub a b = Inl e \<Longrightarrow> e = SignedOverflow"
  by (auto simp: int_ops to_int_def split: if_splits)

lemma holder: "pool_inv x \<Longrightarrow> threads x t = InHandler w st \<Longrightarrow> strand x = Some t"
  unfolding pool_inv_def by (metis in_handler.simps(1))

lemma pending_rearm [simp]: "pending v (rearm w c) \<longleftrightarrow> v = w \<or> pending v c"
  by (cases v; cases w) auto

lemma pending_clear [simp]: "pending v (clear w c) \<longleftrightarrow> v \<noteq> w \<and> pending v c"
  by (cases v; cases w) auto

lemma pending_other [simp]: "pending v (print_line w c) = pending v c" "pending v (c\<lparr>count_left := k\<rparr>) = pending v c"
  by (cases v; cases w; simp)+

lemmas pool_moves = leave_def goto_def

lemma busy:
  assumes "pool_inv x" "threads x t = InHandler w st"
  shows "strand x = Some t" "t < n_threads" "\<not> overflowed x" "\<not> finished x" "\<And>u. threads x u \<noteq> RunReturned"
    "\<And>u. in_handler (threads x u) \<longleftrightarrow> u = t"
proof -
  show st: "strand x = Some t" by (rule holder [OF assms])
  show t: "t < n_threads" "\<not> overflowed x" "\<And>u. threads x u \<noteq> RunReturned" "\<And>u. in_handler (threads x u) \<longleftrightarrow> u = t"
    using assms(1) st by (auto simp: pool_inv_def)
  show "\<not> finished x" using assms(1) t(1,3) by (auto simp: pool_inv_def)
qed

lemma leave_inv:
  assumes inv: "pool_inv x" and t: "threads x t = InHandler w st" and "\<forall>v. pending v (counter x) \<longrightarrow> pending v c"
  shows "pool_inv (leave t (x\<lparr>counter := c, overflowed := o'\<rparr>))"
  using inv assms(3) busy [OF inv t] by (auto simp: pool_inv_def [of "leave t _"] leave_def) (auto simp: pool_inv_def)

lemma goto_inv:
  assumes inv: "pool_inv x" and t: "threads x t = InHandler w st" and "\<forall>v. pending v (counter x) \<longrightarrow> pending v c"
  shows "pool_inv (goto t w st' (x\<lparr>counter := c\<rparr>))"
  using inv assms(3) busy [OF inv t] by (auto simp: pool_inv_def [of "goto t _ _ _"] goto_def) (auto simp: pool_inv_def)

lemma pool_inv_step:
  assumes inv: "pool_inv x" and step: "pool_step x y"
  shows "pool_inv y"
  using step
proof cases
  case (begins t w)
  then have "\<forall>u. threads x u \<noteq> RunReturned" using inv by (cases w) (auto simp: pool_inv_def)
  then show ?thesis using begins inv by (auto simp: pool_inv_def pool_moves split: if_splits)
next
  case (test_zero t w)
  then show ?thesis using leave_inv [OF inv test_zero(2), of "counter x" "overflowed x"] by simp
next
  case (test_more t w)
  then show ?thesis using goto_inv [OF inv test_more(2), of "counter x"] by simp
next
  case (prints t w)
  then show ?thesis using goto_inv [OF inv prints(2)] by simp
next
  case (decrements t w k)
  then show ?thesis using goto_inv [OF inv decrements(2)] by simp
next
  case (decrements_last t w)
  then show ?thesis
    using leave_inv [OF inv decrements_last(2), of "(counter x)\<lparr>count_left := 0\<rparr>" "overflowed x"] by simp
next
  case (overflows t w e)
  then show ?thesis using leave_inv [OF inv overflows(2), of "counter x" True] by simp
next
  case (rearms t w)
  then show ?thesis using leave_inv [OF inv rearms(2), of "rearm w (counter x)" "overflowed x"] by simp
qed (use inv in \<open>auto simp: pool_inv_def\<close>)

text \<open>The beginning of a handler is the step of the strand; what follows it has been seen already.\<close>

lemma pool_view_step:
  assumes inv: "pool_inv x" and step: "pool_step x y"
  shows "strand_step (strand_of x) (strand_of y) \<or> strand_of y = strand_of x"
  using step
proof cases
  case (begins t w)
  then show ?thesis using handler_fires [of w "counter x"] by (simp add: strand_of_def pool_moves)
next
  case (test_zero t w)
  then show ?thesis using busy [OF inv test_zero(2)] by (simp add: strand_of_def pool_moves)
next
  case (test_more t w)
  then show ?thesis using busy [OF inv test_more(2)] by (simp add: strand_of_def pool_moves)
next
  case (prints t w)
  then show ?thesis using busy [OF inv prints(2)] by (simp add: strand_of_def pool_moves)
next
  case (decrements t w k)
  then show ?thesis using busy [OF inv decrements(2)] by (simp add: strand_of_def pool_moves finish_decrement_def Let_def)
next
  case (decrements_last t w)
  then show ?thesis using busy [OF inv decrements_last(2)] by (simp add: strand_of_def pool_moves finish_decrement_def Let_def)
next
  case (overflows t w e)
  then show ?thesis using busy [OF inv overflows(2)] int_sub_error [OF overflows(3)]
    by (simp add: strand_of_def pool_moves finish_decrement_def)
next
  case (rearms t w)
  then show ?thesis using busy [OF inv rearms(2)] by (simp add: strand_of_def pool_moves)
qed (simp_all add: strand_of_def split: option.splits thread_pc.splits)

interpretation pool: refinement_mapping "pool_init iv n" pool_step pool_inv "strand_init iv n" strand_step strand_of
  for iv n
proof
  show "pool_inv x" if "pool_init iv n x" for x
    using that by (auto simp: pool_init_def pool_inv_def new_Counter_def n_threads_def)
  show "strand_init iv n (strand_of x)" if "pool_init iv n x" for x
    using that by (auto simp: pool_init_def strand_of_def strand_init_def)
qed (rule pool_inv_step pool_view_step; assumption)+

section \<open>The run ends\<close>

text \<open>Every step, of any thread, makes this smaller.\<close>

fun statement_work :: "statement \<Rightarrow> nat" where
  "statement_work AtTest = 4"
| "statement_work AtPrint = 3"
| "statement_work AtDecrement = 2"
| "statement_work AtRearm = 7"

fun thread_work :: "thread_pc \<Rightarrow> nat" where
  "thread_work InRun = 1"
| "thread_work (InHandler w st) = 1 + statement_work st"
| "thread_work RunReturned = 0"

definition wait_work :: "pool \<Rightarrow> which \<Rightarrow> nat" where
  "wait_work x w = (if \<not> pending w (counter x) then 0 else if expired x w then 5 else 6)"

definition pool_work :: "pool \<Rightarrow> nat" where
  "pool_work x = 6 * nat (count_left (counter x)) + wait_work x First + wait_work x Second +
     thread_work (threads x 0) + thread_work (threads x 1) + (if finished x then 0 else 1)"

lemma count_left_moves [simp]:
  "count_left (clear w c) = count_left c" "count_left (rearm w c) = count_left c" "count_left (print_line w c) = count_left c"
  by (cases w; simp)+

lemma below_n_threads: "t < n_threads \<longleftrightarrow> t = 0 \<or> t = 1"
  by (auto simp: n_threads_def)

text \<open>What the strand guarantees, seen from the pool.\<close>

lemma pool_strand_inv:
  assumes "in_int n" "reachable (pool_init iv n) pool_step x"
  shows "strand_inv n (strand_of x)"
proof -
  have "0 < n"
    using assms(2) by (induction rule: reachable.induct) (auto simp: pool_init_def new_Counter_def split: if_splits)
  then show ?thesis using countdown.reachable_inv [OF pool.view_reachable [OF assms(2)]] assms(1) by blast
qed

lemma decrement_ok:
  assumes "pool_inv x" "strand_inv n (strand_of x)" "threads x t = InHandler w AtDecrement"
  shows "\<exists>k. int_sub (count_left (counter x)) 1 = Inr k \<and> 0 \<le> k \<and> k = count_left (counter x) - 1"
proof -
  have "strand_inv n (finish_decrement w (counter x))"
    using assms holder [OF assms(1,3)] by (simp add: strand_of_def)
  then show ?thesis
    by (auto simp: finish_decrement_def strand_inv_def strand_ok_def Let_def int_ops to_int_def split: if_splits)
qed

lemma pool_step_works:
  assumes inv: "pool_inv x" and ok: "strand_inv n (strand_of x)" and step: "pool_step x y"
  shows "pool_work y < pool_work x"
proof -
  have t: "t < n_threads" if "threads x t = InHandler w st" for t w st
    using inv holder [OF inv that] by (simp add: pool_inv_def)
  show ?thesis
    using step
  proof cases
    case (expires w)
    then show ?thesis by (cases w) (auto simp: pool_work_def wait_work_def)
  next
    case (begins t w)
    then show ?thesis by (cases w) (auto simp: pool_work_def wait_work_def pool_moves below_n_threads)
  next
    case (rearms t w)
    then show ?thesis using t [OF rearms(2)]
      by (cases w) (auto simp: pool_work_def wait_work_def pool_moves below_n_threads)
  next
    case (joined)
    then show ?thesis by (simp add: pool_work_def wait_work_def)
  next
    case (decrements t w k)
    then show ?thesis using t [OF decrements(2)] decrement_ok [OF inv ok decrements(2)]
      by (auto simp: pool_work_def wait_work_def pool_moves below_n_threads)
  next
    case (decrements_last t w)
    then show ?thesis using t [OF decrements_last(2)] decrement_ok [OF inv ok decrements_last(2)]
      by (auto simp: pool_work_def wait_work_def pool_moves below_n_threads)
  next
    case (overflows t w e)
    then show ?thesis using decrement_ok [OF inv ok overflows(2)] by simp
  next
    case (run_returns t)
    then show ?thesis by (auto simp: pool_work_def wait_work_def below_n_threads)
  next
    case (test_zero t w)
    then show ?thesis using t [OF test_zero(2)] by (auto simp: pool_work_def wait_work_def pool_moves below_n_threads)
  next
    case (test_more t w)
    then show ?thesis using t [OF test_more(2)] by (auto simp: pool_work_def wait_work_def pool_moves below_n_threads)
  next
    case (prints t w)
    then show ?thesis using t [OF prints(2)] by (auto simp: pool_work_def wait_work_def pool_moves below_n_threads)
  qed
qed

lemma no_overflow:
  assumes "pool_inv x" "strand_inv n (strand_of x)"
  shows "\<not> overflowed x"
  using assms by (cases "strand x") (auto simp: strand_of_def strand_inv_def pool_inv_def)

text \<open>A thread inside a handler can always go on; outside of one, a wait, a thread or \<open>main\<close> can.\<close>

lemma handler_goes_on:
  assumes "pool_inv x" "strand_inv n (strand_of x)" "threads x t = InHandler w st"
  shows "\<exists>y. pool_step x y"
proof (cases st)
  case AtDecrement
  then show ?thesis using decrement_ok [OF assms(1,2), of t w] assms(3) decrements decrements_last by metis
qed (use assms(3) in \<open>blast intro: pool_step.intros\<close>)+

lemma pool_goes_on:
  assumes inv: "pool_inv x" and ok: "strand_inv n (strand_of x)" and "\<not> finished x"
  shows "\<exists>y. pool_step x y"
proof (cases "strand x")
  case (Some t)
  then have "in_handler (threads x t)" using inv by (simp add: pool_inv_def)
  then show ?thesis by (blast elim: in_handlerE intro: handler_goes_on [OF inv ok])
next
  case None
  have state: "threads x t = InRun \<or> threads x t = RunReturned \<and> \<not> pending First (counter x) \<and> \<not> pending Second (counter x)" for t
    using inv None busy(1) [OF inv, of t] by (cases "threads x t") (auto simp: pool_inv_def)
  show ?thesis
  proof (cases "\<exists>w. pending w (counter x)")
    case True
    then obtain w where w: "pending w (counter x)" by blast
    then have "threads x 0 = InRun" using state [of 0] by (cases w) auto
    then show ?thesis using w None no_overflow [OF inv ok] expires begins [of 0 x w]
      by (cases "expired x w") (auto simp: n_threads_def)
  next
    case False
    then show ?thesis using None assms(3) state run_returns [of _ x] joined [of x] by metis
  qed
qed

lemma pool_finished:
  assumes inv: "pool_inv x" and ok: "strand_inv n (strand_of x)" and "finished x"
  shows "count_left (counter x) = 0 \<and> map snd (printed (counter x)) = rev [1..n]"
proof -
  have "threads x 0 = RunReturned" using inv assms(3) by (simp add: pool_inv_def n_threads_def)
  then have "strand x = None" "\<not> pending First (counter x)" using inv by (auto simp: pool_inv_def)
  then show ?thesis using ok no_overflow [OF inv ok] by (auto simp: strand_of_def strand_inv_def strand_ok_def)
qed

section \<open>Properties\<close>

text \<open>
  C20: \<open>timer5\<close> with its pool of two threads, the handlers taken statement by statement: in every interleaving at most one thread is
  inside a handler, so that what the pool does is what atomic handlers would do; the count is never decremented below the range
  of \<open>int\<close>; \<open>main\<close> is never stuck before it prints \<open>finished\<close> and every step leaves less to do, so that it does print it; and then
  the values \<open>n\<close> down to 1 have been printed, in this order and each once.
\<close>
theorem timer_pool_finishes:
  assumes "in_int n" "reachable (pool_init iv n) pool_step x"
  shows "(\<forall>t u. in_handler (threads x t) \<and> in_handler (threads x u) \<longrightarrow> t = u) \<and> \<not> overflowed x \<and>
    (\<forall>y. pool_step x y \<longrightarrow> pool_work y < pool_work x \<and>
       (strand_step (strand_of x) (strand_of y) \<or> strand_of y = strand_of x)) \<and>
    (\<not> finished x \<longrightarrow> (\<exists>y. pool_step x y)) \<and>
    (finished x \<longrightarrow> count_left (counter x) = 0 \<and> map snd (printed (counter x)) = rev [1..n])"
proof -
  have inv: "pool_inv x" by (rule pool.reachable_inv [OF assms(2)])
  have ok: "strand_inv n (strand_of x)" by (rule pool_strand_inv [OF assms])
  have "t = u" if "in_handler (threads x t)" "in_handler (threads x u)" for t u
    using inv that by (metis pool_inv_def option.inject)
  then show ?thesis
    using no_overflow [OF inv ok] pool_step_works [OF inv ok] pool_view_step [OF inv] pool_goes_on [OF inv ok]
      pool_finished [OF inv ok] by blast
qed

text \<open>\<open>main\<close> itself, with its interval of one second and its count of ten.\<close>

theorem timer_pool_finishes_witness:
  "\<exists>x. timer5_main x \<and> \<not> overflowed x \<and> \<not> finished x \<and> (\<exists>y. pool_step x y)"
proof -
  obtain x where x: "timer5_main x" "\<not> finished x"
    by (auto simp: timer5_main_def pool_init_def new_Counter_def)
  then have "reachable (pool_init 1 10) pool_step x" by (intro reachable_init) (simp add: timer5_main_def)
  from timer_pool_finishes [OF _ this] x show ?thesis by (auto simp: int_range)
qed

end
