(* ===== verification/Echo_Client.thy ===== *)
theory Echo_Client
  imports Prelude
begin

text \<open>
  The interactive client of \<open>src/asio/allocation/client.cpp\<close>: its error category, \<open>talkToServer\<close>,
  \<open>readFromServer\<close> and the loop of \<open>main\<close>. The line typed, and what \<open>write_some\<close> and \<open>read_some\<close> return, are
  the inputs of a round; an exception ends the run. \<open>StrCat\<close> is Abseil's, given the number as text.
\<close>

section \<open>Errors\<close>

datatype CustomErrorCode = noError | clientQuit | serverQuit

fun code :: "CustomErrorCode \<Rightarrow> int" where
  "code noError = 0"
| "code clientQuit = 1"
| "code serverQuit = 2"

definition category_name :: string where
  "category_name = ''CustomErrorCategory''"

definition message :: "(string list \<Rightarrow> string) \<Rightarrow> (int \<Rightarrow> string) \<Rightarrow> int \<Rightarrow> string" where
  "message StrCat show_int value =
     (if value = 0 then ''no error''
      else if value = code clientQuit then ''client quit''
      else if value = code serverQuit then ''server quit''
      else StrCat [''unspecified '', category_name, '' error: '', show_int value])"

text \<open>An \<open>error_condition\<close>: its value and whether its category is the custom one.\<close>

type_synonym CustomError = "int \<times> bool"

definition default_error :: CustomError where
  "default_error = (0, False)"

definition make_error_condition :: "CustomErrorCode \<Rightarrow> CustomError" where
  "make_error_condition ec = (code ec, True)"

definition is_error :: "CustomError \<Rightarrow> bool" where
  "is_error e \<longleftrightarrow> fst e \<noteq> 0"

section \<open>One exchange\<close>

text \<open>The results of the socket: the number of bytes written, the bytes read; \<open>None\<close> and \<open>ReadFailed\<close> are errors.\<close>

datatype read_result = Data string | Eof | ReadFailed

definition talkToServer :: "string \<Rightarrow> nat option \<Rightarrow> CustomError \<Rightarrow> (CustomError \<times> string list) option" where
  "talkToServer line written error =
     (if length line = 0 then Some (make_error_condition clientQuit, [])
      else case written of
        None \<Rightarrow> None
      | Some n \<Rightarrow> Some (error, [take n line]))"

definition readFromServer :: "read_result \<Rightarrow> CustomError \<Rightarrow> (CustomError \<times> string) option" where
  "readFromServer r error =
     (case r of
        Eof \<Rightarrow> Some (make_error_condition serverQuit, '''')
      | ReadFailed \<Rightarrow> None
      | Data bytes \<Rightarrow> Some (error, bytes))"

section \<open>The program\<close>

datatype client_log = Connected string | ServerSays string | ClientQuit | ServerQuit | ErrorLine string

datatype ending = Returned int | Thrown | AssertionFailed | Waiting

type_synonym round = "string \<times> nat option \<times> read_result"

fun chat :: "(int \<Rightarrow> string) \<Rightarrow> CustomError \<Rightarrow> round list \<Rightarrow> string list \<times> client_log list \<times> ending" where
  "chat msg error [] = ([], [], Waiting)"
| "chat msg error ((line, w, r) # rounds) =
     (case talkToServer line w error of
        None \<Rightarrow> ([], [], Thrown)
      | Some (error1, sent) \<Rightarrow>
          if make_error_condition clientQuit = error1 then (sent, [ClientQuit], Returned 0)
          else if is_error error1 then (sent, [ErrorLine (msg (fst error1))], AssertionFailed)
          else case readFromServer r error1 of
            None \<Rightarrow> (sent, [], Thrown)
          | Some (error2, text) \<Rightarrow>
              if make_error_condition serverQuit = error2 then (sent, [ServerQuit], Returned 0)
              else if is_error error2 then (sent, [ErrorLine (msg (fst error2))], AssertionFailed)
              else let (sents, log, e) = chat msg error2 rounds in (sent @ sents, ServerSays text # log, e))"

text \<open>An exception is caught in \<open>main\<close>, which prints it and returns 0.\<close>

definition catch :: "ending \<Rightarrow> ending" where
  "catch e = (if e = Thrown then Returned 0 else e)"

definition echo_main :: "(int \<Rightarrow> string) \<Rightarrow> nat \<Rightarrow> bool \<Rightarrow> read_result \<Rightarrow> round list \<Rightarrow>
    string list \<times> client_log list \<times> ending" where
  "echo_main msg argc connected hello rounds =
     (if argc \<noteq> 3 then ([], [], Returned 1)
      else if \<not> connected then ([], [], Returned 0)
      else case readFromServer hello default_error of
        None \<Rightarrow> ([], [], Returned 0)
      | Some (error, server_hello) \<Rightarrow>
          if is_error error then ([], [], AssertionFailed)
          else let (sent, log, e) = chat msg error rounds in (sent, Connected server_hello # log, catch e))"

section \<open>Lemmas\<close>

lemmas chat_defs = talkToServer_def readFromServer_def make_error_condition_def is_error_def default_error_def

definition exchange :: "string \<times> string \<Rightarrow> round" where
  "exchange p = (fst p, Some (length (fst p)), Data (snd p))"

lemma chat_exchanges:
  assumes "\<forall>p \<in> set ps. fst p \<noteq> []"
  shows "chat msg default_error (map exchange ps @ rounds) =
    (let (sent, log, e) = chat msg default_error rounds
     in (map fst ps @ sent, map (ServerSays \<circ> snd) ps @ log, e))"
  using assms
  by (induction ps) (simp_all add: chat_defs exchange_def Let_def split: prod.split)

lemma chat_asserts: "snd (snd (chat msg default_error rounds)) \<noteq> AssertionFailed"
proof (induction rounds)
  case (Cons a rounds)
  obtain line w r where a: "a = (line, w, r)" by (cases a)
  then show ?case using Cons
    by (cases "line = []"; cases w; cases r) (auto simp: chat_defs split: prod.split)
qed simp

section \<open>Properties\<close>

text \<open>
  A conversation in which every line typed is not empty, is written whole and is answered sends
  these lines and prints these answers, each once and in order; it ends with a return of 0 when an
  empty line is typed, or when the server closes the connection. The assertions in the loop never fail.
\<close>

lemma echo_conversation:
  assumes "\<forall>p \<in> set ps. fst p \<noteq> []"
  shows "echo_main msg 3 True (Data hello) (map exchange ps @ ('''', w, r) # rest) =
      (map fst ps, Connected hello # map (ServerSays \<circ> snd) ps @ [ClientQuit], Returned 0) \<and>
    (line \<noteq> [] \<longrightarrow>
       echo_main msg 3 True (Data hello) (map exchange ps @ (line, Some (length line), Eof) # rest) =
         (map fst ps @ [line], Connected hello # map (ServerSays \<circ> snd) ps @ [ServerQuit], Returned 0)) \<and>
    snd (snd (echo_main msg 3 True (Data hello) rounds)) \<noteq> AssertionFailed"
proof -
  have "snd (snd (chat msg default_error rounds)) \<noteq> AssertionFailed" by (rule chat_asserts)
  then show ?thesis
    using chat_exchanges [OF assms, of msg]
    by (simp add: echo_main_def readFromServer_def is_error_def catch_def Let_def split: prod.split)
      (auto simp: chat_defs)
qed

lemma echo_conversation_witness:
  "echo_main (\<lambda>_. '''') 3 True (Data ''hi'') [exchange (''a'', ''got a''), ('''', None, Eof)] =
     ([''a''], [Connected ''hi'', ServerSays ''got a'', ClientQuit], Returned 0)"
  using echo_conversation [of "[(''a'', ''got a'')]" "\<lambda>_. ''''" "''hi''" None Eof "[]"] by simp

text \<open>A server that closes the connection before its greeting makes the assertion after it fail.\<close>

lemma early_close_asserts: "echo_main msg 3 True Eof rounds = ([], [], AssertionFailed)"
  by (simp add: echo_main_def chat_defs)

end
