(* ===== verification/Daytime.thy ===== *)
theory Daytime
  imports Prelude
begin

text \<open>
  The daytime programs of \<open>src/asio/daytime\<close>: \<open>server_async.cpp\<close>, \<open>server_sync.cpp\<close> and \<open>client_sync.cpp\<close>. The time of
  day is an input. Asio is modelled by what it documents: a handler runs once when its operation is
  complete, \<open>async_write\<close> and \<open>write\<close> send the whole buffer unless they report an error, a socket is closed
  when its last owner is gone, and \<open>read_some\<close> returns some of the bytes sent, in order, then the end
  of the stream.
\<close>

section \<open>The asynchronous server\<close>

text \<open>
  A connection is named by its number. \<open>writes\<close> holds the connections whose write is pending, with their
  \<open>message_\<close>; \<open>sent\<close> and \<open>closed\<close> record what the network sees.
\<close>

record server =
  accepting :: "nat option"
  next_conn :: nat
  writes :: "(nat \<times> string) list"
  sent :: "(nat \<times> string) list"
  closed :: "nat list"
  jobs :: nat

definition doAccept :: "server \<Rightarrow> server" where
  "doAccept s = s\<lparr>accepting := Some (next_conn s), next_conn := next_conn s + 1\<rparr>"

definition new_server :: server where
  "new_server = doAccept \<lparr>accepting = None, next_conn = 0, writes = [], sent = [], closed = [], jobs = 0\<rparr>"

definition handle :: "nat \<Rightarrow> string \<Rightarrow> server \<Rightarrow> server" where
  "handle conn daytime s = (let message = daytime in s\<lparr>writes := writes s @ [(conn, message)]\<rparr>)"

text \<open>A connection that is not handled loses its last owner when the handler returns.\<close>

definition handleAccept :: "nat \<Rightarrow> bool \<Rightarrow> string \<Rightarrow> server \<Rightarrow> server" where
  "handleAccept conn ec daytime s =
     (let s1 = (if \<not> ec then handle conn daytime s else s\<lparr>closed := closed s @ [conn]\<rparr>) in doAccept s1)"

definition onWrite :: "nat \<Rightarrow> server \<Rightarrow> server" where
  "onWrite conn s = s\<lparr>jobs := jobs s + 1, closed := closed s @ [conn]\<rparr>"

inductive server_step :: "server \<Rightarrow> server \<Rightarrow> bool" where
  accepted: "accepting s = Some conn \<Longrightarrow> length daytime = 25 \<Longrightarrow>
     server_step s (handleAccept conn ec daytime (s\<lparr>accepting := None\<rparr>))"
| write_done: "writes s = ws @ (conn, message) # ws' \<Longrightarrow>
     server_step s (onWrite conn (s\<lparr>writes := ws @ ws', sent := sent s @ [(conn, message)]\<rparr>))"
| write_failed: "writes s = ws @ (conn, message) # ws' \<Longrightarrow>
     server_step s (onWrite conn (s\<lparr>writes := ws @ ws'\<rparr>))"

definition server_init :: "server \<Rightarrow> bool" where
  "server_init s \<longleftrightarrow> s = new_server"

section \<open>The synchronous server\<close>

text \<open>
  What \<open>accept\<close> does in each round: \<open>None\<close> when it throws, otherwise the time of day and whether the write
  fails. The result: the message written to each client (\<open>None\<close> for an error, which is ignored) and whether
  the loop is still running.
\<close>

fun serve :: "(string \<times> bool) option list \<Rightarrow> string option list \<times> bool" where
  "serve [] = ([], True)"
| "serve (None # rounds) = ([], False)"
| "serve (Some (daytime, ec) # rounds) =
     (let msg = daytime; (out, on) = serve rounds in ((if ec then None else Some msg) # out, on))"

section \<open>The client\<close>

datatype read_result = Data string | Eof | Failed

datatype client_end = Returned int | Blocked

text \<open>The printed text; an exception is caught and printed elsewhere.\<close>

fun read_loop :: "read_result list \<Rightarrow> string \<times> client_end" where
  "read_loop [] = ([], Blocked)"
| "read_loop (Eof # rs) = ([], Returned 0)"
| "read_loop (Failed # rs) = ([], Returned 0)"
| "read_loop (Data bytes # rs) = (let (out, e) = read_loop rs in (bytes @ out, e))"

definition client_main :: "nat \<Rightarrow> bool \<Rightarrow> read_result list \<Rightarrow> string \<times> client_end" where
  "client_main argc connected reads =
     (if argc \<noteq> 2 then ([], Returned 1)
      else if \<not> connected then ([], Returned 0)
      else read_loop reads)"

section \<open>The invariant of the asynchronous server\<close>

text \<open>
  Exactly one accept is pending, with the newest connection; every older one is either waiting for its write or
  closed; a connection gets at most one message, of 25 bytes, and is closed after it.
\<close>

definition server_inv :: "server \<Rightarrow> bool" where
  "server_inv s \<longleftrightarrow> (\<exists>c. accepting s = Some c \<and> next_conn s = Suc c \<and>
     distinct (map fst (writes s) @ closed s) \<and> set (map fst (writes s) @ closed s) = {..<c}) \<and>
     distinct (map fst (sent s)) \<and> fst ` set (sent s) \<subseteq> set (closed s) \<and>
     (\<forall>conn m. (conn, m) \<in> set (writes s) \<union> set (sent s) \<longrightarrow> length m = 25) \<and>
     length (sent s) \<le> jobs s \<and> jobs s \<le> length (closed s)"

lemma server_inv_step: "server_step s t \<Longrightarrow> server_inv s \<Longrightarrow> server_inv t"
proof (induction rule: server_step.induct)
  case (accepted s conn daytime ec)
  then show ?case
    by (auto simp: server_inv_def handleAccept_def handle_def doAccept_def Let_def lessThan_Suc)
next
  case (write_done s ws conn message ws')
  then show ?case by (auto simp: server_inv_def onWrite_def)
next
  case (write_failed s ws conn message ws')
  then show ?case by (auto simp: server_inv_def onWrite_def)
qed

lemma server_inv_init: "server_init s \<Longrightarrow> server_inv s"
  by (simp add: server_inv_def server_init_def new_server_def doAccept_def)

interpretation daytime_run: invariant_system server_init server_step server_inv
  by unfold_locales (blast intro: server_inv_init server_inv_step)+

section \<open>Client and server\<close>

lemma read_loop_chunks:
  "read_loop (map Data chunks @ rs) = (concat chunks @ fst (read_loop rs), snd (read_loop rs))"
  by (induction chunks) (simp_all split: prod.split)

text \<open>The synchronous server on rounds that all succeed.\<close>

lemma serve_all: "serve (map (\<lambda>d. Some (d, False)) ds @ rs) = (map Some ds @ fst (serve rs), snd (serve rs))"
  by (induction ds) (simp_all add: Let_def split: prod.split)

section \<open>Properties\<close>

text \<open>
  C31: in every state of the asynchronous server exactly one accept is pending; every client accepted before is
  waiting for its one message or closed, and got its 25 bytes at most once. A client that then reads
  what the server sent, in whatever pieces, prints exactly the message and returns 0.
\<close>

theorem daytime_end_to_end:
  assumes "reachable server_init server_step s"
  shows "(\<exists>c. accepting s = Some c \<and> set (map fst (writes s)) \<union> set (closed s) = {..<c} \<and>
      set (map fst (writes s)) \<inter> set (closed s) = {}) \<and> distinct (map fst (sent s)) \<and>
    (\<forall>conn message chunks. (conn, message) \<in> set (sent s) \<and> concat chunks = message \<longrightarrow>
       conn \<in> set (closed s) \<and> length message = 25 \<and>
       client_main 2 True (map Data chunks @ [Eof]) = (message, Returned 0))"
proof -
  have inv: "server_inv s" using daytime_run.reachable_inv [OF assms] .
  have "conn \<in> set (closed s) \<and> length message = 25" if "(conn, message) \<in> set (sent s)" for conn message
    using inv that by (force simp: server_inv_def)
  moreover have "client_main 2 True (map Data chunks @ [Eof]) = (concat chunks, Returned 0)" for chunks
    by (simp add: client_main_def read_loop_chunks)
  ultimately show ?thesis using inv by (auto simp: server_inv_def)
qed

definition noon :: string where
  "noon = ''Thu Jan  1 12:00:00 1970'' @ [CHR 0x0A]"

lemma one_client_reachable:
  "\<exists>s. reachable server_init server_step s \<and> sent s = [(0, noon)]"
proof -
  let ?s1 = "handleAccept 0 False noon (new_server\<lparr>accepting := None\<rparr>)"
  have "reachable server_init server_step new_server" by (rule reachable_init) (simp add: server_init_def)
  moreover have "server_step new_server ?s1"
    by (rule accepted) (simp_all add: new_server_def doAccept_def noon_def)
  moreover have "server_step ?s1 (onWrite 0 (?s1\<lparr>writes := [] @ [], sent := sent ?s1 @ [(0, noon)]\<rparr>))"
    by (rule write_done) (simp add: handleAccept_def handle_def doAccept_def new_server_def Let_def)
  ultimately have "reachable server_init server_step
      (onWrite 0 (?s1\<lparr>writes := [] @ [], sent := sent ?s1 @ [(0, noon)]\<rparr>))"
    by (metis reachable_step)
  moreover have "sent (onWrite 0 (?s1\<lparr>writes := [] @ [], sent := sent ?s1 @ [(0, noon)]\<rparr>)) = [(0, noon)]"
    by (simp add: onWrite_def handleAccept_def handle_def doAccept_def new_server_def Let_def)
  ultimately show ?thesis by blast
qed

theorem daytime_end_to_end_witness:
  "client_main 2 True (map Data [''Thu Jan  1'', '' 12:00:00 1970'' @ [CHR 0x0A]] @ [Eof]) = (noon, Returned 0)"
proof -
  obtain s where s: "reachable server_init server_step s" "sent s = [(0, noon)]"
    using one_client_reachable by blast
  have "(0, noon) \<in> set (sent s)" using s(2) by simp
  moreover have "concat [''Thu Jan  1'', '' 12:00:00 1970'' @ [CHR 0x0A]] = noon" by (simp add: noon_def)
  ultimately show ?thesis using daytime_end_to_end [OF s(1)] by blast
qed

text \<open>The synchronous server: one message for every client accepted, in order, until an accept throws.\<close>

lemma serve_until_throw:
  "serve (map (\<lambda>d. Some (d, False)) ds @ None # rs) = (map Some ds, False)"
  by (simp add: serve_all)

end
