(* ===== verification/Asio_Main.thy ===== *)
theory Asio_Main
  imports Daytime Echo_Program Printing
begin

text \<open>
  What the asio servers have around their handlers: \<open>make_daytime_string\<close>, the same in \<open>daytime/server_async.cpp\<close>,
  \<open>daytime/server_sync.cpp\<close>, \<open>allocation/allocation.cpp\<close> and \<open>buffer/reference_counted_buffer.cpp\<close>, and their \<open>main\<close> functions with the exceptions they catch.
  The text of the time is that of \<open>ctime\<close> in the C standard, over the broken-down time of the local time zone, which is an
  argument. The constructor of the acceptor throws when the port cannot be opened; \<open>ctx.run()\<close> returns when nothing is pending.
\<close>

section \<open>The time of day\<close>

record tm =
  tm_sec :: nat
  tm_min :: nat
  tm_hour :: nat
  tm_mday :: nat
  tm_mon :: nat
  tm_year :: nat
  tm_wday :: nat

text \<open>The ranges of the standard; \<open>tm_year\<close> counts from 1900.\<close>

definition tm_ok :: "tm \<Rightarrow> bool" where
  "tm_ok t \<longleftrightarrow> tm_sec t \<le> 60 \<and> tm_min t \<le> 59 \<and> tm_hour t \<le> 23 \<and> 1 \<le> tm_mday t \<and> tm_mday t \<le> 31 \<and> tm_mon t \<le> 11 \<and>
     tm_wday t \<le> 6"

definition wday_name :: "string list" where
  "wday_name = [''Sun'', ''Mon'', ''Tue'', ''Wed'', ''Thu'', ''Fri'', ''Sat'']"

definition mon_name :: "string list" where
  "mon_name = [''Jan'', ''Feb'', ''Mar'', ''Apr'', ''May'', ''Jun'', ''Jul'', ''Aug'', ''Sep'', ''Oct'', ''Nov'', ''Dec'']"

text \<open>The conversions \<open>%.2d\<close> and \<open>%3d\<close>.\<close>

definition pad :: "char \<Rightarrow> nat \<Rightarrow> string \<Rightarrow> string" where
  "pad c w s = replicate (w - length s) c @ s"

definition asctime :: "tm \<Rightarrow> string checked" where
  "asctime t =
     (if length wday_name \<le> tm_wday t \<or> length mon_name \<le> tm_mon t then Inl OutOfBounds
      else let s = wday_name ! tm_wday t @ '' '' @ mon_name ! tm_mon t @ pad CHR '' '' 3 (show_nat (tm_mday t)) @ '' '' @
             pad CHR ''0'' 2 (show_nat (tm_hour t)) @ '':'' @ pad CHR ''0'' 2 (show_nat (tm_min t)) @ '':'' @
             pad CHR ''0'' 2 (show_nat (tm_sec t)) @ '' '' @ show_nat (1900 + tm_year t) @ [CHR 0x0A]
        in if 26 < length s + 1 then Inl OutOfBounds else Inr s)"

definition make_daytime_string :: "(int \<Rightarrow> tm) \<Rightarrow> int \<Rightarrow> string checked" where
  "make_daytime_string localtime now = asctime (localtime now)"

lemma length_show_nat_less: "n < 10 ^ k \<Longrightarrow> 0 < k \<Longrightarrow> length (show_nat n) \<le> k"
proof (induction k arbitrary: n)
  case (Suc k)
  show ?case
  proof (cases "n < 10")
    case False
    then have "0 < k" using Suc.prems(1) by (cases k) simp_all
    moreover have "n div 10 < 10 ^ k" using Suc.prems(1) by (simp add: less_mult_imp_div_less mult.commute)
    ultimately show ?thesis using Suc.IH [of "n div 10"] False by (simp add: show_nat.simps [of n])
  qed (simp add: show_nat.simps [of n])
qed simp

lemma show_nat_lower: "length (show_nat n) \<le> k \<Longrightarrow> n < 10 ^ k"
proof (induction k arbitrary: n)
  case 0
  then show ?case by (simp add: show_nat.simps [of n] split: if_splits)
next
  case (Suc k)
  show ?case
  proof (cases "n < 10")
    case True
    also have "(10 :: nat) \<le> 10 ^ Suc k" by simp
    finally show ?thesis .
  next
    case False
    then have "n div 10 < 10 ^ k" using Suc by (simp add: show_nat.simps [of n])
    then show ?thesis by (simp add: div_less_iff_less_mult mult.commute)
  qed
qed

lemma length_show_nat_4: "1000 \<le> n \<Longrightarrow> n < 10000 \<Longrightarrow> length (show_nat n) = 4"
  using length_show_nat_less [of n 4] show_nat_lower [of n 3] by fastforce

lemma length_pad: "length s \<le> w \<Longrightarrow> length (pad c w s) = w"
  by (simp add: pad_def)

lemma length_names: "d \<le> 6 \<Longrightarrow> length (wday_name ! d) = 3" "m \<le> 11 \<Longrightarrow> length (mon_name ! m) = 3"
  by (auto simp: wday_name_def mon_name_def nth_Cons' le_Suc_eq numeral_eq_Suc)

text \<open>
  From 1900 to 9999 the text has the 25 characters that the models of the servers take for granted; from the year 10000 on \<open>ctime\<close> writes past
  its buffer.
\<close>

lemma daytime_length:
  assumes "tm_ok (localtime now)"
  shows "tm_year (localtime now) < 8100 \<Longrightarrow> \<exists>s. make_daytime_string localtime now = Inr s \<and> length s = 25"
    and "8100 \<le> tm_year (localtime now) \<Longrightarrow> make_daytime_string localtime now = Inl OutOfBounds"
proof -
  let ?t = "localtime now"
  have two: "length (show_nat n) \<le> 2" if "n < 100" for n using length_show_nat_less [of n 2] that by simp
  have parts: "length (pad CHR ''0'' 2 (show_nat (tm_hour ?t))) = 2" "length (pad CHR ''0'' 2 (show_nat (tm_min ?t))) = 2"
    "length (pad CHR ''0'' 2 (show_nat (tm_sec ?t))) = 2" "length (pad CHR '' '' 3 (show_nat (tm_mday ?t))) = 3"
    using assms two [of "tm_hour ?t"] two [of "tm_min ?t"] two [of "tm_sec ?t"] two [of "tm_mday ?t"]
    by (auto simp: tm_ok_def intro!: length_pad)
  have names: "length wday_name = 7" "length mon_name = 12" by (simp_all add: wday_name_def mon_name_def)
  note rules = make_daytime_string_def asctime_def Let_def parts length_names names
  show "\<exists>s. make_daytime_string localtime now = Inr s \<and> length s = 25" if "tm_year ?t < 8100"
    using assms that length_show_nat_4 [of "1900 + tm_year ?t"] by (simp add: rules tm_ok_def)
  show "make_daytime_string localtime now = Inl OutOfBounds" if "8100 \<le> tm_year ?t"
  proof -
    have "4 < length (show_nat (1900 + tm_year ?t))"
    proof (rule ccontr)
      assume "\<not> 4 < length (show_nat (1900 + tm_year ?t))"
      then show False using that show_nat_lower [of "1900 + tm_year ?t" 4] by simp
    qed
    then show ?thesis using assms by (simp add: rules tm_ok_def)
  qed
qed

section \<open>The programs\<close>

text \<open>
  \<open>main\<close> of an asio server: the server is constructed inside the \<open>try\<close>, \<open>run\<close> calls handlers until nothing is pending, and an exception is
  printed to \<open>cerr\<close>. \<open>Exited\<close> has the exit status and what was printed there.
\<close>

datatype 's main_state = Constructing | Running 's | Caught string | Exited int string

inductive main_step :: "('s \<Rightarrow> bool) \<Rightarrow> ('s \<Rightarrow> 's \<Rightarrow> bool) \<Rightarrow> ('s \<Rightarrow> bool) \<Rightarrow> 's main_state \<Rightarrow> 's main_state \<Rightarrow> bool"
  for init :: "'s \<Rightarrow> bool" and step :: "'s \<Rightarrow> 's \<Rightarrow> bool" and idle :: "'s \<Rightarrow> bool" where
  constructed: "init s \<Longrightarrow> main_step init step idle Constructing (Running s)"
| port_refused: "main_step init step idle Constructing (Caught what)"
| handler_runs: "step s t \<Longrightarrow> main_step init step idle (Running s) (Running t)"
| run_returns: "idle s \<Longrightarrow> main_step init step idle (Running s) (Exited 0 [])"
| what_printed: "main_step init step idle (Caught what) (Exited 0 (what @ [CHR 0x0A]))"

definition main_init :: "'s main_state \<Rightarrow> bool" where
  "main_init m \<longleftrightarrow> m = Constructing"

text \<open>\<open>daytime/server_async.cpp\<close>: waits for an accept and for the writes.\<close>

definition daytime_idle :: "Daytime.server \<Rightarrow> bool" where
  "daytime_idle s \<longleftrightarrow> Daytime.accepting s = None \<and> writes s = []"

definition daytime_main :: "Daytime.server main_state \<Rightarrow> Daytime.server main_state \<Rightarrow> bool" where
  "daytime_main = main_step Daytime.server_init Daytime.server_step daytime_idle"

text \<open>
  \<open>allocation/allocation.cpp\<close>: an accept completes or a connection goes on, as long as no connection has run into undefined
  behaviour.
\<close>

definition defined :: "connection checked Connection.server \<Rightarrow> bool" where
  "defined s \<longleftrightarrow> (\<forall>r \<in> set (connections s). case r of Inl e \<Rightarrow> False | Inr c \<Rightarrow> True)"

inductive allocation_step :: "(async_op \<Rightarrow> u64) \<Rightarrow> (string list \<Rightarrow> string) \<Rightarrow>
    connection checked Connection.server \<Rightarrow> connection checked Connection.server \<Rightarrow> bool"
  for op_size :: "async_op \<Rightarrow> u64" and StrCat :: "string list \<Rightarrow> string" where
  accept_done: "defined s \<Longrightarrow> Connection.accepting s \<Longrightarrow> length garbage = data_size \<Longrightarrow> length daytime = 25 \<Longrightarrow>
     allocation_step op_size StrCat s
       (on_accept (doWrite_memcpy op_size StrCat) (ec, daytime, new_connection garbage k) s)"
| connection_goes_on: "defined s \<Longrightarrow> connections s = rs @ r # rs' \<Longrightarrow> conn_step op_size (doWrite_memcpy op_size StrCat) r r' \<Longrightarrow>
     allocation_step op_size StrCat s (s\<lparr>connections := rs @ r' # rs'\<rparr>)"

definition allocation_init :: "connection checked Connection.server \<Rightarrow> bool" where
  "allocation_init s \<longleftrightarrow> s = Connection.new_server"

definition allocation_idle :: "connection checked Connection.server \<Rightarrow> bool" where
  "allocation_idle s \<longleftrightarrow> \<not> Connection.accepting s \<and> (\<forall>c. Inr c \<in> set (connections s) \<longrightarrow> pending c = None)"

definition allocation_main :: "(async_op \<Rightarrow> u64) \<Rightarrow> (string list \<Rightarrow> string) \<Rightarrow>
    connection checked Connection.server main_state \<Rightarrow> connection checked Connection.server main_state \<Rightarrow> bool" where
  "allocation_main op_size StrCat = main_step allocation_init (allocation_step op_size StrCat) allocation_idle"

text \<open>\<open>buffer/reference_counted_buffer.cpp\<close>.\<close>

definition echo_idle :: "program checked \<Rightarrow> bool" where
  "echo_idle r = (case r of Inl e \<Rightarrow> False | Inr s \<Rightarrow> \<not> accept_pending s \<and> (\<forall>i. pending_kind i s = None))"

definition echo_main :: "(async_op \<Rightarrow> u64) \<Rightarrow> (string list \<Rightarrow> string) \<Rightarrow>
    program checked main_state \<Rightarrow> program checked main_state \<Rightarrow> bool" where
  "echo_main op_size StrCat = main_step program_init (program_step op_size StrCat) echo_idle"

text \<open>\<open>daytime/server_sync.cpp\<close>: the acceptor, then the loop, left only by an exception, whose text is \<open>what\<close>.\<close>

definition server_sync_main :: "bool \<Rightarrow> string \<Rightarrow> (string \<times> bool) option list \<Rightarrow> string option list \<times> (int \<times> string) option" where
  "server_sync_main port_open what rounds =
     (let (out, on) = (if port_open then serve rounds else ([], False))
      in (out, if on then None else Some (0, what @ [CHR 0x0A])))"

section \<open>A server that always has something pending\<close>

locale serving = invariant_system init step inv
  for init :: "'s \<Rightarrow> bool" and step :: "'s \<Rightarrow> 's \<Rightarrow> bool" and inv :: "'s \<Rightarrow> bool" +
  fixes idle :: "'s \<Rightarrow> bool"
  assumes inv_busy: "inv s \<Longrightarrow> \<not> idle s"
begin

lemma main_outcome:
  "reachable main_init (main_step init step idle) m \<Longrightarrow>
   (case m of
      Running s \<Rightarrow> reachable init step s \<and> inv s
    | Exited code err \<Rightarrow> code = 0 \<and> (\<exists>what. err = what @ [CHR 0x0A])
    | _ \<Rightarrow> True)"
proof (induction rule: reachable.induct)
  case (reachable_step m m')
  from reachable_step.hyps(2) reachable_step.IH show ?case
    by cases (auto intro: reachable.intros inv_init inv_step dest: inv_busy)
qed (simp add: main_init_def)

end

interpretation daytime_serving: serving server_init server_step server_inv daytime_idle
  by unfold_locales (auto simp: server_inv_def daytime_idle_def)

interpretation echo_serving: serving program_init "program_step op_size StrCat" "handler_result op_size {} True" echo_idle
  for op_size StrCat
  by unfold_locales (auto simp: handler_result_def echo_idle_def)

interpretation allocation_serving: serving allocation_init "allocation_step op_size StrCat" Connection.accepting allocation_idle
  for op_size StrCat
proof
  show "Connection.accepting t" if "Connection.accepting s" "allocation_step op_size StrCat s t" for s t
    using that(2,1) by cases (auto simp: on_accept_def Connection.doAccept_def Let_def)
qed (auto simp: allocation_init_def Connection.new_server_def Connection.doAccept_def allocation_idle_def)

text \<open>
  None of the three asynchronous servers ends because its work has run out: the only way out of \<open>main\<close> is an exception, which is printed, and the
  exit status is 0 even then. The synchronous one is the same.
\<close>

definition left_by_exception :: "'s main_state \<Rightarrow> bool" where
  "left_by_exception m = (case m of Exited code err \<Rightarrow> code = 0 \<and> err \<noteq> [] | _ \<Rightarrow> False)"

lemma mains_serve_for_ever:
  "reachable main_init daytime_main m1 \<Longrightarrow> m1 = Exited code err \<Longrightarrow> left_by_exception m1"
  "reachable main_init (allocation_main op_size StrCat) m2 \<Longrightarrow> m2 = Exited code err \<Longrightarrow> left_by_exception m2"
  "reachable main_init (echo_main op_size StrCat) m3 \<Longrightarrow> m3 = Exited code err \<Longrightarrow> left_by_exception m3"
  using daytime_serving.main_outcome [of m1] allocation_serving.main_outcome [of op_size StrCat m2]
    echo_serving.main_outcome [of op_size StrCat m3]
  by (auto simp: daytime_main_def allocation_main_def echo_main_def left_by_exception_def)

lemma server_sync_main_end:
  "snd (server_sync_main port_open what rounds) = (if port_open \<and> None \<notin> set rounds then None else Some (0, what @ [CHR 0x0A]))"
proof -
  have "snd (serve rounds) \<longleftrightarrow> None \<notin> set rounds"
    by (induction rounds rule: serve.induct) (auto simp: Let_def split: prod.splits)
  then show ?thesis by (auto simp: server_sync_main_def split: prod.splits)
qed

text \<open>The time the servers send is one they can accept a client with.\<close>

lemma accepts_today:
  assumes "tm_ok (localtime now)" "tm_year (localtime now) < 8100" "Daytime.accepting s = Some conn"
  shows "\<exists>d. make_daytime_string localtime now = Inr d \<and>
    server_step s (handleAccept conn ec d (s\<lparr>Daytime.accepting := None\<rparr>))"
  using daytime_length(1) [of localtime now, OF assms(1,2)] accepted [OF assms(3)] by blast

text \<open>The example the C standard gives.\<close>

lemma asctime_example:
  "asctime \<lparr>tm_sec = 52, tm_min = 3, tm_hour = 1, tm_mday = 16, tm_mon = 8, tm_year = 73, tm_wday = 0\<rparr> =
     Inr (''Sun Sep 16 01:03:52 1973'' @ [CHR 0x0A])"
  by code_simp

end
