(* ===== verification/Signals.thy ===== *)
theory Signals
  imports Printing
begin

text \<open>
  The examples of \<open>src/misc/lsignal.cpp\<close>. The signal library is not part of the repository: it is the record
  \<open>lsignal\<close> of the operations the examples call, over a type of signals of its own, and \<open>lsignal_law\<close> states what its
  documentation promises, by way of the list of connections of a signal. A callback gets the arguments of the call
  and what is found at the address of the object \<open>dm\<close> of the fifth example (\<open>None\<close> once it is destroyed); it yields what it prints and
  its result, or the error that it runs into.
\<close>

section \<open>The signal library\<close>

type_synonym callback = "int option \<Rightarrow> int list \<Rightarrow> (string \<times> int) checked"

datatype slot_fn = Callback callback | Forward nat

record 's lsignal =
  signal_new :: 's
  connect :: "slot_fn \<Rightarrow> nat option \<Rightarrow> 's \<Rightarrow> nat \<times> 's"
  set_lock :: "nat \<Rightarrow> bool \<Rightarrow> 's \<Rightarrow> 's"
  disconnect :: "nat \<Rightarrow> 's \<Rightarrow> 's"
  disconnect_all :: "'s \<Rightarrow> 's"
  slot_destroyed :: "nat \<Rightarrow> 's \<Rightarrow> 's"
  called :: "'s \<Rightarrow> slot_fn list"

record connection_entry =
  conn_id :: nat
  locked :: bool
  owner :: "nat option"
  slot_of :: slot_fn

text \<open>
  New connections go to the end, under a number not in use; a call visits the connections that are not locked, in
  their order; when an object of class \<open>slot\<close> is destroyed the connections made with it go.
\<close>

definition lsignal_law :: "'s lsignal \<Rightarrow> ('s \<Rightarrow> connection_entry list) \<Rightarrow> bool" where
  "lsignal_law lib view \<longleftrightarrow>
     view (signal_new lib) = [] \<and>
     (\<forall>f w s. view (snd (connect lib f w s)) =
        view s @ [\<lparr>conn_id = fst (connect lib f w s), locked = False, owner = w, slot_of = f\<rparr>]) \<and>
     (\<forall>f w s. fst (connect lib f w s) \<notin> conn_id ` set (view s)) \<and>
     (\<forall>c b s. view (set_lock lib c b s) = map (\<lambda>e. if conn_id e = c then e\<lparr>locked := b\<rparr> else e) (view s)) \<and>
     (\<forall>c s. view (disconnect lib c s) = filter (\<lambda>e. conn_id e \<noteq> c) (view s)) \<and>
     (\<forall>s. view (disconnect_all lib s) = []) \<and>
     (\<forall>w s. view (slot_destroyed lib w s) = filter (\<lambda>e. owner e \<noteq> Some w) (view s)) \<and>
     (\<forall>s. called lib s = map slot_of (filter (\<lambda>e. \<not> locked e) (view s)))"

text \<open>One call: the callbacks in order, what they print and what they return; \<open>fwd\<close> runs a connected signal.\<close>

fun run_slots :: "(nat \<Rightarrow> callback) \<Rightarrow> int option \<Rightarrow> int list \<Rightarrow> slot_fn list \<Rightarrow> (string \<times> int list) checked" where
  "run_slots fwd dm args [] = Inr ([], [])"
| "run_slots fwd dm args (f # fs) =
     bind_checked (case f of Callback g \<Rightarrow> g dm args | Forward j \<Rightarrow> fwd j dm args) (\<lambda>(out, v).
     bind_checked (run_slots fwd dm args fs) (\<lambda>(outs, vs). Inr (out @ outs, v # vs)))"

definition call_values :: "'s lsignal \<Rightarrow> (nat \<Rightarrow> callback) \<Rightarrow> 's \<Rightarrow> int option \<Rightarrow> int list \<Rightarrow> (string \<times> int list) checked" where
  "call_values lib fwd s dm args = run_slots fwd dm args (called lib s)"

definition no_signal :: "nat \<Rightarrow> callback" where
  "no_signal j dm args = Inl NullPointer"

definition call_void :: "'s lsignal \<Rightarrow> (nat \<Rightarrow> callback) \<Rightarrow> 's \<Rightarrow> int option \<Rightarrow> int list \<Rightarrow> string checked" where
  "call_void lib fwd s dm args = bind_checked (call_values lib fwd s dm args) (\<lambda>(out, vs). Inr out)"

definition call_last :: "'s lsignal \<Rightarrow> 's \<Rightarrow> int list \<Rightarrow> int checked" where
  "call_last lib s args = bind_checked (call_values lib no_signal s None args) (\<lambda>(out, vs). Inr (last vs))"

definition call_agg :: "'s lsignal \<Rightarrow> 's \<Rightarrow> int list \<Rightarrow> (int list \<Rightarrow> int checked) \<Rightarrow> int checked" where
  "call_agg lib s args agg = bind_checked (call_values lib no_signal s None args) (\<lambda>(out, vs). agg vs)"

section \<open>The callbacks\<close>

definition print_sum :: "int \<Rightarrow> int \<Rightarrow> string checked" where
  "print_sum x y = bind_checked (int_add x y) (\<lambda>r.
     Inr (''sum('' @ show_int x @ '', '' @ show_int y @ '') = '' @ show_int r @ ''\<newline>''))"

definition print_mul :: "int \<Rightarrow> int \<Rightarrow> string checked" where
  "print_mul x y = bind_checked (int_mul x y) (\<lambda>r.
     Inr (''mul('' @ show_int x @ '', '' @ show_int y @ '') = '' @ show_int r @ ''\<newline>''))"

definition pow2 :: "int \<Rightarrow> int checked" where
  "pow2 x = int_mul x x"

definition pow3 :: "int \<Rightarrow> int checked" where
  "pow3 x = bind_checked (int_mul x x) (\<lambda>y. int_mul y x)"

text \<open>\<open>std::accumulate\<close> from 0.\<close>

fun accumulate :: "int \<Rightarrow> int list \<Rightarrow> int checked" where
  "accumulate acc [] = Inr acc"
| "accumulate acc (x # xs) = bind_checked (int_add acc x) (\<lambda>a. accumulate a xs)"

definition sum_agg :: "int list \<Rightarrow> int checked" where
  "sum_agg v = accumulate 0 v"

definition bar :: string where
  "bar = ''function: bar\<newline>''"

definition baz_call :: string where
  "baz_call = ''functor: baz\<newline>''"

definition qux_print :: string where
  "qux_print = ''class member: qux\<newline>''"

definition binary :: "(int \<Rightarrow> int \<Rightarrow> string checked) \<Rightarrow> slot_fn" where
  "binary f = Callback (\<lambda>dm args. bind_checked (f (args ! 0) (args ! 1)) (\<lambda>t. Inr (t, 0)))"

definition unary :: "(int \<Rightarrow> int checked) \<Rightarrow> slot_fn" where
  "unary f = Callback (\<lambda>dm args. bind_checked (f (args ! 0)) (\<lambda>r. Inr ([], r)))"

definition printing :: "string \<Rightarrow> slot_fn" where
  "printing t = Callback (\<lambda>dm args. Inr (t, 0))"

text \<open>The lambda of the fifth example reads \<open>dm\<close> through a reference.\<close>

definition print_value :: slot_fn where
  "print_value = Callback (\<lambda>dm args. case dm of
     None \<Rightarrow> Inl NullPointer
   | Some value \<Rightarrow> Inr (''value = '' @ show_int value @ ''\<newline>'', 0))"

definition print_x :: slot_fn where
  "print_x = Callback (\<lambda>dm args. Inr (''x = '' @ show_int (args ! 0) @ ''\<newline>'', 0))"

section \<open>The examples of \<open>main\<close>\<close>

definition append_out :: "string checked \<Rightarrow> string checked \<Rightarrow> string checked" where
  "append_out m n = bind_checked m (\<lambda>t. bind_checked n (\<lambda>u. Inr (t @ u)))"

definition example1 :: "'s lsignal \<Rightarrow> string checked" where
  "example1 lib =
     (let d1 = snd (connect lib (binary print_sum) None (signal_new lib));
          d2 = snd (connect lib (binary print_mul) None d1)
      in append_out (Inr ''example #1:\<newline>'') (call_void lib no_signal d2 None [3, 4]))"

definition example2 :: "'s lsignal \<Rightarrow> string checked" where
  "example2 lib =
     (let w1 = snd (connect lib (unary pow2) None (signal_new lib));
          w2 = snd (connect lib (unary pow3) None w1)
      in append_out (Inr ''\<newline>example #2:\<newline>'')
        (append_out (bind_checked (call_last lib w2 [2]) (\<lambda>r. Inr (''last slot = '' @ show_int r @ ''\<newline>'')))
          (bind_checked (call_agg lib w2 [2] sum_agg) (\<lambda>r. Inr (''agg value = '' @ show_int r @ ''\<newline>'')))))"

definition example3 :: "'s lsignal \<Rightarrow> string checked" where
  "example3 lib =
     (let (conn_one, n1) = connect lib (printing ''news #1\<newline>'') None (signal_new lib);
          (conn_two, n2) = connect lib (printing ''news #2\<newline>'') None n1;
          n3 = snd (connect lib (printing ''news #3\<newline>'') None n2);
          n4 = set_lock lib conn_one True n3;
          n5 = disconnect lib conn_two n4
      in append_out (Inr ''\<newline>example #3:\<newline>(all connections)\<newline>'')
        (append_out (call_void lib no_signal n3 None [])
        (append_out (Inr ''(lock connection one)\<newline>'')
        (append_out (call_void lib no_signal n4 None [])
        (append_out (Inr ''(disconnect connection two)\<newline>'') (call_void lib no_signal n5 None []))))))"

definition example4 :: "'s lsignal \<Rightarrow> string checked" where
  "example4 lib =
     (let d1 = snd (connect lib (printing ''lambda: foo\<newline>'') None (signal_new lib));
          d2 = snd (connect lib (printing bar) None d1);
          d3 = snd (connect lib (printing baz_call) None d2);
          d4 = snd (connect lib (printing qux_print) None d3)
      in append_out (Inr ''\<newline>example #4:\<newline>'') (call_void lib no_signal d4 None []))"

text \<open>The address of \<open>dm\<close> is 1; at the end of the block it is destroyed.\<close>

definition example5 :: "'s lsignal \<Rightarrow> string checked" where
  "example5 lib =
     (let p1 = snd (connect lib print_value (Some 1) (signal_new lib));
          p2 = slot_destroyed lib 1 p1
      in append_out (Inr ''\<newline>example #5:\<newline>'')
        (append_out (call_void lib no_signal p1 (Some 42) []) (call_void lib no_signal p2 None [])))"

text \<open>The signal \<open>second\<close> has the number 2; it gets its slot after \<open>first\<close> was connected to it.\<close>

definition example6 :: "'s lsignal \<Rightarrow> string checked" where
  "example6 lib =
     (let first = snd (connect lib (Forward 2) None (signal_new lib));
          second = snd (connect lib print_x None (signal_new lib));
          fwd = (\<lambda>j dm args. if j = 2 then bind_checked (call_void lib no_signal second dm args) (\<lambda>t. Inr (t, 0))
                  else no_signal j dm args)
      in append_out (Inr ''\<newline>example #6:\<newline>'') (call_void lib fwd first None [10]))"

definition example7 :: "'s lsignal \<Rightarrow> string checked" where
  "example7 lib =
     (let s1 = snd (connect lib (printing ''sig7\<newline>'') (Some 1) (signal_new lib));
          s2 = slot_destroyed lib 1 s1
      in append_out (Inr ''\<newline>example #7: slot\<newline>'')
        (append_out (call_void lib no_signal s1 None []) (call_void lib no_signal s2 None [])))"

definition example8 :: "'s lsignal \<Rightarrow> string checked" where
  "example8 lib =
     (let s1 = snd (connect lib (printing bar) None (signal_new lib));
          s2 = snd (connect lib (printing bar) None s1);
          s3 = snd (connect lib (printing bar) None s2);
          s4 = disconnect_all lib s3
      in append_out (Inr ''\<newline>example #8: disconnect_all\<newline>'')
        (append_out (call_void lib no_signal s3 None []) (call_void lib no_signal s4 None [])))"

definition signals_main :: "'s lsignal \<Rightarrow> string checked" where
  "signals_main lib =
     append_out (example1 lib) (append_out (example2 lib) (append_out (example3 lib) (append_out (example4 lib)
       (append_out (example5 lib) (append_out (example6 lib) (append_out (example7 lib) (example8 lib)))))))"

section \<open>Arithmetic of the callbacks\<close>

lemma square_le_iff:
  assumes "0 \<le> (b :: int)" "b * b \<le> m" "m < (b + 1) * (b + 1)"
  shows "x * x \<le> m \<longleftrightarrow> \<bar>x\<bar> \<le> b"
proof
  assume "x * x \<le> m"
  show "\<bar>x\<bar> \<le> b"
  proof (rule ccontr)
    assume "\<not> \<bar>x\<bar> \<le> b"
    then have "(b + 1) * (b + 1) \<le> \<bar>x\<bar> * \<bar>x\<bar>" using assms(1) by (intro mult_mono) auto
    then show False using \<open>x * x \<le> m\<close> assms(3) by simp
  qed
next
  assume "\<bar>x\<bar> \<le> b"
  then have "\<bar>x\<bar> * \<bar>x\<bar> \<le> b * b" using assms(1) by (intro mult_mono) auto
  then show "x * x \<le> m" using assms(2) by simp
qed

lemma cube_abs_le_iff:
  assumes "0 \<le> (b :: int)" "b * b * b \<le> m" "m < (b + 1) * (b + 1) * (b + 1)"
  shows "\<bar>x * x * x\<bar> \<le> m \<longleftrightarrow> \<bar>x\<bar> \<le> b"
proof
  assume l: "\<bar>x * x * x\<bar> \<le> m"
  show "\<bar>x\<bar> \<le> b"
  proof (rule ccontr)
    assume "\<not> \<bar>x\<bar> \<le> b"
    then have "(b + 1) * (b + 1) * (b + 1) \<le> \<bar>x\<bar> * \<bar>x\<bar> * \<bar>x\<bar>" using assms(1) by (intro mult_mono) auto
    then show False using l assms(3) by (simp add: abs_mult)
  qed
next
  assume "\<bar>x\<bar> \<le> b"
  then have "\<bar>x\<bar> * \<bar>x\<bar> * \<bar>x\<bar> \<le> b * b * b" using assms(1) by (intro mult_mono) auto
  then show "\<bar>x * x * x\<bar> \<le> m" using assms(2) by (simp add: abs_mult)
qed

lemma in_int_square: "in_int (x * x) \<longleftrightarrow> \<bar>x\<bar> \<le> 46340"
proof -
  have "- 2147483648 \<le> x * x" by (rule order_trans [OF _ zero_le_square]) simp
  then have "in_int (x * x) \<longleftrightarrow> x * x \<le> 2147483647" by (simp add: int_range)
  then show ?thesis using square_le_iff [of 46340 2147483647 x] by simp
qed

lemma in_int_cube: "in_int (x * x * x) \<longleftrightarrow> \<bar>x\<bar> \<le> 1290"
proof -
  have "\<bar>x * x * x\<bar> \<le> 2147483647 \<longleftrightarrow> \<bar>x\<bar> \<le> 1290" "\<bar>x * x * x\<bar> \<le> 2147483648 \<longleftrightarrow> \<bar>x\<bar> \<le> 1290"
    by (rule cube_abs_le_iff; simp)+
  then show ?thesis by (auto simp: int_range abs_le_iff)
qed

text \<open>The sum is defined exactly when no partial sum leaves \<open>int\<close>.\<close>

lemma accumulate_eq:
  "accumulate acc xs = (if \<forall>n \<in> {1..length xs}. in_int (acc + sum_list (take n xs))
     then Inr (acc + sum_list xs) else Inl SignedOverflow)"
proof (induction xs arbitrary: acc)
  case (Cons x xs)
  have "(\<forall>n \<in> {1..length (x # xs)}. in_int (acc + sum_list (take n (x # xs)))) \<longleftrightarrow>
      in_int (acc + x) \<and> (\<forall>n \<in> {1..length xs}. in_int (acc + x + sum_list (take n xs)))"
    (is "?L \<longleftrightarrow> ?R")
  proof
    assume L: ?L
    have "in_int (acc + x)" using L [rule_format, of 1] by simp
    moreover have "in_int (acc + x + sum_list (take n xs))" if "n \<in> {1..length xs}" for n
      using L [rule_format, of "Suc n"] that by (simp add: add.assoc)
    ultimately show ?R by blast
  next
    assume R: ?R
    show ?L
    proof
      fix n assume "n \<in> {1..length (x # xs)}"
      then show "in_int (acc + sum_list (take n (x # xs)))"
        using R by (cases n; cases "n = 1") (auto simp: add.assoc)
    qed
  qed
  then show ?case using Cons.IH [of "acc + x"] by (auto simp: int_add_def to_int_def add.assoc)
qed simp

section \<open>Properties\<close>

text \<open>
  The callbacks compute in \<open>int\<close>, which they leave exactly here: \<open>pow2\<close> is the square for arguments of up to 46340 in magnitude and
  undefined beyond, \<open>pow3\<close> the cube up to 1290, and \<open>sum_agg\<close> the sum of the values whenever each of its partial sums is an \<open>int\<close>.
\<close>

lemma callbacks_bounds:
  "pow2 x = (if \<bar>x\<bar> \<le> 46340 then Inr (x ^ 2) else Inl SignedOverflow) \<and>
   pow3 x = (if \<bar>x\<bar> \<le> 1290 then Inr (x ^ 3) else Inl SignedOverflow) \<and>
   sum_agg v = (if \<forall>n \<in> {1..length v}. in_int (sum_list (take n v)) then Inr (sum_list v) else Inl SignedOverflow)"
proof (intro conjI)
  show "pow2 x = (if \<bar>x\<bar> \<le> 46340 then Inr (x ^ 2) else Inl SignedOverflow)"
    by (simp add: pow2_def int_mul_def to_int_def in_int_square power2_eq_square)
  show "pow3 x = (if \<bar>x\<bar> \<le> 1290 then Inr (x ^ 3) else Inl SignedOverflow)"
    by (auto simp: pow3_def int_mul_def to_int_def in_int_square in_int_cube power3_eq_cube)
  show "sum_agg v = (if \<forall>n \<in> {1..length v}. in_int (sum_list (take n v)) then Inr (sum_list v) else Inl SignedOverflow)"
    using accumulate_eq [of 0 v] by (simp add: sum_agg_def)
qed

lemma callbacks_bounds_witness:
  "pow3 1290 = Inr 2146689000 \<and> pow3 1291 = Inl SignedOverflow \<and> pow2 46341 = Inl SignedOverflow \<and>
   sum_agg [4, 8] = Inr 12"
proof -
  have two: "{1..length [4 :: int, 8]} = {1, 2}" by auto
  show ?thesis
    using callbacks_bounds [of 1290 "[4, 8]"] callbacks_bounds [of 1291 "[]"] callbacks_bounds [of 46341 "[]"]
    unfolding two by (simp add: int_range)
qed

lemma shown [simp]:
  "show_int 2 = ''2''" "show_int 3 = ''3''" "show_int 4 = ''4''" "show_int 7 = ''7''" "show_int 8 = ''8''"
  "show_int 10 = ''10''" "show_int 12 = ''12''" "show_int 42 = ''42''"
  by code_simp+

lemma lsignal_lawD:
  assumes "lsignal_law lib view"
  shows "view (signal_new lib) = []"
    and "view (snd (connect lib f w s)) = view s @ [\<lparr>conn_id = fst (connect lib f w s), locked = False, owner = w, slot_of = f\<rparr>]"
    and "fst (connect lib f w s) \<notin> conn_id ` set (view s)"
    and "view (set_lock lib c b s) = map (\<lambda>e. if conn_id e = c then e\<lparr>locked := b\<rparr> else e) (view s)"
    and "view (disconnect lib c s) = filter (\<lambda>e. conn_id e \<noteq> c) (view s)"
    and "view (disconnect_all lib s) = []"
    and "view (slot_destroyed lib k s) = filter (\<lambda>e. owner e \<noteq> Some k) (view s)"
    and "called lib s = map slot_of (filter (\<lambda>e. \<not> locked e) (view s))"
  using assms unfolding lsignal_law_def by blast+

lemmas signal_calls = call_void_def call_last_def call_agg_def call_values_def append_out_def Let_def
lemmas signal_slots = binary_def unary_def printing_def print_value_def print_x_def print_sum_def print_mul_def
  pow2_def pow3_def sum_agg_def int_ops to_int_def int_range bar_def baz_call_def qux_print_def

text \<open>The number of a connection differs from those made before it.\<close>

lemma connect_new_id:
  assumes "lsignal_law lib view" "e \<in> set (view s)"
  shows "fst (connect lib f w s) \<noteq> conn_id e" "conn_id e \<noteq> fst (connect lib f w s)"
  using lsignal_lawD(3) [OF assms(1), of f w s] assms(2) by (metis imageI)+

lemma example3_output:
  assumes law: "lsignal_law lib view"
  shows "example3 lib = Inr (''\<newline>example #3:\<newline>(all connections)\<newline>news #1\<newline>news #2\<newline>news #3\<newline>'' @
    ''(lock connection one)\<newline>news #2\<newline>news #3\<newline>(disconnect connection two)\<newline>news #3\<newline>'')"
proof -
  let ?f1 = "printing ''news #1\<newline>''" and ?f2 = "printing ''news #2\<newline>''" and ?f3 = "printing ''news #3\<newline>''"
  define n1 where "n1 = snd (connect lib ?f1 None (signal_new lib))"
  define n2 where "n2 = snd (connect lib ?f2 None n1)"
  define n3 where "n3 = snd (connect lib ?f3 None n2)"
  define c1 where "c1 = fst (connect lib ?f1 None (signal_new lib))"
  define c2 where "c2 = fst (connect lib ?f2 None n1)"
  define c3 where "c3 = fst (connect lib ?f3 None n2)"
  note defs = n1_def n2_def n3_def c1_def c2_def c3_def
  note laws = lsignal_lawD [OF law]
  have v1: "view n1 = [\<lparr>conn_id = c1, locked = False, owner = None, slot_of = ?f1\<rparr>]"
    by (simp add: n1_def c1_def laws)
  have v2: "view n2 = view n1 @ [\<lparr>conn_id = c2, locked = False, owner = None, slot_of = ?f2\<rparr>]"
    unfolding n2_def c2_def by (rule laws(2))
  have v3: "view n3 = view n2 @ [\<lparr>conn_id = c3, locked = False, owner = None, slot_of = ?f3\<rparr>]"
    unfolding n3_def c3_def by (rule laws(2))
  have ids: "c2 \<noteq> c1" "c3 \<noteq> c1" "c3 \<noteq> c2"
    using laws(3) [of ?f2 None n1] laws(3) [of ?f3 None n2] v1 v2 by (simp_all add: c2_def c3_def)
  have ex: "example3 lib = append_out (Inr ''\<newline>example #3:\<newline>(all connections)\<newline>'')
        (append_out (call_void lib no_signal n3 None [])
        (append_out (Inr ''(lock connection one)\<newline>'')
        (append_out (call_void lib no_signal (set_lock lib c1 True n3) None [])
        (append_out (Inr ''(disconnect connection two)\<newline>'')
          (call_void lib no_signal (disconnect lib c2 (set_lock lib c1 True n3)) None [])))))"
    by (simp add: example3_def Let_def case_prod_beta defs)
  show ?thesis
    unfolding ex using ids
    by (simp add: signal_calls laws(4,5,8) v1 v2 v3 printing_def)
qed

text \<open>
  With any signal library that keeps the documented laws, the program runs all its examples without an error and prints this
  text: slots run in the order of their connections, a locked and a disconnected one are skipped, the last result and
  the sum are those of \<open>pow2\<close> and \<open>pow3\<close>, the connected signal is forwarded to, and after their objects are destroyed
  neither the slot of the fifth example (which would read a dead object) nor that of the seventh is called.
\<close>

lemma signals_main_output:
  assumes "lsignal_law lib view"
  shows "signals_main lib = Inr (
    ''example #1:\<newline>sum(3, 4) = 7\<newline>mul(3, 4) = 12\<newline>'' @
    ''\<newline>example #2:\<newline>last slot = 8\<newline>agg value = 12\<newline>'' @
    ''\<newline>example #3:\<newline>(all connections)\<newline>news #1\<newline>news #2\<newline>news #3\<newline>'' @
    ''(lock connection one)\<newline>news #2\<newline>news #3\<newline>(disconnect connection two)\<newline>news #3\<newline>'' @
    ''\<newline>example #4:\<newline>lambda: foo\<newline>function: bar\<newline>functor: baz\<newline>class member: qux\<newline>'' @
    ''\<newline>example #5:\<newline>value = 42\<newline>'' @ ''\<newline>example #6:\<newline>x = 10\<newline>'' @
    ''\<newline>example #7: slot\<newline>sig7\<newline>'' @
    ''\<newline>example #8: disconnect_all\<newline>function: bar\<newline>function: bar\<newline>function: bar\<newline>'')"
proof -
  note laws = lsignal_lawD(1,2,6-8) [OF assms]
  have "example1 lib = Inr ''example #1:\<newline>sum(3, 4) = 7\<newline>mul(3, 4) = 12\<newline>''"
    by (simp add: example1_def signal_calls laws signal_slots)
  moreover have "example2 lib = Inr ''\<newline>example #2:\<newline>last slot = 8\<newline>agg value = 12\<newline>''"
    by (simp add: example2_def signal_calls laws signal_slots)
  moreover have "example4 lib = Inr
      ''\<newline>example #4:\<newline>lambda: foo\<newline>function: bar\<newline>functor: baz\<newline>class member: qux\<newline>''"
    by (simp add: example4_def signal_calls laws signal_slots)
  moreover have "example5 lib = Inr ''\<newline>example #5:\<newline>value = 42\<newline>''"
    by (simp add: example5_def signal_calls laws signal_slots)
  moreover have "example6 lib = Inr ''\<newline>example #6:\<newline>x = 10\<newline>''"
    by (simp add: example6_def signal_calls laws signal_slots)
  moreover have "example7 lib = Inr ''\<newline>example #7: slot\<newline>sig7\<newline>''"
    by (simp add: example7_def signal_calls laws signal_slots)
  moreover have "example8 lib = Inr
      ''\<newline>example #8: disconnect_all\<newline>function: bar\<newline>function: bar\<newline>function: bar\<newline>''"
    by (simp add: example8_def signal_calls laws signal_slots)
  ultimately show ?thesis
    by (simp add: signals_main_def append_out_def example3_output [OF assms])
qed

text \<open>A library with the laws: the list of connections, numbered above all that are in it.\<close>

definition list_lsignal :: "connection_entry list lsignal" where
  "list_lsignal = \<lparr>signal_new = [],
     connect = (\<lambda>f w es. let n = Suc (sum_list (map conn_id es))
       in (n, es @ [\<lparr>conn_id = n, locked = False, owner = w, slot_of = f\<rparr>])),
     set_lock = (\<lambda>c b es. map (\<lambda>e. if conn_id e = c then e\<lparr>locked := b\<rparr> else e) es),
     disconnect = (\<lambda>c es. filter (\<lambda>e. conn_id e \<noteq> c) es),
     disconnect_all = (\<lambda>es. []),
     slot_destroyed = (\<lambda>w es. filter (\<lambda>e. owner e \<noteq> Some w) es),
     called = (\<lambda>es. map slot_of (filter (\<lambda>e. \<not> locked e) es))\<rparr>"

lemma list_lsignal_law: "lsignal_law list_lsignal id"
proof -
  have "\<forall>es :: connection_entry list. Suc (sum_list (map conn_id es)) \<notin> conn_id ` set es"
  proof
    fix es :: "connection_entry list"
    show "Suc (sum_list (map conn_id es)) \<notin> conn_id ` set es"
      using member_le_sum_list [of _ "map conn_id es"] by fastforce
  qed
  then show ?thesis by (simp add: lsignal_law_def list_lsignal_def Let_def)
qed

lemma signals_main_output_witness:
  "\<exists>text. signals_main list_lsignal = Inr (''example #1:\<newline>sum(3, 4) = 7\<newline>'' @ text)"
  using signals_main_output [OF list_lsignal_law] by simp

end
