(* ===== verification/Regex_Test.thy ===== *)
theory Regex_Test
  imports Prelude
begin

text \<open>
  The tests of \<open>src/std/std_regex_test.cpp\<close>. What they use of \<open>std::regex\<close> is modelled: the regular expressions with
  classes, literal characters, sequences, repetition and groups, and the ordered matches of the standard's (ECMAScript) matcher, which
  tries a longer repetition before a shorter one and takes the first match; \<open>regex_match\<close> asks that the match
  covers the whole text. A match carries the text of its groups.
\<close>

section \<open>Regular expressions of the standard library\<close>

datatype regex =
    Range char char
  | Lit char
  | Cat regex regex
  | Plus regex
  | Group nat regex

type_synonym groups = "nat \<Rightarrow> string option"

text \<open>One or more rounds of \<open>m\<close>; a round that consumes nothing ends the repetition. The text bounds the rounds.\<close>

fun rounds :: "(string \<Rightarrow> groups \<Rightarrow> (string \<times> groups) list) \<Rightarrow> nat \<Rightarrow> string \<Rightarrow> groups \<Rightarrow> (string \<times> groups) list" where
  "rounds m 0 s g = []"
| "rounds m (Suc n) s g =
     concat (map (\<lambda>(r, h). (if length r < length s then rounds m n r h else []) @ [(r, h)]) (m s g))"

text \<open>The matches of a prefix of the text, in the order they are tried: what is left of the text, and the groups.\<close>

fun match_prefix :: "regex \<Rightarrow> string \<Rightarrow> groups \<Rightarrow> (string \<times> groups) list" where
  "match_prefix (Range a b) s g =
     (case s of [] \<Rightarrow> [] | c # cs \<Rightarrow>
        if (of_char a :: nat) \<le> of_char c \<and> (of_char c :: nat) \<le> of_char b then [(cs, g)] else [])"
| "match_prefix (Lit a) s g = (case s of [] \<Rightarrow> [] | c # cs \<Rightarrow> if c = a then [(cs, g)] else [])"
| "match_prefix (Cat p q) s g = concat (map (\<lambda>(r, h). match_prefix q r h) (match_prefix p s g))"
| "match_prefix (Plus p) s g = rounds (match_prefix p) (Suc (length s)) s g"
| "match_prefix (Group i p) s g =
     map (\<lambda>(r, h). (r, h(i \<mapsto> take (length s - length r) s))) (match_prefix p s g)"

definition regex_match :: "string \<Rightarrow> regex \<Rightarrow> groups option" where
  "regex_match s e =
     (case filter (\<lambda>(r, g). r = []) (match_prefix e s (\<lambda>_. None)) of
        [] \<Rightarrow> None
      | (r, g) # ms \<Rightarrow> Some (g(0 \<mapsto> s)))"

fun literal :: "string \<Rightarrow> regex \<Rightarrow> regex" where
  "literal [] e = e"
| "literal (c # cs) e = literal cs (Cat e (Lit c))"

section \<open>The tests\<close>

definition fnames :: "string list" where
  "fnames = [''foo.txt'', ''bar.txt'', ''test'', ''a0.txt'', ''AAA.txt'']"

definition txt_regex :: regex where
  "txt_regex = literal ''.txt'' (Plus (Range CHR ''a'' CHR ''z''))"

definition base_regex :: regex where
  "base_regex = literal ''.txt'' (Group 1 (Plus (Range CHR ''a'' CHR ''z'')))"

definition match_line :: "string \<Rightarrow> string" where
  "match_line fname = fname @ '': '' @ (if regex_match fname txt_regex \<noteq> None then ''1'' else ''0'')"

definition test_match :: "string list \<Rightarrow> string list" where
  "test_match names = map match_line names"

text \<open>A match of \<open>base_regex\<close> has two entries: the whole text and its one group.\<close>

definition smatch_lines :: "string \<Rightarrow> string list" where
  "smatch_lines fname =
     (case regex_match fname base_regex of
        None \<Rightarrow> []
      | Some m \<Rightarrow>
          (case (m 0, m 1) of
             (Some whole, Some base) \<Rightarrow> [''sub-match[0]: '' @ whole, fname @ '' sub-match[1]: '' @ base]
           | _ \<Rightarrow> []))"

definition test_smatch :: "string list \<Rightarrow> string list" where
  "test_smatch names = concat (map smatch_lines names)"

section \<open>What the expressions match\<close>

definition lower :: "char \<Rightarrow> bool" where
  "lower c \<longleftrightarrow> 97 \<le> (of_char c :: nat) \<and> (of_char c :: nat) \<le> 122"

lemma match_lower:
  "match_prefix (Range CHR ''a'' CHR ''z'') s g = (case s of [] \<Rightarrow> [] | c # cs \<Rightarrow> if lower c then [(cs, g)] else [])"
  by (simp add: lower_def split: list.split)

text \<open>The repetition of lower-case letters tries every nonempty prefix of them.\<close>

lemma rounds_lower:
  assumes "length s < n"
  shows "set (rounds (match_prefix (Range CHR ''a'' CHR ''z'')) n s g) =
    {(r, g) | r w. s = w @ r \<and> w \<noteq> [] \<and> (\<forall>c \<in> set w. lower c)}"
  using assms
proof (induction n arbitrary: s)
  case (Suc n)
  show ?case
  proof (cases s)
    case Nil
    then show ?thesis by simp
  next
    case (Cons c cs)
    have split: "(\<exists>w. c # cs = w @ r \<and> w \<noteq> [] \<and> (\<forall>c \<in> set w. lower c)) \<longleftrightarrow>
        lower c \<and> (r = cs \<or> (\<exists>w. cs = w @ r \<and> w \<noteq> [] \<and> (\<forall>c \<in> set w. lower c)))" (is "?L \<longleftrightarrow> ?R") for r
    proof
      assume ?L
      then obtain w where w: "c # cs = w @ r" "w \<noteq> []" "\<forall>c \<in> set w. lower c" by blast
      then obtain v where "w = c # v" "cs = v @ r" by (cases w) auto
      then show ?R using w(3) by (cases v) auto
    next
      assume R: ?R
      then consider "r = cs" | v where "cs = v @ r" "\<forall>c \<in> set v. lower c" by blast
      then show ?L
      proof cases
        case 1
        then show ?thesis using R by (intro exI [of _ "[c]"]) simp
      next
        case 2
        then show ?thesis using R by (intro exI [of _ "c # v"]) simp
      qed
    qed
    have "set (rounds (match_prefix (Range CHR ''a'' CHR ''z'')) n cs g) =
        {(r, g) | r w. cs = w @ r \<and> w \<noteq> [] \<and> (\<forall>c \<in> set w. lower c)}"
      using Suc.prems Cons by (intro Suc.IH) simp
    then have "set (rounds (match_prefix (Range CHR ''a'' CHR ''z'')) (Suc n) s g) =
        {(r, g) | r. lower c \<and> (r = cs \<or> (\<exists>w. cs = w @ r \<and> w \<noteq> [] \<and> (\<forall>c \<in> set w. lower c)))}"
      using Cons by (auto simp del: match_prefix.simps simp: match_lower)
    moreover have "{(r, g) | r w. s = w @ r \<and> w \<noteq> [] \<and> (\<forall>c \<in> set w. lower c)} =
        {(r, g) | r. lower c \<and> (r = cs \<or> (\<exists>w. cs = w @ r \<and> w \<noteq> [] \<and> (\<forall>c \<in> set w. lower c)))}"
      unfolding Cons split [symmetric] by blast
    ultimately show ?thesis by (rule trans [OF _ sym])
  qed
qed simp

lemma match_plus_lower:
  "set (match_prefix (Plus (Range CHR ''a'' CHR ''z'')) s g) =
    {(r, g) | r w. s = w @ r \<and> w \<noteq> [] \<and> (\<forall>c \<in> set w. lower c)}"
  using rounds_lower [of s "Suc (length s)" g] by simp

lemma match_literal:
  "set (match_prefix (literal t e) s g) = {(r, h) | r h. (t @ r, h) \<in> set (match_prefix e s g)}"
proof (induction t arbitrary: e)
  case (Cons c t)
  have "set (match_prefix (Cat e (Lit c)) s g) = {(r, h) | r h. (c # r, h) \<in> set (match_prefix e s g)}"
    by (fastforce split: list.splits if_splits)
  then show ?case using Cons [of "Cat e (Lit c)"] by simp
qed simp

text \<open>When all matches of the whole text have the same groups, the order of the attempts does not matter.\<close>

lemma regex_match_eq:
  assumes "\<And>h. ([], h) \<in> set (match_prefix e s (\<lambda>_. None)) \<longleftrightarrow> P \<and> h = g"
  shows "regex_match s e = (if P then Some (g(0 \<mapsto> s)) else None)"
proof (cases "filter (\<lambda>(r, g). r = []) (match_prefix e s (\<lambda>_. None))")
  case Nil
  then have "([], g) \<notin> set (match_prefix e s (\<lambda>_. None))" by (auto simp: filter_empty_conv)
  then show ?thesis using Nil assms by (auto simp: regex_match_def)
next
  case (Cons m ms)
  then have "m \<in> set (filter (\<lambda>(r, g). r = []) (match_prefix e s (\<lambda>_. None)))" by simp
  then obtain h where "m = ([], h)" "([], h) \<in> set (match_prefix e s (\<lambda>_. None))" by auto
  then show ?thesis using Cons assms by (simp add: regex_match_def)
qed

definition txt_name :: "string \<Rightarrow> bool" where
  "txt_name s \<longleftrightarrow> (\<exists>w. s = w @ ''.txt'' \<and> w \<noteq> [] \<and> (\<forall>c \<in> set w. lower c))"

lemma txt_nameI: "s = w @ ''.txt'' \<Longrightarrow> w \<noteq> [] \<Longrightarrow> (\<forall>c \<in> set w. lower c) \<Longrightarrow> txt_name s"
  by (auto simp: txt_name_def)

lemma regex_match_txt: "regex_match s txt_regex = (if txt_name s then Some ((\<lambda>_. None)(0 \<mapsto> s)) else None)"
  by (rule regex_match_eq) (auto simp: txt_regex_def match_literal match_plus_lower txt_name_def simp del: match_prefix.simps literal.simps)

lemma match_group:
  "set (match_prefix (Group i e) s g) =
     {(r, h(i \<mapsto> take (length s - length r) s)) | r h. (r, h) \<in> set (match_prefix e s g)}"
  by force

lemma regex_match_base:
  "regex_match s base_regex =
     (if txt_name s then Some ((\<lambda>_. None)(1 \<mapsto> take (length s - 4) s, 0 \<mapsto> s)) else None)"
  by (rule regex_match_eq)
    (auto simp: base_regex_def match_literal match_group match_plus_lower txt_name_def simp del: match_prefix.simps literal.simps)

section \<open>Properties\<close>

text \<open>
  The two tests tell exactly the names made of one or more lower-case letters and \<open>.txt\<close>: for any list of names the first prints 1 for
  these and 0 for the others, and the second prints, for each of these alone, the whole name and the letters in front
  of \<open>.txt\<close>.
\<close>

lemma regex_tests:
  "test_match names = map (\<lambda>s. s @ '': '' @ (if txt_name s then ''1'' else ''0'')) names \<and>
   test_smatch names = concat (map (\<lambda>s. if txt_name s
     then [''sub-match[0]: '' @ s, s @ '' sub-match[1]: '' @ take (length s - 4) s] else []) names)"
proof -
  have "smatch_lines = (\<lambda>s. if txt_name s
      then [''sub-match[0]: '' @ s, s @ '' sub-match[1]: '' @ take (length s - 4) s] else [])"
    by (rule ext) (simp add: smatch_lines_def regex_match_base)
  then show ?thesis by (auto simp: test_match_def test_smatch_def match_line_def regex_match_txt)
qed

lemma fnames_output:
  "test_match fnames = [''foo.txt: 1'', ''bar.txt: 1'', ''test: 0'', ''a0.txt: 0'', ''AAA.txt: 0'']"
  "test_smatch fnames = [''sub-match[0]: foo.txt'', ''foo.txt sub-match[1]: foo'',
     ''sub-match[0]: bar.txt'', ''bar.txt sub-match[1]: bar'']"
  by code_simp+

end
