(* ===== verification/Protobuf_Demos.thy ===== *)
theory Protobuf_Demos
  imports Printing
begin

text \<open>
  The tests of \<open>src/protobuf/any.cc\<close> and \<open>src/protobuf/pb24json.cc\<close> over the messages of \<open>src/protobuf/test.proto\<close>. The protobuf library and the
  classes it generates are not part of the repository: packing, serializing and the conversions to and from JSON are the operations of
  the records \<open>protobuf\<close> and \<open>json_util\<close>, with their documented round trips as laws. A test yields the list of its
  expectations that fail. The serialized form is only handed on, so that its type is left open. \<open>StrCat\<close> is Abseil's, given the printed numbers.
\<close>

section \<open>The messages\<close>

datatype grade = Unknown | One | Two | Three

record student =
  name :: string
  age :: "32 word"
  grade_of :: grade
  nick_name :: string

record object1 =
  info1 :: string
  foo :: string

record object2 =
  info2 :: string
  bar :: string

record 'any envelope =
  seq :: "32 word"
  objects :: "'any list"

section \<open>Packing into \<open>Any\<close>\<close>

record ('any, 'buf) protobuf =
  PackFrom1 :: "object1 \<Rightarrow> 'any"
  PackFrom2 :: "object2 \<Rightarrow> 'any"
  Is1 :: "'any \<Rightarrow> bool"
  Is2 :: "'any \<Rightarrow> bool"
  UnpackTo1 :: "'any \<Rightarrow> object1 option"
  UnpackTo2 :: "'any \<Rightarrow> object2 option"
  SerializeAsString :: "'any envelope \<Rightarrow> 'buf"
  ParseFromString :: "'buf \<Rightarrow> 'any envelope option"

definition protobuf_law :: "('any, 'buf) protobuf \<Rightarrow> bool" where
  "protobuf_law pb \<longleftrightarrow>
     (\<forall>x. Is1 pb (PackFrom1 pb x) \<and> \<not> Is2 pb (PackFrom1 pb x) \<and> UnpackTo1 pb (PackFrom1 pb x) = Some x) \<and>
     (\<forall>y. Is2 pb (PackFrom2 pb y) \<and> \<not> Is1 pb (PackFrom2 pb y) \<and> UnpackTo2 pb (PackFrom2 pb y) = Some y) \<and>
     (\<forall>e. ParseFromString pb (SerializeAsString pb e) = Some e)"

definition object_at :: "('any, 'buf) protobuf \<Rightarrow> (string list \<Rightarrow> string) \<Rightarrow> nat \<Rightarrow> 'any" where
  "object_at pb StrCat i =
     (if i mod 2 = 0
      then PackFrom1 pb \<lparr>info1 = StrCat [''object1, info '', show_nat i], foo = StrCat [''foo'', show_nat i]\<rparr>
      else PackFrom2 pb \<lparr>info2 = StrCat [''object2, info '', show_nat i], bar = StrCat [''bar'', show_nat i]\<rparr>)"

fun pack_loop :: "('any, 'buf) protobuf \<Rightarrow> (string list \<Rightarrow> string) \<Rightarrow> nat \<Rightarrow> nat \<Rightarrow> 'any envelope \<Rightarrow> 'any envelope" where
  "pack_loop pb StrCat i 0 evp = evp"
| "pack_loop pb StrCat i (Suc n) evp =
     pack_loop pb StrCat (Suc i) n (evp\<lparr>objects := objects evp @ [object_at pb StrCat i]\<rparr>)"

datatype failure = SeqDiffers | WrongParity nat | UnpackFailed nat | InfoDiffers nat | FieldDiffers nat | UnknownType nat

definition expect :: "bool \<Rightarrow> failure \<Rightarrow> failure list" where
  "expect b f = (if b then [] else [f])"

text \<open>A failed \<open>UnpackTo\<close> leaves the message empty, and the expectations on its fields are still checked.\<close>

definition check_object :: "('any, 'buf) protobuf \<Rightarrow> (string list \<Rightarrow> string) \<Rightarrow> nat \<Rightarrow> 'any \<Rightarrow> failure list" where
  "check_object pb StrCat i obj =
     (if Is1 pb obj
      then let u = UnpackTo1 pb obj; m = (case u of Some x \<Rightarrow> x | None \<Rightarrow> \<lparr>info1 = [], foo = []\<rparr>) in
        expect (i mod 2 = 0) (WrongParity i) @ expect (u \<noteq> None) (UnpackFailed i) @
        expect (info1 m = StrCat [''object1, info '', show_nat i]) (InfoDiffers i) @
        expect (foo m = StrCat [''foo'', show_nat i]) (FieldDiffers i)
      else if Is2 pb obj
      then let u = UnpackTo2 pb obj; m = (case u of Some y \<Rightarrow> y | None \<Rightarrow> \<lparr>info2 = [], bar = []\<rparr>) in
        expect (i mod 2 = 1) (WrongParity i) @ expect (u \<noteq> None) (UnpackFailed i) @
        expect (info2 m = StrCat [''object2, info '', show_nat i]) (InfoDiffers i) @
        expect (bar m = StrCat [''bar'', show_nat i]) (FieldDiffers i)
      else [UnknownType i])"

text \<open>\<open>FAIL()\<close> returns from the test.\<close>

fun check_loop :: "('any, 'buf) protobuf \<Rightarrow> (string list \<Rightarrow> string) \<Rightarrow> nat \<Rightarrow> 'any list \<Rightarrow> failure list" where
  "check_loop pb StrCat i [] = []"
| "check_loop pb StrCat i (obj # objs) =
     (let fs = check_object pb StrCat i obj in
      if fs = [UnknownType i] then fs else fs @ check_loop pb StrCat (Suc i) objs)"

text \<open>A failed \<open>ParseFromString\<close>, whose result the test ignores, leaves the envelope empty.\<close>

definition any_test :: "('any, 'buf) protobuf \<Rightarrow> (string list \<Rightarrow> string) \<Rightarrow> nat \<Rightarrow> failure list" where
  "any_test pb StrCat n =
     (let evp = pack_loop pb StrCat 0 n \<lparr>seq = 123, objects = []\<rparr>;
          parsed = (case ParseFromString pb (SerializeAsString pb evp) of
             Some e \<Rightarrow> e | None \<Rightarrow> \<lparr>seq = 0, objects = []\<rparr>)
      in expect (seq parsed = seq evp) SeqDiffers @ check_loop pb StrCat 0 (objects parsed))"

section \<open>JSON\<close>

record json_util =
  MessageToJsonString :: "student \<Rightarrow> string option"
  JsonStringToMessage :: "bool \<Rightarrow> string \<Rightarrow> student option"

definition tony :: student where
  "tony = \<lparr>name = ''tony'', age = 18, grade_of = Three, nick_name = []\<rparr>"

definition empty_student :: student where
  "empty_student = \<lparr>name = [], age = 0, grade_of = Unknown, nick_name = []\<rparr>"

text \<open>A conversion that fails leaves its target as it was; the tests ignore its status.\<close>

definition to_json :: "json_util \<Rightarrow> student \<Rightarrow> string" where
  "to_json ju s = (case MessageToJsonString ju s of Some t \<Rightarrow> t | None \<Rightarrow> [])"

definition from_json :: "json_util \<Rightarrow> bool \<Rightarrow> string \<Rightarrow> student" where
  "from_json ju ignore_unknown t = (case JsonStringToMessage ju ignore_unknown t of Some s \<Rightarrow> s | None \<Rightarrow> empty_student)"

text \<open>The replacement of the last character; of an empty text there is none, and \<open>end() - 1\<close> is undefined.\<close>

definition replace_last :: "string \<Rightarrow> string \<Rightarrow> string checked" where
  "replace_last t u = (if t = [] then Inl OutOfBounds else Inr (butlast t @ u))"

definition other_field :: string where
  "other_field = CHR 0x22 # ''other'' @ [CHR 0x22] @ '':123''"

definition simple_test :: "json_util \<Rightarrow> student \<Rightarrow> student" where
  "simple_test ju s = from_json ju False (to_json ju s)"

definition parse_options_test :: "json_util \<Rightarrow> student \<Rightarrow> (string \<times> student) checked" where
  "parse_options_test ju s =
     bind_checked (replace_last (to_json ju s) ('','' @ other_field @ ''}'')) (\<lambda>json.
       Inr (json, from_json ju True json))"

text \<open>
  JSON text of a message is an object with a field for each member that differs from its default; the parser takes
  the fields back, and skips one that the message does not have when it is asked to.
\<close>

definition object_text :: "string list \<Rightarrow> string" where
  "object_text fs = ''{'' @ joined '','' fs @ ''}''"

definition json_law :: "json_util \<Rightarrow> (student \<Rightarrow> string list) \<Rightarrow> bool" where
  "json_law ju members \<longleftrightarrow>
     (\<forall>s. MessageToJsonString ju s = Some (object_text (members s))) \<and>
     (\<forall>s. members s = [] \<longleftrightarrow> s = empty_student) \<and>
     (\<forall>b s. JsonStringToMessage ju b (object_text (members s)) = Some s) \<and>
     (\<forall>s. JsonStringToMessage ju True (object_text (members s @ [other_field])) = Some s)"

section \<open>Properties\<close>

lemma pack_loop_objects:
  "objects (pack_loop pb StrCat i n evp) = objects evp @ map (object_at pb StrCat) [i..<i + n] \<and>
   seq (pack_loop pb StrCat i n evp) = seq evp"
proof (induction n arbitrary: i evp)
  case (Suc n)
  have "[i..<i + Suc n] = i # [Suc i..<Suc i + n]" by (simp add: upt_conv_Cons)
  then show ?case using Suc.IH [of "Suc i"] by simp
qed simp

lemma check_object_at: "protobuf_law pb \<Longrightarrow> check_object pb StrCat i (object_at pb StrCat i) = []"
  by (simp add: check_object_def object_at_def protobuf_law_def expect_def Let_def)

lemma check_loop_objects:
  assumes "protobuf_law pb"
  shows "check_loop pb StrCat i (map (object_at pb StrCat) [i..<i + n]) = []"
proof (induction n arbitrary: i)
  case (Suc n)
  have "[i..<i + Suc n] = i # [Suc i..<Suc i + n]" by (simp add: upt_conv_Cons)
  then show ?case using Suc.IH [of "Suc i"] assms by (simp add: check_object_at Let_def)
qed simp

text \<open>
  With a protobuf library that keeps its round trips, the test of \<open>Any\<close> passes for any number of objects: what was packed as one type
  is recognised as that type alone at its place, and unpacks to the message that was packed, after the envelope went through its serialized form.
\<close>

lemma any_test_passes:
  assumes "protobuf_law pb"
  shows "any_test pb StrCat n = []"
proof -
  define evp where "evp = pack_loop pb StrCat 0 n \<lparr>seq = 123, objects = []\<rparr>"
  have "ParseFromString pb (SerializeAsString pb evp) = Some evp" using assms by (simp add: protobuf_law_def)
  moreover have "objects evp = map (object_at pb StrCat) [0..<0 + n]"
    using pack_loop_objects [of pb StrCat 0 n "\<lparr>seq = 123, objects = []\<rparr>"] by (simp add: evp_def)
  ultimately show ?thesis
    using check_loop_objects [OF assms, of StrCat 0 n] by (simp add: any_test_def expect_def evp_def [symmetric] Let_def)
qed

text \<open>A library with the laws: a message packed into \<open>Any\<close> is tagged with its type.\<close>

definition sum_protobuf :: "(object1 + object2, (object1 + object2) envelope) protobuf" where
  "sum_protobuf = \<lparr>PackFrom1 = Inl, PackFrom2 = Inr, Is1 = isl, Is2 = (\<lambda>a. \<not> isl a),
     UnpackTo1 = (\<lambda>a. case a of Inl x \<Rightarrow> Some x | Inr y \<Rightarrow> None),
     UnpackTo2 = (\<lambda>a. case a of Inl x \<Rightarrow> None | Inr y \<Rightarrow> Some y),
     SerializeAsString = id, ParseFromString = Some\<rparr>"

lemma any_test_passes_witness:
  "protobuf_law sum_protobuf \<and> any_test sum_protobuf concat 100 = []"
proof -
  have "protobuf_law sum_protobuf" by (simp add: protobuf_law_def sum_protobuf_def)
  then show ?thesis using any_test_passes by blast
qed

lemma replace_last_object:
  "fs \<noteq> [] \<Longrightarrow> replace_last (object_text fs) ('','' @ f @ ''}'') = Inr (object_text (fs @ [f]))"
proof -
  assume "fs \<noteq> []"
  then have "joined '','' (fs @ [f]) = joined '','' fs @ '','' @ f"
    by (induction fs rule: induct_list012) simp_all
  then show ?thesis by (simp add: replace_last_def object_text_def butlast_append)
qed

text \<open>
  A student that differs from the empty one comes back from its JSON text, and also from the text with an
  unknown field put in by replacing the closing brace, when unknown fields are ignored. For the empty student the same replacement does not give
  an object with one field more: it leaves a comma behind the opening brace.
\<close>

lemma json_roundtrip:
  assumes "json_law ju members"
  shows "simple_test ju s = s" and
    "parse_options_test ju s =
       (if s = empty_student
        then Inr (''{,'' @ other_field @ ''}'', from_json ju True (''{,'' @ other_field @ ''}''))
        else Inr (object_text (members s @ [other_field]), s))"
proof -
  have json: "to_json ju s = object_text (members s)" using assms by (simp add: json_law_def to_json_def)
  show "simple_test ju s = s" using assms by (simp add: simple_test_def json from_json_def json_law_def)
  show "parse_options_test ju s =
       (if s = empty_student
        then Inr (''{,'' @ other_field @ ''}'', from_json ju True (''{,'' @ other_field @ ''}''))
        else Inr (object_text (members s @ [other_field]), s))"
  proof (cases "s = empty_student")
    case True
    then have "members s = []" using assms unfolding json_law_def by blast
    then have "to_json ju s = ''{}''" by (simp add: json object_text_def)
    then show ?thesis using True by (simp add: parse_options_test_def replace_last_def)
  next
    case False
    then have "members s \<noteq> []" using assms unfolding json_law_def by blast
    then show ?thesis
      using replace_last_object [of "members s" other_field] False assms
      by (simp add: parse_options_test_def json from_json_def json_law_def)
  qed
qed

end
