(* ===== verification/Std_Demos.thy ===== *)
theory Std_Demos
  imports Printing
begin

text \<open>
  Three programs that show the life of objects and the order of a container: the services of \<open>src/asio/use_service.cpp\<close>, the shared pointers of \<open>src/memory/shared_ptr.cpp\<close> and the multimap of
  \<open>src/std/std_container_test.cpp\<close>. What they print is a list of lines.

  Asio is not part of the repository: the service registry of an \<open>io_context\<close> is the record \<open>registry\<close> and \<open>registry_law\<close> states its
  documented behaviour: at most one service of a type, and destruction in the reverse order of creation.
\<close>

section \<open>Services\<close>

datatype impl = ImplA | ImplB | ImplC

datatype service = Service impl | Service_shared_ptr impl

record 'c registry =
  ctx_new :: 'c
  has_service :: "'c \<Rightarrow> service \<Rightarrow> bool"
  register :: "service \<Rightarrow> 'c \<Rightarrow> 'c"
  destruction :: "'c \<Rightarrow> service list"

definition registry_law :: "'c registry \<Rightarrow> ('c \<Rightarrow> service list) \<Rightarrow> bool" where
  "registry_law reg view \<longleftrightarrow>
     view (ctx_new reg) = [] \<and>
     (\<forall>c s. has_service reg c s \<longleftrightarrow> s \<in> set (view c)) \<and>
     (\<forall>c s. s \<notin> set (view c) \<longrightarrow> view (register reg s c) = view c @ [s]) \<and>
     (\<forall>c. destruction reg c = rev (view c))"

datatype service_error = ServiceAlreadyExists

text \<open>The constructor and the destructor of \<open>Service\<close>, and the call of an implementation; \<open>type_name\<close> and \<open>impl_name\<close> are \<open>typeid\<close>.\<close>

definition Service_new :: "(service \<Rightarrow> string) \<Rightarrow> service \<Rightarrow> string list" where
  "Service_new type_name s = [''create service '' @ type_name s]"

definition Service_destroy :: "(service \<Rightarrow> string) \<Rightarrow> service \<Rightarrow> string list" where
  "Service_destroy type_name s = [''destroy service '' @ type_name s]"

definition ImplBase_call :: "(impl \<Rightarrow> string) \<Rightarrow> impl \<Rightarrow> string list" where
  "ImplBase_call impl_name i = [''calling '' @ impl_name i @ ''()'']"

definition use_service :: "'c registry \<Rightarrow> (service \<Rightarrow> string) \<Rightarrow> service \<Rightarrow> 'c \<Rightarrow> string list \<times> 'c" where
  "use_service reg type_name s c =
     (if has_service reg c s then ([], c) else (Service_new type_name s, register reg s c))"

definition add_service :: "'c registry \<Rightarrow> service \<Rightarrow> 'c \<Rightarrow> service_error + 'c" where
  "add_service reg s c = (if has_service reg c s then Inl ServiceAlreadyExists else Inr (register reg s c))"

text \<open>
  \<open>main\<close>; with the lines come the numbers of owners of the shared \<open>ImplC\<close> when it has been given to the service and after the
  context is gone.
\<close>

definition services_main ::
  "'c registry \<Rightarrow> (service \<Rightarrow> string) \<Rightarrow> (impl \<Rightarrow> string) \<Rightarrow> service_error + (string list \<times> nat \<times> nat)" where
  "services_main reg type_name impl_name =
     (let owners = 1;
          out0 = ImplBase_call impl_name ImplC @ [''context created''];
          (o1, c1) = use_service reg type_name (Service ImplA) (ctx_new reg);
          (o2, c2) = use_service reg type_name (Service ImplA) c1;
          outA = o1 @ ImplBase_call impl_name ImplA @ o2 @ ImplBase_call impl_name ImplA;
          outB = Service_new type_name (Service ImplB) @ ImplBase_call impl_name ImplB
      in case add_service reg (Service ImplB) c2 of
           Inl e \<Rightarrow> Inl e
         | Inr c3 \<Rightarrow>
             let (o4, c4) = use_service reg type_name (Service ImplB) c3;
                 (o5, c5) = use_service reg type_name (Service_shared_ptr ImplC) c4;
                 owners_in = owners + 1;
                 outC = o5 @ ImplBase_call impl_name ImplC @ [''context released''];
                 gone = destruction reg c5;
                 owners_out = owners_in - count_list gone (Service_shared_ptr ImplC)
             in Inr (out0 @ outA @ outB @ o4 @ ImplBase_call impl_name ImplB @ outC @
                  concat (map (Service_destroy type_name) gone) @ [''before main return''], owners_in, owners_out))"

section \<open>Shared pointers in a loop\<close>

text \<open>A local of the loop body: what its constructor prints, and what its last owner prints when it goes.\<close>

record local_var =
  constructed :: "string list"
  released :: "string list"

definition a_var :: local_var where
  "a_var = \<lparr>constructed = [''ObjA constructing''], released = [''ObjA deconstructing'']\<rparr>"

definition b_var :: local_var where
  "b_var = \<lparr>constructed = [''ObjB constructing''], released = [''deleting shared ptr'', ''ObjB deconstructing'']\<rparr>"

text \<open>The locals of a block are destroyed in the reverse order of their declarations.\<close>

definition block_lines :: "string list \<Rightarrow> local_var list \<Rightarrow> string list \<Rightarrow> string list" where
  "block_lines before vars after =
     before @ concat (map constructed vars) @ after @ concat (map released (rev vars))"

fun shared_ptr_loop :: "nat \<Rightarrow> string list" where
  "shared_ptr_loop 0 = []"
| "shared_ptr_loop (Suc n) = block_lines [''start of loop''] [a_var, b_var] [''end of loop''] @ shared_ptr_loop n"

section \<open>A multimap\<close>

text \<open>
  An \<open>unordered_multimap\<close> as the list of its elements in the order of iteration: elements with equal keys are neighbours, their
  order is otherwise not specified. \<open>insert\<close> may put an element at any place that keeps this; \<open>find\<close> may return any element with the key.
\<close>

fun grouped :: "('k \<times> 'v) list \<Rightarrow> bool" where
  "grouped [] = True"
| "grouped ((k, v) # m) \<longleftrightarrow> grouped m \<and> k \<notin> fst ` set (dropWhile (\<lambda>e. fst e = k) m)"

definition may_insert :: "('k \<times> 'v) \<Rightarrow> ('k \<times> 'v) list \<Rightarrow> ('k \<times> 'v) list \<Rightarrow> bool" where
  "may_insert e m m' \<longleftrightarrow> grouped m' \<and> (\<exists>xs ys. m = xs @ ys \<and> m' = xs @ e # ys)"

fun may_build :: "('k \<times> 'v) list \<Rightarrow> ('k \<times> 'v) list \<Rightarrow> ('k \<times> 'v) list \<Rightarrow> bool" where
  "may_build [] m m' \<longleftrightarrow> m' = m"
| "may_build (e # es) m m' \<longleftrightarrow> (\<exists>m1. may_insert e m m1 \<and> may_build es m1 m')"

definition multimap_pairs :: "(int \<times> int) list" where
  "multimap_pairs = [(1, 11), (1, 12), (1, 13), (2, 21), (2, 22)]"

definition may_find :: "('k \<times> 'v) list \<Rightarrow> 'k \<Rightarrow> nat \<Rightarrow> bool" where
  "may_find m k p \<longleftrightarrow> (if k \<in> fst ` set m then p < length m \<and> fst (m ! p) = k else p = length m)"

definition element_line :: "int \<times> int \<Rightarrow> string" where
  "element_line e = show_int (fst e) @ '': '' @ show_int (snd e)"

fun find_loop :: "int \<Rightarrow> (int \<times> int) list \<Rightarrow> string list" where
  "find_loop k [] = []"
| "find_loop k (e # m) = (if fst e = k then element_line e # find_loop k m else [])"

definition multimap_find_test :: "(int \<times> int) list \<Rightarrow> nat \<Rightarrow> string list" where
  "multimap_find_test m p = map element_line m @ [''''] @ find_loop 2 (drop p m)"

section \<open>What they print\<close>

lemma registry_lawD:
  assumes "registry_law reg view"
  shows "view (ctx_new reg) = []" "has_service reg c s \<longleftrightarrow> s \<in> set (view c)"
    "s \<notin> set (view c) \<Longrightarrow> view (register reg s c) = view c @ [s]" "destruction reg c = rev (view c)"
  using assms unfolding registry_law_def by blast+

text \<open>
  Every service is created once, though it is used twice or was added by hand, and destroyed once, in the reverse order; the
  shared object has a second owner while the context lives and is left to its first owner after the context is
  gone; nothing throws.
\<close>

lemma services_main_output:
  assumes "registry_law reg view"
  shows "services_main reg type_name impl_name = Inr (
    [''calling '' @ impl_name ImplC @ ''()'', ''context created'',
     ''create service '' @ type_name (Service ImplA), ''calling '' @ impl_name ImplA @ ''()'', ''calling '' @ impl_name ImplA @ ''()'',
     ''create service '' @ type_name (Service ImplB), ''calling '' @ impl_name ImplB @ ''()'', ''calling '' @ impl_name ImplB @ ''()'',
     ''create service '' @ type_name (Service_shared_ptr ImplC), ''calling '' @ impl_name ImplC @ ''()'', ''context released'',
     ''destroy service '' @ type_name (Service_shared_ptr ImplC), ''destroy service '' @ type_name (Service ImplB),
     ''destroy service '' @ type_name (Service ImplA), ''before main return''], 2, 1)"
proof -
  note laws = registry_lawD [OF assms]
  have A: "view (register reg (Service ImplA) (ctx_new reg)) = [Service ImplA]"
    using laws(1) laws(3) [of "Service ImplA" "ctx_new reg"] by simp
  have B: "view (register reg (Service ImplB) (register reg (Service ImplA) (ctx_new reg))) =
      [Service ImplA, Service ImplB]"
    using laws(3) [of "Service ImplB" "register reg (Service ImplA) (ctx_new reg)"] A by simp
  have C: "view (register reg (Service_shared_ptr ImplC)
        (register reg (Service ImplB) (register reg (Service ImplA) (ctx_new reg)))) =
      [Service ImplA, Service ImplB, Service_shared_ptr ImplC]"
    using laws(3) [of "Service_shared_ptr ImplC"
        "register reg (Service ImplB) (register reg (Service ImplA) (ctx_new reg))"] B by simp
  show ?thesis
    by (simp add: services_main_def use_service_def add_service_def Service_new_def Service_destroy_def
        ImplBase_call_def Let_def laws(1,2,4) A B C)
qed

text \<open>A registry with the laws: the list of the services.\<close>

definition list_registry :: "service list registry" where
  "list_registry = \<lparr>ctx_new = [], has_service = (\<lambda>c s. s \<in> set c), register = (\<lambda>s c. c @ [s]), destruction = rev\<rparr>"

lemma services_main_output_witness:
  "\<exists>out. services_main list_registry (\<lambda>_. ''S'') (\<lambda>_. ''I'') = Inr (''calling I()'' # ''context created'' # out, 2, 1)"
proof -
  have "registry_law list_registry id" by (simp add: registry_law_def list_registry_def)
  from services_main_output [OF this] show ?thesis by simp
qed

text \<open>In each round of the loop the second pointer goes before the first, its deleter before the destructor of its object.\<close>

lemma shared_ptr_loop_lines:
  "shared_ptr_loop n = concat (replicate n
     [''start of loop'', ''ObjA constructing'', ''ObjB constructing'', ''end of loop'',
      ''deleting shared ptr'', ''ObjB deconstructing'', ''ObjA deconstructing''])"
  by (induction n) (simp_all add: block_lines_def a_var_def b_var_def)

lemma grouped_filter:
  "grouped m \<Longrightarrow> m = [] \<or> fst (hd m) = k \<Longrightarrow> filter (\<lambda>e. fst e = k) m = takeWhile (\<lambda>e. fst e = k) m"
proof (cases m)
  case (Cons e es)
  assume "grouped m" "m = [] \<or> fst (hd m) = k"
  then have "k \<notin> fst ` set (dropWhile (\<lambda>e. fst e = k) es)" "fst e = k" using Cons by (cases e; simp)+
  then have "filter (\<lambda>e. fst e = k) (dropWhile (\<lambda>e. fst e = k) es) = []"
    by (auto simp: filter_empty_conv image_iff)
  moreover have "filter (\<lambda>e. fst e = k) (takeWhile (\<lambda>e. fst e = k) es) = takeWhile (\<lambda>e. fst e = k) es"
    by (simp add: filter_id_conv) (meson set_takeWhileD)
  moreover have "filter (\<lambda>e. fst e = k) es = filter (\<lambda>e. fst e = k) (takeWhile (\<lambda>e. fst e = k) es) @
      filter (\<lambda>e. fst e = k) (dropWhile (\<lambda>e. fst e = k) es)"
    by (metis filter_append takeWhile_dropWhile_id)
  ultimately show ?thesis using Cons \<open>fst e = k\<close> by simp
qed simp

lemma grouped_drop: "grouped m \<Longrightarrow> grouped (drop p m)"
proof (induction m arbitrary: p)
  case (Cons e m)
  then show ?case by (cases p; cases e) simp_all
qed simp

lemma find_loop_takeWhile: "find_loop k m = map element_line (takeWhile (\<lambda>e. fst e = k) m)"
  by (induction m) simp_all

lemma may_build_grouped: "may_build es m m' \<Longrightarrow> grouped m \<Longrightarrow> grouped m' \<and> mset m' = mset m + mset es"
proof (induction es arbitrary: m)
  case (Cons e es)
  then obtain m1 where "may_insert e m m1" "may_build es m1 m'" by auto
  then show ?case using Cons.IH [of m1] by (auto simp: may_insert_def)
qed simp

text \<open>
  The loop over the multimap prints the elements with the key 2 from the one that \<open>find\<close> returned on: all of them only
  when that is the first one, which the standard does not promise.
\<close>

lemma multimap_find_lines:
  assumes "may_build multimap_pairs [] m" "may_find m 2 p"
  shows "multimap_find_test m p = map element_line m @ [''''] @ map element_line (filter (\<lambda>e. fst e = 2) (drop p m))"
    and "filter (\<lambda>e. fst e = 2) (drop p m) \<noteq> []"
proof -
  have m: "grouped m" "mset m = mset multimap_pairs" using may_build_grouped [OF assms(1)] by simp_all
  have "2 \<in> fst ` set m" using mset_eq_setD [OF m(2)] by (simp add: multimap_pairs_def)
  then have p: "p < length m" "fst (m ! p) = 2" using assms(2) by (simp_all add: may_find_def)
  then have "fst (hd (drop p m)) = 2" by (simp add: hd_drop_conv_nth)
  then show "multimap_find_test m p = map element_line m @ [''''] @ map element_line (filter (\<lambda>e. fst e = 2) (drop p m))"
    using grouped_filter [OF grouped_drop [OF m(1)], of p 2]
    by (simp add: multimap_find_test_def find_loop_takeWhile)
  show "filter (\<lambda>e. fst e = 2) (drop p m) \<noteq> []"
    using p by (auto simp: Cons_nth_drop_Suc [symmetric])
qed

end
