(* ===== verification/Small_Programs.thy ===== *)
theory Small_Programs
  imports Printing
begin

unbundle bit_operations_syntax

text \<open>
  The short programs: the salted hash of \<open>src/misc/hash_with_salt.cpp\<close>, the integer sequence of
  \<open>src/mpl/make_int_seq.cpp\<close>, the list printer of \<open>src/std/std_container_test.cpp\<close>, the window size of
  \<open>src/linux/ioctl.cpp\<close>, and the allocators of \<open>src/memory/custom_allocator.cpp\<close> and
  \<open>src/memory/custom_new_delete.cpp\<close>. Addresses are 64-bit words; what \<open>malloc\<close> and \<open>ioctl\<close> return is an
  input.
\<close>

section \<open>Salted hash\<close>

text \<open>
  The static \<open>_salt\<close> is state. Its conversion to \<open>std::size_t\<close> and all the arithmetic are modulo \<open>2 ^ 64\<close>; the
  increment is that of an \<open>int\<close>.
\<close>

definition get_index :: "u64 \<Rightarrow> int \<Rightarrow> (int \<times> int) checked" where
  "get_index ptr salt_var =
     bind_checked (int_add salt_var 1) (\<lambda>salt_var'.
       let salt = word_of_int salt_var :: u64;
           i0 = ptr;
           i1 = i0 + drop_bit 3 ptr;
           i2 = i1 XOR (salt + 0x9e3779b9 + push_bit 6 i1 + drop_bit 2 i1);
           i3 = i2 mod 193
       in Inr (uint i3, salt_var'))"

fun hash_main :: "(nat \<Rightarrow> u64) \<Rightarrow> nat \<Rightarrow> nat \<Rightarrow> int \<Rightarrow> int list checked" where
  "hash_main addr 0 i salt = Inr []"
| "hash_main addr (Suc n) i salt =
     bind_checked (get_index (addr i) salt) (\<lambda>(x, salt').
     bind_checked (hash_main addr n (i + 1) salt') (\<lambda>xs. Inr (x # xs)))"

section \<open>Integer sequence\<close>

text \<open>The template recursion: a negative \<open>N\<close> never reaches the specialisation for 0, here \<open>None\<close>.\<close>

fun make_int_sequence :: "nat \<Rightarrow> int list \<Rightarrow> int list" where
  "make_int_sequence 0 Ns = Ns"
| "make_int_sequence (Suc n) Ns = make_int_sequence n (int n # Ns)"

definition int_seq_data :: "int \<Rightarrow> int list option" where
  "int_seq_data N = (if N < 0 then None else Some (make_int_sequence (nat N) []))"

definition int_seq_main :: "int \<times> string" where
  "int_seq_main = (0, concat (map (\<lambda>d. show_int d @ '' '') (make_int_sequence 3 [])))"

section \<open>List printer\<close>

text \<open>The text of \<open>comma\<close> is a C string: empty until its first character is set.\<close>

fun print_elements :: "('a \<Rightarrow> string) \<Rightarrow> string \<Rightarrow> 'a list \<Rightarrow> string" where
  "print_elements show comma [] = []"
| "print_elements show comma (e # es) = comma @ show e @ print_elements show '', '' es"

definition print_list :: "('a \<Rightarrow> string) \<Rightarrow> 'a list \<Rightarrow> string" where
  "print_list show v = ''['' @ print_elements show '''' v @ '']''"

section \<open>Window size\<close>

record winsize =
  ws_row :: "16 word"
  ws_col :: "16 word"

text \<open>The result, and what the two pointers hold afterwards.\<close>

definition getWindowSize :: "int \<Rightarrow> winsize \<Rightarrow> int \<times> int \<Rightarrow> int \<times> (int \<times> int)" where
  "getWindowSize ioctl_ret ws rows_cols =
     (if ioctl_ret = - 1 \<or> ws_col ws = 0 then (- 1, rows_cols)
      else (0, (uint (ws_row ws), uint (ws_col ws))))"

section \<open>Allocators\<close>

text \<open>The number of bytes \<open>MyAllocator::allocate\<close> asks \<open>malloc\<close> for, when it is called for \<open>n\<close> objects.\<close>

definition MyAllocator_allocate :: "u64 \<Rightarrow> u64" where
  "MyAllocator_allocate n = n"

text \<open>
  The operators of \<open>student\<close>: the static \<open>m\<close> is state, \<open>None\<close> while it is null. \<open>fresh\<close> is what
  \<open>malloc\<close> returns.
\<close>

definition student_new :: "u64 \<Rightarrow> u64 option \<Rightarrow> u64 \<times> u64 option" where
  "student_new fresh m = (case m of None \<Rightarrow> (fresh, Some fresh) | Some p \<Rightarrow> (p, m))"

definition student_delete :: "u64 \<Rightarrow> u64 option \<Rightarrow> u64 option" where
  "student_delete p m = m"

section \<open>Facts\<close>

lemma get_index_range:
  "get_index p s = Inr (i, s') \<Longrightarrow> 0 \<le> i \<and> i < 193 \<and> s' = s + 1"
  by (auto simp: get_index_def int_ops Let_def uint_mod intro: pos_mod_bound)

text \<open>The two hundred indices of \<open>main\<close> are computed without overflow and are all below 193.\<close>

lemma hash_main_ok:
  assumes "in_int s" "s + int n \<le> INT_MAX"
  shows "\<exists>xs. hash_main addr n i s = Inr xs \<and> length xs = n \<and> (\<forall>x \<in> set xs. 0 \<le> x \<and> x < 193)"
  using assms
proof (induction n arbitrary: i s)
  case (Suc n)
  have "\<exists>x. get_index (addr i) s = Inr (x, s + 1)"
    using Suc.prems by (simp add: get_index_def int_ops int_range Let_def)
  then obtain x where x: "get_index (addr i) s = Inr (x, s + 1)" by blast
  obtain xs where "hash_main addr n (i + 1) (s + 1) = Inr xs" "length xs = n" "\<forall>x \<in> set xs. 0 \<le> x \<and> x < 193"
    using Suc.IH [of "s + 1" "i + 1"] Suc.prems by (auto simp: int_range)
  then show ?case using x get_index_range [OF x] by simp
qed simp

lemma make_int_sequence_eq: "make_int_sequence n Ns = map int [0..<n] @ Ns"
  by (induction n arbitrary: Ns) simp_all


lemma int_seq_data_eq:
  "0 \<le> N \<Longrightarrow> int_seq_data N = Some (map int [0..<nat N])"
  by (simp add: int_seq_data_def make_int_sequence_eq)

lemma print_elements_sep: "es \<noteq> [] \<Longrightarrow> print_elements show c es = c @ joined '', '' (map show es)"
proof (induction es arbitrary: c)
  case (Cons e es)
  then show ?case by (cases es) (simp_all add: joined_Cons)
qed simp

lemma print_list_joined: "print_list show v = ''['' @ joined '', '' (map show v) @ '']''"
  by (cases v) (simp_all add: print_list_def print_elements_sep del: print_elements.simps(2))

lemma getWindowSize_result:
  "getWindowSize r ws rc = (0, a, b) \<Longrightarrow> r \<noteq> - 1 \<and> 0 < b \<and> b < 2 ^ 16 \<and> 0 \<le> a \<and> a < 2 ^ 16"
  using unsigned_less [of "ws_row ws", where ?'a = int] unsigned_less [of "ws_col ws", where ?'a = int]
  by (auto simp: getWindowSize_def order_less_le uint_0_iff split: if_splits)

text \<open>The memory of \<open>MyAllocator\<close> is enough for its objects only when they take one byte each.\<close>

lemma MyAllocator_too_small:
  "0 < n \<Longrightarrow> n * size_T < 2 ^ 64 \<Longrightarrow>
   n * size_T \<le> unat (MyAllocator_allocate (of_nat n)) \<longleftrightarrow> size_T \<le> 1"
proof -
  assume n: "0 < n" "n * size_T < 2 ^ 64"
  show ?thesis
  proof (cases "size_T = 0")
    case False
    then have "n < 2 ^ 64" using n(2) by (metis le_less_trans mult_le_mono2 mult.right_neutral not_gr_zero less_eq_Suc_le One_nat_def)
    then have "unat (of_nat n :: u64) = n" by (simp add: unat_of_nat)
    then show ?thesis using n(1) by (simp add: MyAllocator_allocate_def)
  qed simp
qed

text \<open>
  Every \<open>student\<close> is put at the one address, so that two of them alive at the same time would overlap;
  the loop of \<open>main\<close> deletes each before it makes the next, and allocates once.
\<close>

fun student_loop :: "(nat \<Rightarrow> u64) \<Rightarrow> nat \<Rightarrow> u64 option \<Rightarrow> u64 list" where
  "student_loop fresh 0 m = []"
| "student_loop fresh (Suc n) m =
     (let (p, m1) = student_new (fresh n) m in p # student_loop fresh n (student_delete p m1))"

lemma student_loop_one_address: "\<exists>p. student_loop fresh n m = replicate n p"
proof -
  have same: "student_loop fresh k (Some p) = replicate k p" for k p
    by (induction k) (simp_all add: student_new_def student_delete_def)
  show ?thesis
    by (cases n; cases m) (auto simp: student_new_def student_delete_def same replicate_app_Cons_same
        intro: exI [of _ "fresh (n - 1)"] simp flip: replicate_Suc)
qed

lemma int_seq_main_output: "int_seq_main = (0, ''0 1 2 '')"
  by code_simp

end
