(* ===== verification/Library_Demos.thy ===== *)
theory Library_Demos
  imports Small_Programs Protobuf_Demos
begin

text \<open>
  Programs that are little more than calls of a library: the string functions of Abseil
  (\<open>src/abseil/abseil_strings.cpp\<close>), the call stacks of \<open>src/abseil/abseil_callstack.cpp\<close>, the names of the algorithms of OpenSSL
  (\<open>src/openssl/list_names.cpp\<close>), the single timers and the work guard (\<open>timer1.cpp\<close>, \<open>timer2.cpp\<close> and \<open>asio_hello.cpp\<close> under
  \<open>src/asio\<close>), the start-up of the synchronous server (\<open>src/grpcdemo/server.cpp\<close>), \<open>src/misc/hardware_concurrency.cpp\<close>, and what is left of the
  container, allocator, window size and JSON programs. The functions of the libraries are arguments; a program yields what it prints.
\<close>

section \<open>Strings of Abseil\<close>

datatype alnum = Text string | Num int | Tenth_of_micro | HexPad4 nat | Flag bool

record absl_strings =
  StrJoin :: "string list \<Rightarrow> string \<Rightarrow> string"
  StrSplit_MaxSplits :: "string \<Rightarrow> char \<Rightarrow> nat \<Rightarrow> (string \<Rightarrow> bool) \<Rightarrow> string list"
  AbslStrCat :: "alnum list \<Rightarrow> string"
  StrAppend :: "string \<Rightarrow> alnum list \<Rightarrow> string"
  StrFormat :: "string \<Rightarrow> alnum list \<Rightarrow> string"

definition not_foo :: "string \<Rightarrow> bool" where
  "not_foo str \<longleftrightarrow> ''foo'' \<noteq> str"

definition str_join_split :: "absl_strings \<Rightarrow> string list" where
  "str_join_split ab =
     (let s = StrJoin ab [''foo'', ''bar'', ''baz''] ''-'';
          parts = StrSplit_MaxSplits ab s (CHR ''-'') 1 not_foo
      in [''Joined string: '' @ s, ''Splited string:''] @ parts)"

definition cat_pieces :: "alnum list" where
  "cat_pieces = [Text ''foo'', Text ''bar'', Text ''baz'', Num 123, Tenth_of_micro, HexPad4 255, Flag False]"

definition str_cat_append :: "absl_strings \<Rightarrow> string list" where
  "str_cat_append ab =
     (let cat_str = AbslStrCat ab cat_pieces; append_str = StrAppend ab '''' cat_pieces
      in [''cated string: '' @ cat_str, ''appended string: '' @ append_str])"

definition strings_main :: "absl_strings \<Rightarrow> string list" where
  "strings_main ab = str_join_split ab @ str_cat_append ab @
     [StrFormat ab ''Welcome to %s, Number %d!'' [Text ''The Village'', Num 6]]"

text \<open>
  What Abseil documents: \<open>StrJoin\<close> puts the separator between the pieces; a split with a limit of one cuts at the first delimiter
  only, and keeps the pieces that satisfy the predicate; \<open>StrAppend\<close> appends what \<open>StrCat\<close> returns.
\<close>

definition absl_strings_law :: "absl_strings \<Rightarrow> bool" where
  "absl_strings_law ab \<longleftrightarrow>
     (\<forall>v sep. StrJoin ab v sep = joined sep v) \<and>
     (\<forall>n v d keep. d \<notin> set n \<longrightarrow> StrSplit_MaxSplits ab (n @ d # v) d 1 keep = filter keep [n, v]) \<and>
     (\<forall>dest xs. StrAppend ab dest xs = dest @ AbslStrCat ab xs)"

text \<open>The first piece is dropped by the predicate and the rest is one piece, its delimiter included; both ways to concatenate print the same.\<close>

lemma strings_main_output:
  assumes "absl_strings_law ab"
  shows "str_join_split ab = [''Joined string: foo-bar-baz'', ''Splited string:'', ''bar-baz'']"
    and "str_cat_append ab = [''cated string: '' @ AbslStrCat ab cat_pieces, ''appended string: '' @ AbslStrCat ab cat_pieces]"
proof -
  have "StrJoin ab [''foo'', ''bar'', ''baz''] ''-'' = ''foo'' @ CHR ''-'' # ''bar-baz''"
    using assms by (simp add: absl_strings_law_def)
  moreover have "CHR ''-'' \<notin> set ''foo''" by simp
  then have "StrSplit_MaxSplits ab (''foo'' @ CHR ''-'' # ''bar-baz'') (CHR ''-'') 1 not_foo = filter not_foo [''foo'', ''bar-baz'']"
    using assms unfolding absl_strings_law_def by blast
  ultimately show "str_join_split ab = [''Joined string: foo-bar-baz'', ''Splited string:'', ''bar-baz'']"
    by (simp add: str_join_split_def Let_def not_foo_def)
  show "str_cat_append ab = [''cated string: '' @ AbslStrCat ab cat_pieces, ''appended string: '' @ AbslStrCat ab cat_pieces]"
    using assms by (simp add: str_cat_append_def absl_strings_law_def)
qed

section \<open>Call stacks\<close>

definition testCallStack :: "('cs \<Rightarrow> string) \<Rightarrow> (nat \<Rightarrow> 'cs) \<Rightarrow> string list" where
  "testCallStack debugString CallStack = [debugString (CallStack 0)]"

text \<open>\<open>currentExceptionCallstack\<close> is set when an exception is thrown, if the helper could hook into that; its pointer is followed unchecked.\<close>

definition MyException_what :: string where
  "MyException_what = ''MyExcetpion''"

definition testExceptionCallStack :: "('cs \<Rightarrow> string) \<Rightarrow> 'cs option \<Rightarrow> string list checked" where
  "testExceptionCallStack debugString current =
     (case current of None \<Rightarrow> Inl NullPointer | Some cs \<Rightarrow> Inr [MyException_what, debugString cs])"

definition callstack_main :: "('cs \<Rightarrow> string) \<Rightarrow> (nat \<Rightarrow> 'cs) \<Rightarrow> 'cs option \<Rightarrow> string list checked" where
  "callstack_main debugString CallStack current =
     bind_checked (testExceptionCallStack debugString current) (\<lambda>ls. Inr (testCallStack debugString CallStack @ ls))"

section \<open>Names of algorithms\<close>

datatype obj_type = MD_METH | CIPHER_METH | PKEY_METH | COMP_METH

definition obj_types :: "obj_type list" where
  "obj_types = [MD_METH, CIPHER_METH, PKEY_METH, COMP_METH]"

definition obj_type_names :: "string list" where
  "obj_type_names = [''digest'', ''cipher'', ''pkey'', ''comp'']"

definition name_visitor :: "string \<Rightarrow> string \<Rightarrow> string" where
  "name_visitor arg n = arg @ '': '' @ n"

text \<open>The loop over the index of the two arrays; an access out of bounds is an error. \<open>all_sorted\<close> gives the names of a type.\<close>

fun list_names_loop :: "(obj_type \<Rightarrow> string list) \<Rightarrow> nat \<Rightarrow> nat \<Rightarrow> string list checked" where
  "list_names_loop all_sorted i 0 = Inr []"
| "list_names_loop all_sorted i (Suc n) =
     (if i < length obj_type_names \<and> i < length obj_types
      then bind_checked (list_names_loop all_sorted (Suc i) n) (\<lambda>rest.
        Inr (map (name_visitor (obj_type_names ! i)) (all_sorted (obj_types ! i)) @ rest))
      else Inl OutOfBounds)"

definition list_names_main :: "(obj_type \<Rightarrow> string list) \<Rightarrow> string list checked" where
  "list_names_main all_sorted = list_names_loop all_sorted 0 (length obj_types)"

text \<open>Both arrays have the same length, so that every name is logged with its own kind and nothing else is read.\<close>

lemma list_names_loop_eq:
  "i + n \<le> length obj_types \<Longrightarrow> list_names_loop all_sorted i n =
     Inr (concat (map (\<lambda>j. map (name_visitor (obj_type_names ! j)) (all_sorted (obj_types ! j))) [i..<i + n]))"
proof (induction n arbitrary: i)
  case (Suc n)
  have "length obj_type_names = length obj_types" by (simp add: obj_types_def obj_type_names_def)
  moreover have "[i..<i + Suc n] = i # [Suc i..<Suc i + n]" by (simp add: upt_conv_Cons)
  ultimately show ?case using Suc.IH [of "Suc i"] Suc.prems by simp
qed simp

lemma list_names_main_lines:
  "list_names_main all_sorted = Inr (map (name_visitor ''digest'') (all_sorted MD_METH) @
     map (name_visitor ''cipher'') (all_sorted CIPHER_METH) @ map (name_visitor ''pkey'') (all_sorted PKEY_METH) @
     map (name_visitor ''comp'') (all_sorted COMP_METH))"
  using list_names_loop_eq [of 0 4 all_sorted]
  by (simp add: list_names_main_def obj_types_def obj_type_names_def eval_nat_numeral)

section \<open>Timers and a work guard\<close>

text \<open>A line with the second at which it is printed. \<open>wait\<close> blocks until the expiry; \<open>run\<close> calls the handler of the pending wait then.\<close>

definition timer1_main :: "(int \<times> string) list" where
  "timer1_main = (let expiry = 3 in [(expiry, ''timer expired'')])"

fun ctx_run :: "(int \<times> (int \<Rightarrow> (int \<times> string) list)) option \<Rightarrow> (int \<times> string) list" where
  "ctx_run None = []"
| "ctx_run (Some (expiry, handler)) = handler expiry"

definition timer2_main :: "(int \<times> string) list" where
  "timer2_main = ctx_run (Some (3, \<lambda>now. [(now, ''timer expired'')]))"

lemma timers_agree: "timer2_main = timer1_main"
  by (simp add: timer1_main_def timer2_main_def)

text \<open>
  \<open>asio_hello.cpp\<close>: \<open>run\<close> returns in the other thread when the context is stopped or has no work, and the guard counts as work; \<open>join\<close>
  waits for that.
\<close>

datatype hello_pc = AtSleep | AtReset | AtStop | AtJoin | Returned

record hello =
  main_pc :: hello_pc
  guarded :: bool
  stopped :: bool
  run_returned :: bool

definition hello_start :: hello where
  "hello_start = \<lparr>main_pc = AtSleep, guarded = True, stopped = False, run_returned = False\<rparr>"

inductive hello_step :: "hello \<Rightarrow> hello \<Rightarrow> bool" where
  hello_slept: "main_pc h = AtSleep \<Longrightarrow> hello_step h (h\<lparr>main_pc := AtReset\<rparr>)"
| hello_reset: "main_pc h = AtReset \<Longrightarrow> hello_step h (h\<lparr>guarded := False, main_pc := AtStop\<rparr>)"
| hello_stop: "main_pc h = AtStop \<Longrightarrow> hello_step h (h\<lparr>stopped := True, main_pc := AtJoin\<rparr>)"
| hello_join: "main_pc h = AtJoin \<Longrightarrow> run_returned h \<Longrightarrow> hello_step h (h\<lparr>main_pc := Returned\<rparr>)"
| hello_run: "\<not> run_returned h \<Longrightarrow> stopped h \<or> \<not> guarded h \<Longrightarrow> hello_step h (h\<lparr>run_returned := True\<rparr>)"

definition hello_inv :: "hello \<Rightarrow> bool" where
  "hello_inv h \<longleftrightarrow> (guarded h \<longleftrightarrow> main_pc h \<in> {AtSleep, AtReset}) \<and> (stopped h \<longleftrightarrow> main_pc h \<in> {AtJoin, Returned}) \<and>
     (run_returned h \<longrightarrow> \<not> guarded h) \<and> (main_pc h = Returned \<longrightarrow> run_returned h)"

interpretation hello: invariant_system "\<lambda>h. h = hello_start" hello_step hello_inv
proof
  show "hello_inv t" if "hello_inv s" "hello_step s t" for s t
    using that(2,1) by (induction rule: hello_step.induct) (auto simp: hello_inv_def)
qed (simp add: hello_inv_def hello_start_def)

text \<open>The guard keeps \<open>run\<close> from returning while \<open>main\<close> sleeps, and nothing waits for ever: a program that cannot move has returned, with the thread joined.\<close>

lemma hello_ends:
  assumes "reachable (\<lambda>h. h = hello_start) hello_step h"
  shows "(main_pc h = AtSleep \<longrightarrow> \<not> run_returned h) \<and> ((\<exists>t. hello_step h t) \<or> main_pc h = Returned \<and> run_returned h)"
proof -
  have inv: "hello_inv h" by (rule hello.reachable_inv [OF assms])
  then have "\<exists>t. hello_step h t" if "main_pc h \<noteq> Returned"
    using that hello_step.intros [of h] by (cases "main_pc h"; cases "run_returned h") (auto simp: hello_inv_def)
  then show ?thesis using inv by (auto simp: hello_inv_def)
qed

section \<open>The synchronous server\<close>

text \<open>
  \<open>RunServer\<close>: the calls on the builder and what is logged. \<open>BuildAndStart\<close> returns null when the server cannot be started, for example
  because the port is taken; \<open>Wait\<close> is called through its result.
\<close>

datatype builder_call = AddListeningPort string | RegisterService | Wait

definition RunServer :: "(builder_call list \<Rightarrow> 'server option) \<Rightarrow> (builder_call list \<times> string list) checked" where
  "RunServer BuildAndStart =
     (let addr = ''0.0.0.0:50001''; calls = [AddListeningPort addr, RegisterService]; lines = [''Server listening on '' @ addr]
      in case BuildAndStart calls of None \<Rightarrow> Inl NullPointer | Some server \<Rightarrow> Inr (calls @ [Wait], lines))"

lemma RunServer_null: "RunServer build = Inl NullPointer \<longleftrightarrow> build [AddListeningPort ''0.0.0.0:50001'', RegisterService] = None"
  by (simp add: RunServer_def Let_def split: option.split)

definition hardware_main :: "32 word \<Rightarrow> string" where
  "hardware_main n = show_nat (unat n) @ '' concurrent threads are supported.''"

section \<open>Containers\<close>

fun push_loop :: "nat \<Rightarrow> int list \<Rightarrow> int list" where
  "push_loop 0 xs = xs"
| "push_loop (Suc n) xs = push_loop n (10 # xs)"

text \<open>\<open>pop_front\<close> of an empty list is undefined.\<close>

definition pop_front :: "int list \<Rightarrow> int list checked" where
  "pop_front xs = (case xs of [] \<Rightarrow> Inl OutOfBounds | x # ys \<Rightarrow> Inr ys)"

function pop_loop :: "int list \<Rightarrow> int list checked" where
  "pop_loop xs = (if xs = [] then Inr xs else case pop_front xs of Inl e \<Rightarrow> Inl e | Inr ys \<Rightarrow> pop_loop ys)"
  by auto
termination by (relation "measure length") (auto simp: pop_front_def split: list.splits)

definition push_and_pop_test :: "int list checked" where
  "push_and_pop_test = pop_loop (push_loop 100 [])"

declare pop_loop.simps [simp del]

lemma pop_loop_empties: "pop_loop xs = Inr []"
  by (induction xs) (simp_all add: pop_loop.simps pop_front_def)

lemma push_loop_eq: "push_loop n xs = replicate n 10 @ xs"
  by (induction n arbitrary: xs) (simp_all add: replicate_app_Cons_same)

definition insert_after_end_test :: string where
  "insert_after_end_test = print_list show_int []"

section \<open>A vector over \<open>MyAllocator\<close>\<close>

text \<open>
  The vector of \<open>custom_allocator.cpp\<close> as the standard describes it: an element that does not fit makes it allocate a larger block
  (\<open>grow\<close> gives its capacity), move, and deallocate the old one; the destructor deallocates the last one. A block is the number of
  objects it was asked for and the bytes \<open>malloc\<close> was called with.
\<close>

datatype block_event = Alloc nat u64 | Free nat

record vec =
  elems :: nat
  capacity :: nat
  events :: "block_event list"

definition deallocate :: "nat \<Rightarrow> block_event list" where
  "deallocate cap = (if cap \<noteq> 0 then [Free cap] else [])"

definition push :: "(nat \<Rightarrow> nat) \<Rightarrow> vec \<Rightarrow> vec" where
  "push grow v =
     (if elems v < capacity v then v\<lparr>elems := elems v + 1\<rparr>
      else let cap = grow (capacity v) in
        v\<lparr>elems := elems v + 1, capacity := cap,
          events := events v @ [Alloc cap (MyAllocator_allocate (of_nat cap))] @ deallocate (capacity v)\<rparr>)"

definition allocator_main :: "(nat \<Rightarrow> nat) \<Rightarrow> vec" where
  "allocator_main grow =
     (let v = (push grow ^^ 200) \<lparr>elems = 0, capacity = 0, events = []\<rparr>
      in v\<lparr>events := events v @ deallocate (capacity v)\<rparr>)"

fun allocated :: "block_event list \<Rightarrow> nat multiset" where
  "allocated [] = {#}"
| "allocated (Alloc n b # es) = add_mset n (allocated es)"
| "allocated (Free n # es) = allocated es"

fun freed :: "block_event list \<Rightarrow> nat multiset" where
  "freed [] = {#}"
| "freed (Free n # es) = add_mset n (freed es)"
| "freed (Alloc n b # es) = freed es"

lemma events_append [simp]: "allocated (xs @ ys) = allocated xs + allocated ys" "freed (xs @ ys) = freed xs + freed ys"
  by (induction xs rule: allocated.induct) simp_all

definition vec_ok :: "vec \<Rightarrow> bool" where
  "vec_ok v \<longleftrightarrow> elems v \<le> capacity v \<and>
     allocated (events v) = freed (events v) + (if capacity v = 0 then {#} else {#capacity v#})"

lemma push_ok:
  assumes "capacity v < grow (capacity v)" "vec_ok v"
  shows "vec_ok (push grow v) \<and> elems (push grow v) = elems v + 1"
  using assms by (auto simp: vec_ok_def push_def deallocate_def Let_def)

lemma pushes_ok:
  assumes "\<And>c. c < grow c" "vec_ok v"
  shows "vec_ok ((push grow ^^ n) v) \<and> elems ((push grow ^^ n) v) = elems v + n"
  by (induction n) (use assms push_ok in auto)

text \<open>Every block is given back once, and the vector ends with its two hundred elements in a block for at least as many.\<close>

lemma allocator_main_balanced:
  assumes "\<And>c. c < grow c"
  shows "elems (allocator_main grow) = 200 \<and> 200 \<le> capacity (allocator_main grow) \<and>
    allocated (events (allocator_main grow)) = freed (events (allocator_main grow))"
proof -
  let ?v = "(push grow ^^ 200) \<lparr>elems = 0, capacity = 0, events = []\<rparr>"
  have "vec_ok ?v" "elems ?v = 200"
    using pushes_ok [of grow "\<lparr>elems = 0, capacity = 0, events = []\<rparr>" 200] assms by (simp_all add: vec_ok_def)
  then show ?thesis by (auto simp: allocator_main_def deallocate_def vec_ok_def Let_def)
qed

section \<open>The remaining programs\<close>

text \<open>\<open>main\<close> of \<open>ioctl.cpp\<close>: what is printed and the exit code. The variables have no value before the call.\<close>

definition window_main :: "int \<Rightarrow> winsize \<Rightarrow> int \<times> int \<Rightarrow> string list \<times> int" where
  "window_main ioctl_ret ws uninit =
     (let (ret, rows, cols) = getWindowSize ioctl_ret ws uninit in
      if ret = - 1
      then ([''get window size by ioctl failed'', ''query terminal size failed''], - 1)
      else ([''terminal size is '' @ show_int cols @ ''x'' @ show_int rows @ '' (cols / rows)''], 0))"

text \<open>Nothing that is printed depends on a variable that was not set.\<close>

lemma window_main_initialised: "window_main r ws a = window_main r ws b"
  by (simp add: window_main_def getWindowSize_def)

record JsonPrintOptions =
  add_whitespace :: bool
  always_print_primitive_fields :: bool
  always_print_enums_as_ints :: bool
  preserve_proto_field_names :: bool

definition print_options_test :: "(student \<Rightarrow> JsonPrintOptions \<Rightarrow> string option) \<Rightarrow> string" where
  "print_options_test MessageToJson =
     (let s = empty_student\<lparr>name := ''tony''\<rparr>;
          json = (case MessageToJson s \<lparr>add_whitespace = True, always_print_primitive_fields = True,
              always_print_enums_as_ints = True, preserve_proto_field_names = True\<rparr> of None \<Rightarrow> '''' | Some j \<Rightarrow> j)
      in ''json str: '' @ json)"

end
