(* ===== verification/Spec2Isabelle.thy ===== *)
theory Spec2Isabelle
  imports Greeter_Hub Server_Shutdown Server_Main Async_Conversation Parser_Typing Fibonacci Echo_Program Producer_Consumer Inventory Sync_Client
    Callback_Main Streaming_Client Hmac Tls_Session_Info Signature_Benchmark Timer_Pool Echo_Client Asio_Main
    Signals Regex_Test Protobuf_Demos Std_Demos Library_Demos
begin

text \<open>
  A verification of the C++ demo programs of this repository. The repository holds independent
  programs, most of them servers, clients and concurrent loops around a library (gRPC, asio, OpenSSL,
  Abseil, fsmlite); what is modelled is the code of the programs, and the libraries are parameters.

  \<^bold>\<open>How the models are written.\<close> A class is a record, an enumeration a datatype, a method a function from
  the state to the state and what it calls on the outside. Undefined behaviour and failed
  assertions are error values (\<open>ub\<close>, \<open>checked\<close> in \<open>Prelude\<close>): signed overflow, access out of bounds, a bad
  \<open>free\<close>, a null or dangling pointer, a failed \<open>assert\<close>, an operation on a completion queue that is shut down. Code that runs in several threads or in callbacks is a
  step relation, one step for what happens between two points where another thread can run;
  \<open>reachable\<close> and the locale \<open>invariant_system\<close> carry the invariants, and \<open>refinement_mapping\<close> extends it by an abstract system that the
  steps implement up to stuttering. A library function is an argument
  of the definitions that call it; what is relied on is a predicate that states its
  documentation (\<open>strcat_law\<close>, \<open>strsplit_law\<close>, \<open>absl_laws\<close>, \<open>first_match\<close>, \<open>lib_relied_on\<close>,
  \<open>openssl_laws\<close>, \<open>connected\<close>, \<open>ec_works\<close>, \<open>lsignal_law\<close>, \<open>registry_law\<close>, \<open>protobuf_law\<close>), with a concrete instance in the
  witnesses.

  \<^bold>\<open>The asynchronous greeter server\<close> (\<open>src/grpcdemo/server_async.cc\<close>).
  \<^item> \<open>Session_Tags\<close>: \<open>tagify\<close> and \<open>detagify\<close> on 64-bit words; they are inverse exactly on ids below \<open>2 ^ 62\<close>
    (locale \<open>tag_codec\<close>).
  \<^item> \<open>Greeter_Session\<close>: the state machine of one session, \<open>SendResponse\<close> and \<open>ProcessEvent\<close> (locale
    \<open>write_serializer\<close>): responses are written once, in order, one at a time, and the queue drains.
  \<^item> \<open>Greeter_Server\<close>: the session table (locale \<open>session_table\<close>), the bodies of the accepter, worker and
    broadcast threads, \<open>Start\<close> and \<open>Stop\<close>, and their interleavings with the completions of gRPC: the
    assertions of the threads hold, every session has at most one read and one write outstanding, the
    server keeps one session listening. One theorem shows a flaw: a session can be removed
    while one of its operations is outstanding.
  \<^item> \<open>Greeter_Hub\<close>: what the server promises as a whole, a hub with an outbox for every client (\<open>hub_step\<close>), and the proof that the server
    with its three threads implements it. Its steps (\<open>traced_step\<close>) are finer than those of \<open>Greeter_Server\<close>: \<open>mutex_sessions_\<close> is in the state, a round of
    broadcasts visits one session at a time and may go on after \<open>Stop\<close>, and an accept is two steps; the messages in flight in gRPC are added, and
    \<open>hub_of\<close> is the view. The coarse steps of \<open>Greeter_Server\<close> are runs of the fine ones (\<open>server_step_traced\<close>).
  \<^item> \<open>Server_Shutdown\<close>: the loops of the three threads, the lock of the session table and \<open>Stop\<close> statement by statement. After \<open>Stop\<close> the threads
    end (\<open>shutdown_work\<close> bounds the steps left); two theorems show flaws: a connection delivered after \<open>Stop\<close> makes the accepter start operations on
    queues that were shut down, and the handler can deadlock with the broadcast thread it interrupts. One signal is handled, and a round of broadcasts is one step here.
  \<^item> \<open>Server_Main\<close>: \<open>main\<close> and the signal handler until the threads run; what one signal does between two statements of \<open>Start\<close>, which includes a
    call through a null pointer, and that the threads then start as in \<open>Server_Shutdown\<close>.

  \<^bold>\<open>The synchronous greeter\<close> (\<open>service_impl.cc\<close>, \<open>client.cpp\<close>, \<open>client_async2.cpp\<close>, \<open>client_async.cpp\<close> in \<open>src/grpcdemo\<close>).
  \<^item> \<open>Greeter_Proto\<close>: the messages. \<open>Service_Impl\<close>: the four methods, which agree with each other.
  \<^item> \<open>Sync_Client\<close>: the four calls of the client over a stub, with the lines it logs.
  \<^item> \<open>Async_Client\<close>: the callback client, its methods and its callback thread cut into the statements between which another thread can run;
    every request is answered at most once or keeps its context (\<open>client_ok\<close>). \<open>Callback_Main\<close>: its \<open>main\<close>, the callback thread and signal
    handlers, any number and on any thread, interleaved. At most 100 requests are made, those made after \<open>running_\<close> was cleared are refused, and from then on
    the program ends (\<open>program_work\<close> is the measure), unless a handler on the callback thread joins that thread. Three theorems show flaws: that join
    never returns; \<open>stop\<close> races with operations about to be started and with the end of \<open>main\<close>; the callback of a failed write is lost. The executable
    schedules of the witnesses are in \<open>play\<close>.
  \<^item> \<open>Streaming_Client\<close>: the client with a reading and a writing thread against \<open>SayHello3\<close>; what it logs, and that \<open>run\<close>
    returns once the stream is broken (\<open>stream_work\<close> is the measure).
  \<^item> \<open>Async_Conversation\<close>: the same client on a session of the asynchronous server, with its broadcasts: what it logs is a prefix of what the
    session was asked to send, with one greeting for each request in the end.

  \<^bold>\<open>The HTTP request parser\<close> (\<open>src/misc/fsmlite_test.cpp\<close>): \<open>Http_Parser\<close> has every guard and action, the
  transition table and the loop. The table takes every character, a well-formed request is accepted with its
  method, URI and body; two theorems show flaws (header lines are glued together, the version is lost). \<open>Parser_Typing\<close>: for each state, where
  \<open>buffer_\<close> points and what has been collected (\<open>parser_typed\<close>), which every event keeps; and the rest of \<open>main\<close>.

  \<^bold>\<open>The asio programs\<close> (\<open>src/asio\<close>).
  \<^item> \<open>Handler_Memory\<close>: the one-block allocator of \<open>allocation.cpp\<close>, which implements the contract
    \<open>block_allocator\<close>.
  \<^item> \<open>Connection\<close>: the connection and the accepting server of \<open>allocation.cpp\<close> and
    \<open>reference_counted_buffer.cpp\<close>, over their two versions of \<open>doWrite\<close> (locales \<open>responder\<close> and
    \<open>safe_responder\<close>); the first overflows its buffer on messages longer than 991 bytes, the second is safe.
  \<^item> \<open>Echo_Program\<close>: the whole of \<open>reference_counted_buffer.cpp\<close>, the server with all its connections over one free store: every
    live connection has one operation and one block, none is lost, and what \<open>handler_memory\<close> prints balances.
  \<^item> \<open>Daytime\<close>: the two daytime servers and the client (\<open>src/asio/daytime\<close>).
  \<^item> \<open>Echo_Client\<close>: the interactive client. \<open>Timers\<close>: the counting timers; the fuel of \<open>run_timer\<close> is the
    number of handler calls, and the lemmas show how much is enough. \<open>Timer_Pool\<close>: \<open>timer5.cpp\<close> with its two threads, the handlers statement by
    statement; the strand makes them implement the atomic handlers of \<open>Timers\<close>, and the program ends (\<open>pool_work\<close> is the measure).
  \<^item> \<open>Asio_Main\<close>: \<open>make_daytime_string\<close>, whose text has the 25 characters the servers count on up to the year 9999, and the \<open>main\<close> functions of the
    four servers (locale \<open>serving\<close>): they end only by an exception.

  \<^bold>\<open>The HTTP and TLS clients\<close> (\<open>src/http\<close>, \<open>src/tls\<close>, \<open>src/common\<close>, \<open>src/openssl\<close>).
  \<^item> \<open>Ip_Port\<close>: the address flags; printing and parsing are inverse, and every error is described.
  \<^item> \<open>Http_Client\<close>: sockets and one exchange, shared by the clients, and \<open>tcp_reuse.cpp\<close>.
  \<^item> \<open>Tls_Client\<close>: which session each connection offers and when false start is on.
  \<^item> \<open>Tls_Session_Info\<close>: opening a connection, one exchange and the session information, with the lines they print;
    they are refinements of the functions of \<open>Http_Client\<close>.
  \<^item> \<open>Signature_Benchmark\<close>: the workers of \<open>signature_benchmark.cpp\<close> and the OpenSSL objects they own; every object is
    freed exactly once.
  \<^item> \<open>Hmac\<close>: the hand-written HMAC is that of RFC 2104 for keys that fit in a block.

  \<^bold>\<open>Threads and arithmetic.\<close> \<open>Producer_Consumer\<close> (\<open>src/misc/producer_consumer.cpp\<close>): the threads implement a
  channel with atomic steps, and no wake-up is lost.
  \<open>Inventory\<close> (\<open>src/abseil/abseil_sync.cpp\<close>): the bounds of the inventory. \<open>Fibonacci\<close>
  (\<open>matrix_fast_power.cpp\<close>, \<open>const_expr.cpp\<close>): both programs against one reference, with the exact
  range in which the matrix power does not overflow. \<open>Small_Programs\<close>: the salted hash, the integer
  sequence, the list printer, the window size and the two memory demos.

  \<^bold>\<open>Demonstrations of libraries.\<close> \<open>Printing\<close> prints integers.
  \<^item> \<open>Signals\<close> (\<open>src/misc/lsignal.cpp\<close>): the callbacks with their ranges, and what the eight examples print over any
    signal library with the documented laws.
  \<^item> \<open>Regex_Test\<close> (\<open>src/std/std_regex_test.cpp\<close>): the part of \<open>std::regex\<close> in use as ordered matches, and what the
    two expressions match and capture. The rounds of a repetition are bounded by the length of the text, as each one consumes a character.
  \<^item> \<open>Protobuf_Demos\<close> (\<open>src/protobuf\<close>): the tests of \<open>Any\<close> and of JSON over the round trips of the library.
  \<^item> \<open>Std_Demos\<close>: the service registry (\<open>src/asio/use_service.cpp\<close>), shared pointers in a loop
    (\<open>src/memory/shared_ptr.cpp\<close>) and the multimap of \<open>src/std/std_container_test.cpp\<close>.

  \<^item> \<open>Library_Demos\<close>: the programs that are little more than library calls (strings and call stacks of Abseil, names of OpenSSL algorithms, single
    timers, the work guard of \<open>asio_hello.cpp\<close>, the start-up of the synchronous server) and the rest of the container, allocator, window size and JSON programs.

  \<^bold>\<open>Not modelled.\<close> Logging (except where a theory says so), the times that the signature benchmark prints, sleeping, the base library (its \<open>ThreadGroup\<close> is taken to join its
  threads when it is destroyed), the construction of
  gRPC and asio objects, exhaustion of memory, class and template declarations that hold no code of their own; and
  \<open>src/grpcdemo/test.cc\<close>, whose only test is commented out.
\<close>

end
